(* ===== verification/Prelude.thy ===== *)
theory Prelude
  imports Main
begin

text \<open>
  Shared vocabulary of the development: identifiers and instants, the SQL notions the
  repositories are written in (comparison with NULL, UPDATE .. WHERE over a table, ORDER BY .. LIMIT 1),
  and the generic lemmas about them that the component theories use.
\<close>

section \<open>Identifiers and instants\<close>

text \<open>
  A UUID is an opaque 128-bit value: only equality is used. An instant is the number of
  milliseconds of a \<open>timestamptz\<close>. A scope is the pair (tenant, agent) that every query of the
  repositories carries.
\<close>

type_synonym uuid = nat
type_synonym instant = int
type_synonym scope = "string \<times> string"

named_theorems sql_simps \<open>unfolding rules of the SQL vocabulary\<close>
named_theorems row_simps \<open>effects of a statement on single columns\<close>

section \<open>Comparison with NULL\<close>

text \<open>
  A comparison with NULL is not true, so a row it is asked of is not selected.
\<close>

fun lt_null :: "'a::linorder option \<Rightarrow> 'a option \<Rightarrow> bool" where
  "lt_null (Some a) (Some b) = (a < b)"
| "lt_null _ _ = False"

fun le_null :: "'a::linorder option \<Rightarrow> 'a option \<Rightarrow> bool" where
  "le_null (Some a) (Some b) = (a \<le> b)"
| "le_null _ _ = False"

definition eq_null :: "'a option \<Rightarrow> 'a option \<Rightarrow> bool" where
  "eq_null a b \<longleftrightarrow> a \<noteq> None \<and> a = b"

lemma lt_null_iff: "lt_null a b \<longleftrightarrow> (\<exists>x y. a = Some x \<and> b = Some y \<and> x < y)"
  by (cases a; cases b) auto

lemma le_null_iff: "le_null a b \<longleftrightarrow> (\<exists>x y. a = Some x \<and> b = Some y \<and> x \<le> y)"
  by (cases a; cases b) auto

lemma lt_null_irrefl [simp]: "\<not> lt_null a a"
  by (cases a) auto

lemma lt_null_trans: "lt_null a b \<Longrightarrow> lt_null b c \<Longrightarrow> lt_null a c"
  by (cases a; cases b; cases c) auto

lemma eq_null_iff: "eq_null a b \<longleftrightarrow> (\<exists>x. a = Some x \<and> b = Some x)"
  by (cases a) (auto simp: eq_null_def)

text \<open>\<open>COALESCE\<close>, and \<open>LEAST\<close> / \<open>GREATEST\<close>, which skip NULLs.\<close>

fun coalesce :: "'a option \<Rightarrow> 'a \<Rightarrow> 'a" where
  "coalesce None d = d"
| "coalesce (Some a) d = a"

fun least_null :: "'a::linorder option \<Rightarrow> 'a option \<Rightarrow> 'a option" where
  "least_null None b = b"
| "least_null a None = a"
| "least_null (Some a) (Some b) = Some (min a b)"

fun greatest_null :: "'a::linorder option \<Rightarrow> 'a option \<Rightarrow> 'a option" where
  "greatest_null None b = b"
| "greatest_null a None = a"
| "greatest_null (Some a) (Some b) = Some (max a b)"

section \<open>UPDATE .. WHERE\<close>

definition update_where :: "('r \<Rightarrow> bool) \<Rightarrow> ('r \<Rightarrow> 'r) \<Rightarrow> 'r list \<Rightarrow> 'r list" where
  "update_where p f rs = map (\<lambda>r. if p r then f r else r) rs"

lemma update_where_Nil [simp]: "update_where p f [] = []"
  by (simp add: update_where_def)

lemma update_where_Cons [simp]:
  "update_where p f (r # rs) = (if p r then f r else r) # update_where p f rs"
  by (simp add: update_where_def)

lemma set_update_where:
  "set (update_where p f rs) = (\<lambda>r. if p r then f r else r) ` set rs"
  by (simp add: update_where_def)

lemma update_where_memE:
  assumes "r \<in> set (update_where p f rs)"
  obtains (hit) q where "q \<in> set rs" "p q" "r = f q"
    | (miss) "r \<in> set rs" "\<not> p r"
  using assms by (auto simp: set_update_where split: if_splits)

lemma update_where_none: "\<forall>r \<in> set rs. \<not> p r \<Longrightarrow> update_where p f rs = rs"
  by (induction rs) auto

lemma map_update_where_same:
  "(\<And>r. r \<in> set rs \<Longrightarrow> p r \<Longrightarrow> k (f r) = k r) \<Longrightarrow> map k (update_where p f rs) = map k rs"
  by (induction rs) auto

lemma filter_update_where_same:
  assumes "\<And>r. r \<in> set rs \<Longrightarrow> p r \<Longrightarrow> q (f r) = q r"
    and "\<And>r. r \<in> set rs \<Longrightarrow> p r \<Longrightarrow> \<not> q r"
  shows "filter q (update_where p f rs) = filter q rs"
  using assms by (induction rs) auto

lemma list_all2_update_where:
  assumes "\<And>r. r \<in> set rs \<Longrightarrow> p r \<Longrightarrow> R r (f r)" and "\<And>r. r \<in> set rs \<Longrightarrow> \<not> p r \<Longrightarrow> R r r"
  shows "list_all2 R rs (update_where p f rs)"
  using assms by (induction rs) auto

section \<open>ORDER BY .. LIMIT 1\<close>

text \<open>The first row of least key, or nothing for an empty selection.\<close>

fun first_by :: "('r \<Rightarrow> 'k::linorder) \<Rightarrow> 'r list \<Rightarrow> 'r option" where
  "first_by k [] = None"
| "first_by k (r # rs) =
     (case first_by k rs of
        None \<Rightarrow> Some r
      | Some q \<Rightarrow> if k r \<le> k q then Some r else Some q)"

lemma first_by_None [simp]: "first_by k rs = None \<longleftrightarrow> rs = []"
  by (cases rs) (auto split: option.splits if_splits)

lemma first_by_Some:
  "first_by k rs = Some r \<Longrightarrow> r \<in> set rs \<and> (\<forall>q \<in> set rs. k r \<le> k q)"
proof (induction rs arbitrary: r)
  case Nil
  then show ?case by simp
next
  case (Cons x xs)
  show ?case
  proof (cases "first_by k xs")
    case None
    with Cons.prems show ?thesis by auto
  next
    case (Some q)
    with Cons.IH have "q \<in> set xs" "\<forall>y \<in> set xs. k q \<le> k y" by blast+
    with Some Cons.prems show ?thesis by (auto split: if_splits intro: order_trans)
  qed
qed

lemma first_by_in: "first_by k rs = Some r \<Longrightarrow> r \<in> set rs"
  by (simp add: first_by_Some)

lemma first_by_le: "first_by k rs = Some r \<Longrightarrow> q \<in> set rs \<Longrightarrow> k r \<le> k q"
  by (simp add: first_by_Some)

lemma first_by_exists: "rs \<noteq> [] \<Longrightarrow> \<exists>r. first_by k rs = Some r"
  by (cases "first_by k rs") auto

section \<open>Lookup by primary key\<close>

text \<open>
  \<open>WHERE id = $1 LIMIT 1\<close>. With distinct ids the row found is the only one.
\<close>

lemma find_SomeD: "List.find p rs = Some r \<Longrightarrow> p r \<and> r \<in> set rs"
  by (induction rs) (auto split: if_splits)

lemma find_NoneD: "List.find p rs = None \<Longrightarrow> r \<in> set rs \<Longrightarrow> \<not> p r"
  by (induction rs) (auto split: if_splits)

lemma find_None_iff_all: "List.find p rs = None \<longleftrightarrow> (\<forall>r \<in> set rs. \<not> p r)"
  by (induction rs) auto

lemma distinct_map_eqD:
  "distinct (map k rs) \<Longrightarrow> r \<in> set rs \<Longrightarrow> q \<in> set rs \<Longrightarrow> k r = k q \<Longrightarrow> r = q"
  by (induction rs) (auto simp: image_iff)

lemma find_by_key:
  assumes "distinct (map k rs)" and "r \<in> set rs" and "p r" and "\<And>q. p q \<Longrightarrow> k q = k r"
  shows "List.find p rs = Some r"
proof (cases "List.find p rs")
  case None
  with assms(2,3) show ?thesis by (simp add: find_None_iff_all)
next
  case (Some q)
  then have "p q" "q \<in> set rs" by (auto dest: find_SomeD)
  with assms have "q = r" by (blast intro: distinct_map_eqD)
  with Some show ?thesis by simp
qed

lemma distinct_map_filter: "distinct (map k rs) \<Longrightarrow> distinct (map k (filter p rs))"
  by (induction rs) auto

section \<open>Results\<close>

text \<open>
  An operation that may raise, and that may answer with a conflict: whether it committed its effect.
\<close>

definition commits :: "'e + ('c + 'o) \<times> 'd \<Rightarrow> bool" where
  "commits res = (case res of Inr (Inr _, _) \<Rightarrow> True | _ \<Rightarrow> False)"

lemma commits_iff: "commits res \<longleftrightarrow> (\<exists>ok d. res = Inr (Inr ok, d))"
  by (auto simp: commits_def split: sum.splits prod.splits)

end
