(* ===== verification/Turn_Contract.thy ===== *)
theory Turn_Contract
  imports Prelude
begin

text \<open>
  The public contract of the durable state machine of an inbound turn
  (src/runtime/turns/contract.ts): the operational states, the business outcomes, the table of
  automatic transitions, the table of manual ones, the outcomes each terminal state admits, the
  check of a triple (from, to, outcome), and the admissible sources of a state, which the
  repository turns into the WHERE of its compare-and-swap. The messages of the errors are left
  out; every reason of a refusal is kept.
\<close>

section \<open>Vocabulary\<close>

datatype turn_status =
    Received | Queued | Claimed | Running | Outbound_Pending | Retryable
  | Completed | Ignored | Superseded | Dead_Letter

datatype turn_outcome =
    Reply_Delivered | Reply_Delivery_Unknown | Fallback_Delivered | No_Reply_Produced
  | Pending_Action_Resolved | Legacy_Processed
  | Blocked_By_Policy | Identity_Unknown | Identity_Blocked | Quarantined
  | Rate_Limited_Silent | Operator_Cancelled | Pending_Race_Lost
  | Merged_Into_Turn | Retry_Exhausted | Unsafe_To_Retry

definition TURN_STATUSES :: "turn_status list" where
  "TURN_STATUSES = [Received, Queued, Claimed, Running, Outbound_Pending, Retryable,
     Completed, Ignored, Superseded, Dead_Letter]"

definition TERMINAL_TURN_STATUSES :: "turn_status list" where
  "TERMINAL_TURN_STATUSES = [Completed, Ignored, Superseded, Dead_Letter]"

definition RECOVERABLE_TURN_STATUSES :: "turn_status list" where
  "RECOVERABLE_TURN_STATUSES = [Received, Queued, Claimed, Running, Retryable]"

definition TURN_OUTCOMES :: "turn_outcome list" where
  "TURN_OUTCOMES = [Reply_Delivered, Reply_Delivery_Unknown, Fallback_Delivered,
     No_Reply_Produced, Pending_Action_Resolved, Legacy_Processed, Blocked_By_Policy,
     Identity_Unknown, Identity_Blocked, Quarantined, Rate_Limited_Silent, Operator_Cancelled,
     Pending_Race_Lost, Merged_Into_Turn, Retry_Exhausted, Unsafe_To_Retry]"

definition isTerminalTurnStatus :: "turn_status \<Rightarrow> bool" where
  "isTerminalTurnStatus s = (s \<in> set TERMINAL_TURN_STATUSES)"

definition isRecoverableTurnStatus :: "turn_status \<Rightarrow> bool" where
  "isRecoverableTurnStatus s = (s \<in> set RECOVERABLE_TURN_STATUSES)"

fun TURN_TRANSITIONS :: "turn_status \<Rightarrow> turn_status list" where
  "TURN_TRANSITIONS Received = [Queued, Claimed, Retryable, Ignored, Superseded]"
| "TURN_TRANSITIONS Queued = [Claimed, Retryable, Superseded]"
| "TURN_TRANSITIONS Claimed = [Running, Retryable, Dead_Letter]"
| "TURN_TRANSITIONS Running = [Outbound_Pending, Completed, Ignored, Retryable, Dead_Letter]"
| "TURN_TRANSITIONS Outbound_Pending = [Completed, Dead_Letter]"
| "TURN_TRANSITIONS Retryable = [Queued, Dead_Letter]"
| "TURN_TRANSITIONS Completed = []"
| "TURN_TRANSITIONS Ignored = []"
| "TURN_TRANSITIONS Superseded = []"
| "TURN_TRANSITIONS Dead_Letter = []"

text \<open>The lookup of the code is \<open>MANUAL_TRANSITIONS[from] ?? []\<close>.\<close>

fun MANUAL_TRANSITIONS :: "turn_status \<Rightarrow> turn_status list" where
  "MANUAL_TRANSITIONS Dead_Letter = [Queued]"
| "MANUAL_TRANSITIONS Queued = [Ignored]"
| "MANUAL_TRANSITIONS Retryable = [Ignored]"
| "MANUAL_TRANSITIONS _ = []"

text \<open>The record has the four terminal states as keys; it is never read at another one.\<close>

fun TERMINAL_OUTCOMES :: "turn_status \<Rightarrow> turn_outcome list" where
  "TERMINAL_OUTCOMES Completed = [Reply_Delivered, Reply_Delivery_Unknown, Fallback_Delivered,
     No_Reply_Produced, Pending_Action_Resolved, Legacy_Processed]"
| "TERMINAL_OUTCOMES Ignored = [Blocked_By_Policy, Identity_Unknown, Identity_Blocked,
     Quarantined, Rate_Limited_Silent, Operator_Cancelled, Pending_Race_Lost]"
| "TERMINAL_OUTCOMES Superseded = [Merged_Into_Turn]"
| "TERMINAL_OUTCOMES Dead_Letter = [Retry_Exhausted, Operator_Cancelled, Unsafe_To_Retry]"
| "TERMINAL_OUTCOMES _ = []"

definition COMPLETED_WITHOUT_REPLY_OUTCOMES :: "turn_outcome list" where
  "COMPLETED_WITHOUT_REPLY_OUTCOMES =
     [No_Reply_Produced, Pending_Action_Resolved, Legacy_Processed]"

section \<open>The check of a transition\<close>

datatype transition_refusal =
    Terminal_Source | Not_In_Transition_Table | Missing_Outcome
  | Outcome_On_Non_Terminal | Incompatible_Outcome

datatype transition_check = Allowed | Refused transition_refusal

definition checkTurnTransition ::
    "turn_status \<Rightarrow> turn_status \<Rightarrow> turn_outcome option \<Rightarrow> bool \<Rightarrow> transition_check" where
  "checkTurnTransition from to outcome manual =
     (let automatic = TURN_TRANSITIONS from;
          by_hand = (if manual then MANUAL_TRANSITIONS from else [])
      in if to \<notin> set automatic \<and> to \<notin> set by_hand
         then (if isTerminalTurnStatus from then Refused Terminal_Source
               else Refused Not_In_Transition_Table)
         else if isTerminalTurnStatus to
         then (case outcome of
                 None \<Rightarrow> Refused Missing_Outcome
               | Some oc \<Rightarrow> if oc \<notin> set (TERMINAL_OUTCOMES to)
                           then Refused Incompatible_Outcome else Allowed)
         else (if outcome \<noteq> None then Refused Outcome_On_Non_Terminal else Allowed))"

text \<open>The error \<open>InvalidTurnTransitionError\<close>: the triple it was raised for, and why.\<close>

record invalid_transition =
  it_from :: turn_status
  it_to :: turn_status
  it_outcome :: "turn_outcome option"
  it_reason :: transition_refusal

definition assertTurnTransition ::
    "turn_status \<Rightarrow> turn_status \<Rightarrow> turn_outcome option \<Rightarrow> bool \<Rightarrow> invalid_transition + unit" where
  "assertTurnTransition from to outcome manual =
     (case checkTurnTransition from to outcome manual of
        Allowed \<Rightarrow> Inr ()
      | Refused why \<Rightarrow>
          Inl \<lparr>it_from = from, it_to = to, it_outcome = outcome, it_reason = why\<rparr>)"

definition sourceStatusesFor :: "turn_status \<Rightarrow> bool \<Rightarrow> turn_status list" where
  "sourceStatusesFor to manual =
     filter (\<lambda>from. to \<in> set (TURN_TRANSITIONS from)
                  \<or> manual \<and> to \<in> set (MANUAL_TRANSITIONS from)) TURN_STATUSES"

section \<open>Normalisation of an error code\<close>

text \<open>
  \<open>normalizeTurnErrorCode\<close> on code units below 256: trim and lower case, every maximal run
  outside \<open>[a-z0-9_]\<close> becomes one underscore, underscores at the ends are dropped, and at most
  64 characters are kept. JavaScript's white space below 256 is the codes 9 to 13, 32 and 160.
\<close>

definition js_space :: "char \<Rightarrow> bool" where
  "js_space c = (let n = of_char c :: nat in 9 \<le> n \<and> n \<le> 13 \<or> n = 32 \<or> n = 160)"

definition js_trim :: "string \<Rightarrow> string" where
  "js_trim s = rev (dropWhile js_space (rev (dropWhile js_space s)))"

text \<open>
  Lower case for the same code units: the capital letters of ASCII, and of Latin-1 the codes 192
  to 222 without the multiplication sign 215.
\<close>

definition js_lower :: "char \<Rightarrow> char" where
  "js_lower c = (let n = of_char c :: nat
     in if 65 \<le> n \<and> n \<le> 90 \<or> 192 \<le> n \<and> n \<le> 222 \<and> n \<noteq> 215 then char_of (n + 32) else c)"

definition code_char :: "char \<Rightarrow> bool" where
  "code_char c = (let n = of_char c :: nat
     in 97 \<le> n \<and> n \<le> 122 \<or> 48 \<le> n \<and> n \<le> 57 \<or> n = 95)"

fun squash_runs :: "bool \<Rightarrow> string \<Rightarrow> string" where
  "squash_runs in_run [] = []"
| "squash_runs in_run (c # cs) =
     (if code_char c then c # squash_runs False cs
      else if in_run then squash_runs True cs
      else CHR ''_'' # squash_runs True cs)"

definition trim_underscores :: "string \<Rightarrow> string" where
  "trim_underscores s =
     rev (dropWhile (\<lambda>c. c = CHR ''_'') (rev (dropWhile (\<lambda>c. c = CHR ''_'') s)))"

definition TURN_ERROR_CODE_MAX :: nat where
  "TURN_ERROR_CODE_MAX = 64"

definition normalizeTurnErrorCode :: "string option \<Rightarrow> string" where
  "normalizeTurnErrorCode raw =
     (case raw of
        None \<Rightarrow> ''unknown_error''
      | Some r \<Rightarrow>
          (let normalized =
             take TURN_ERROR_CODE_MAX
               (trim_underscores (squash_runs False (map js_lower (js_trim r))))
           in if length normalized > 0 then normalized else ''unknown_error''))"

section \<open>Lemmas\<close>

named_theorems status_simps \<open>evaluation of the closed vocabularies\<close>

lemmas [status_simps] =
  TURN_STATUSES_def TERMINAL_TURN_STATUSES_def RECOVERABLE_TURN_STATUSES_def
  isTerminalTurnStatus_def isRecoverableTurnStatus_def

lemma terminal_simps [simp]:
  "isTerminalTurnStatus Completed" "isTerminalTurnStatus Ignored"
  "isTerminalTurnStatus Superseded" "isTerminalTurnStatus Dead_Letter"
  "\<not> isTerminalTurnStatus Received" "\<not> isTerminalTurnStatus Queued"
  "\<not> isTerminalTurnStatus Claimed" "\<not> isTerminalTurnStatus Running"
  "\<not> isTerminalTurnStatus Outbound_Pending" "\<not> isTerminalTurnStatus Retryable"
  by (simp_all add: status_simps)

lemma TURN_STATUSES_all [simp]: "s \<in> set TURN_STATUSES"
  by (cases s) (simp_all add: TURN_STATUSES_def)

lemma TURN_OUTCOMES_all [simp]: "oc \<in> set TURN_OUTCOMES"
  by (cases oc) (simp_all add: TURN_OUTCOMES_def)

lemma mem_sourceStatusesFor:
  "from \<in> set (sourceStatusesFor to manual) \<longleftrightarrow>
     to \<in> set (TURN_TRANSITIONS from) \<or> manual \<and> to \<in> set (MANUAL_TRANSITIONS from)"
  by (simp add: sourceStatusesFor_def)

lemma terminal_no_automatic_exit: "isTerminalTurnStatus s \<Longrightarrow> TURN_TRANSITIONS s = []"
  by (cases s) auto

lemma check_Allowed_iff:
  "checkTurnTransition from to outcome manual = Allowed \<longleftrightarrow>
     from \<in> set (sourceStatusesFor to manual) \<and>
     (if isTerminalTurnStatus to then \<exists>oc. outcome = Some oc \<and> oc \<in> set (TERMINAL_OUTCOMES to)
      else outcome = None)"
  by (auto simp: checkTurnTransition_def mem_sourceStatusesFor Let_def split: option.splits)

lemma assert_Inr_iff:
  "assertTurnTransition from to outcome manual = Inr u \<longleftrightarrow>
     checkTurnTransition from to outcome manual = Allowed"
  by (auto simp: assertTurnTransition_def split: transition_check.splits)

lemma assert_Inl_iff:
  "(\<exists>e. assertTurnTransition from to outcome manual = Inl e) \<longleftrightarrow>
     checkTurnTransition from to outcome manual \<noteq> Allowed"
  by (auto simp: assertTurnTransition_def split: transition_check.splits)

section \<open>Properties\<close>

lemma underscore_code_char [simp]: "code_char (CHR ''_'')"
  by (simp add: code_char_def)

lemma squash_runs_code: "list_all code_char (squash_runs b s)"
  by (induction b s rule: squash_runs.induct) auto

lemma list_all_dropWhile: "list_all p s \<Longrightarrow> list_all p (dropWhile q s)"
  by (induction s) auto

lemma trim_underscores_code: "list_all code_char s \<Longrightarrow> list_all code_char (trim_underscores s)"
  by (simp add: trim_underscores_def list_all_dropWhile)

lemma dropWhile_snoc: "\<not> p c \<Longrightarrow> \<exists>ds. dropWhile p (xs @ [c]) = ds @ [c]"
  by (induction xs) auto

lemma trim_underscores_hd: "trim_underscores s = [] \<or> hd (trim_underscores s) \<noteq> CHR ''_''"
proof (cases "dropWhile (\<lambda>c. c = CHR ''_'') s")
  case Nil
  show ?thesis unfolding trim_underscores_def Nil by simp
next
  case (Cons c cs)
  then have c: "c \<noteq> CHR ''_''" using hd_dropWhile [of "\<lambda>c. c = CHR ''_''" s] by simp
  obtain ds where "dropWhile (\<lambda>c. c = CHR ''_'') (rev cs @ [c]) = ds @ [c]"
    using dropWhile_snoc [of "\<lambda>c. c = CHR ''_''" c "rev cs"] c by blast
  then have "trim_underscores s = c # rev ds" unfolding trim_underscores_def Cons by simp
  with c show ?thesis by simp
qed

text \<open>
  Whatever an error is called, the code stored for it is between one and 64 characters of
  lower case letters, digits and underscores, and does not begin with an underscore.
\<close>

lemma error_code_shape:
  "list_all code_char (normalizeTurnErrorCode raw)
   \<and> 0 < length (normalizeTurnErrorCode raw) \<and> length (normalizeTurnErrorCode raw) \<le> 64
   \<and> hd (normalizeTurnErrorCode raw) \<noteq> CHR ''_''"
proof (cases raw)
  case None
  then show ?thesis by (simp add: normalizeTurnErrorCode_def code_char_def)
next
  case (Some r)
  let ?t = "trim_underscores (squash_runs False (map js_lower (js_trim r)))"
  have t: "list_all code_char ?t" by (rule trim_underscores_code) (rule squash_runs_code)
  show ?thesis
  proof (cases "?t = []")
    case True
    with Some show ?thesis by (simp add: normalizeTurnErrorCode_def code_char_def)
  next
    case False
    then have "take 64 ?t \<noteq> []" "hd (take 64 ?t) = hd ?t" by auto
    with False t trim_underscores_hd [of "squash_runs False (map js_lower (js_trim r))"] show ?thesis
      by (auto simp: normalizeTurnErrorCode_def Some TURN_ERROR_CODE_MAX_def Let_def list_all_iff
          dest: in_set_takeD)
  qed
qed

end
