(* ===== verification/Turn_Store.thy ===== *)
theory Turn_Store
  imports Turn_Contract
begin

text \<open>
  The tables the turn repository reads and writes, as lists of records, and the predicates its
  statements are composed of: the head-of-line rule, the poison interdiction and the successor
  election (src/db/repositories/stream-head-sql.ts), the hold of human control
  (conversation-control-sql.ts), the write conditions of the compare-and-swap with their fences
  (turn-fence-sql.ts), the open members of a debounce window (stream-debounce-sql.ts), and the
  constraints the database itself checks (migrations 097, 115 and 124).
  A row keeps every column that an operation of the repository reads or writes.
\<close>

section \<open>Tables\<close>

record turn =
  t_id :: uuid
  t_tenant :: string
  t_agent :: string
  t_conversa :: "uuid option"
  t_channel :: "uuid option"
  t_message :: uuid                      \<comment> \<open>\<open>representative_message_id\<close>\<close>
  t_status :: turn_status
  t_outcome :: "turn_outcome option"
  t_superseded_by :: "uuid option"
  t_version :: nat                       \<comment> \<open>\<open>state_version\<close>\<close>
  t_attempts :: nat                      \<comment> \<open>\<open>attempt_count\<close>\<close>
  t_next_attempt :: "instant option"
  t_error_code :: "string option"
  t_error_summary :: "string option"
  t_claimed_by :: "string option"
  t_token :: "uuid option"               \<comment> \<open>\<open>claim_token\<close>\<close>
  t_lease :: "instant option"            \<comment> \<open>\<open>lease_expires_at\<close>\<close>
  t_heartbeat :: "instant option"
  t_deadline :: "instant option"
  t_outbound :: "uuid option"
  t_queued_at :: "instant option"
  t_claimed_at :: "instant option"
  t_started_at :: "instant option"
  t_committed_at :: "instant option"     \<comment> \<open>\<open>outbound_committed_at\<close>\<close>
  t_completed_at :: "instant option"
  t_dead_at :: "instant option"          \<comment> \<open>\<open>dead_lettered_at\<close>\<close>
  t_created_at :: instant
  t_updated_at :: instant
  t_stream :: "string option"            \<comment> \<open>\<open>stream_key\<close>\<close>
  t_stream_version :: "nat option"
  t_first_seq :: "nat option"            \<comment> \<open>\<open>first_ingress_seq\<close>\<close>
  t_last_seq :: "nat option"             \<comment> \<open>\<open>last_ingress_seq\<close>\<close>
  t_promoted_at :: "instant option"
  t_promoted_by :: "uuid option"
  t_window_opened :: "instant option"    \<comment> \<open>\<open>debounce_window_opened_at\<close>\<close>
  t_window_deadline :: "instant option"  \<comment> \<open>\<open>debounce_deadline_at\<close>\<close>
  t_window_closed :: "instant option"    \<comment> \<open>\<open>debounce_closed_at\<close>\<close>
  t_batch_size :: "nat option"

record stream_sequence =
  s_tenant :: string
  s_agent :: string
  s_stream :: string
  s_stream_version :: nat
  s_last_seq :: nat

record stream_block =
  b_id :: uuid
  b_tenant :: string
  b_agent :: string
  b_stream :: string
  b_reason :: string
  b_category :: string
  b_turn :: uuid                         \<comment> \<open>\<open>blocked_by_turn_id\<close>\<close>
  b_error_code :: "string option"
  b_blocked_at :: instant
  b_unblocked_at :: "instant option"
  b_unblocked_by :: "string option"
  b_unblock_reason :: "string option"

datatype control_mode = Bot | Pausing | Human

record conversation_control =
  c_id :: uuid
  c_tenant :: string
  c_agent :: string
  c_stream :: string
  c_mode :: control_mode
  c_epoch :: nat                         \<comment> \<open>\<open>control_epoch\<close>\<close>
  c_owner :: "string option"             \<comment> \<open>\<open>owner_app_user_id\<close>\<close>
  c_reason :: "string option"
  c_paused_at :: "instant option"
  c_resumed_at :: "instant option"
  c_last_command :: "uuid option"
  c_resume_after :: "nat option"         \<comment> \<open>\<open>resume_after_ingress_seq\<close>\<close>
  c_updated :: instant

record turn_input =
  i_id :: uuid
  i_tenant :: string
  i_agent :: string
  i_turn :: uuid
  i_message :: uuid
  i_seq :: nat

record message =
  m_id :: uuid
  m_tenant :: string
  m_agent :: string
  m_conversa :: "uuid option"
  m_channel :: "uuid option"
  m_whatsapp :: "string option"          \<comment> \<open>\<open>metadata->>'whatsapp_id'\<close>\<close>
  m_tipo :: string
  m_processed_at :: "instant option"     \<comment> \<open>\<open>processada_em\<close>\<close>
  m_stream :: "string option"
  m_stream_version :: "nat option"
  m_seq :: "nat option"

record db =
  turns :: "turn list"
  sequences :: "stream_sequence list"
  blocks :: "stream_block list"
  controls :: "conversation_control list"
  inputs :: "turn_input list"
  messages :: "message list"

text \<open>The configuration the repository reads through \<open>contractEnv\<close>.\<close>

record turn_config =
  FEATURE_TURN_HEAD_OF_LINE :: bool
  FEATURE_TURN_STREAM_PROMOTION :: bool
  FEATURE_TURN_STREAM_DEBOUNCE :: bool
  FEATURE_MESSAGE_DEBOUNCE :: bool
  MESSAGE_DEBOUNCE_MS :: int
  MESSAGE_DEBOUNCE_MAX_MS :: int

definition headOfLineEnabled :: "turn_config \<Rightarrow> bool" where
  "headOfLineEnabled cfg = FEATURE_TURN_HEAD_OF_LINE cfg"

definition promotionEnabled :: "turn_config \<Rightarrow> bool" where
  "promotionEnabled cfg = (FEATURE_TURN_STREAM_PROMOTION cfg \<and> headOfLineEnabled cfg)"

definition debouncePersistidoAtivo :: "turn_config \<Rightarrow> bool" where
  "debouncePersistidoAtivo cfg =
     (FEATURE_TURN_STREAM_DEBOUNCE cfg \<and> FEATURE_MESSAGE_DEBOUNCE cfg \<and> headOfLineEnabled cfg)"

section \<open>Closed lists of states (src/runtime/turns/claim.ts)\<close>

definition CLAIMABLE_STATUSES :: "turn_status list" where
  "CLAIMABLE_STATUSES = [Received, Queued, Retryable]"

definition LEASE_TAKEOVER_STATUSES :: "turn_status list" where
  "LEASE_TAKEOVER_STATUSES = [Claimed, Running]"

definition FENCED_WRITE_STATUSES :: "turn_status list" where
  "FENCED_WRITE_STATUSES = [Claimed, Running, Outbound_Pending]"

definition STREAM_OCCUPYING_STATUSES :: "turn_status list" where
  "STREAM_OCCUPYING_STATUSES = [Claimed, Running]"

lemmas [status_simps] = CLAIMABLE_STATUSES_def LEASE_TAKEOVER_STATUSES_def
  FENCED_WRITE_STATUSES_def STREAM_OCCUPYING_STATUSES_def

section \<open>Scope and lookup\<close>

definition in_scope :: "scope \<Rightarrow> turn \<Rightarrow> bool" where
  "in_scope sc r = (t_tenant r = fst sc \<and> t_agent r = snd sc)"

definition is_turn :: "scope \<Rightarrow> uuid \<Rightarrow> turn \<Rightarrow> bool" where
  "is_turn sc tid r = (in_scope sc r \<and> t_id r = tid)"

text \<open>\<open>findById\<close>.\<close>

definition findById :: "db \<Rightarrow> scope \<Rightarrow> uuid \<Rightarrow> turn option" where
  "findById d sc tid = List.find (is_turn sc tid) (turns d)"

section \<open>The FIFO rule and its neighbours (stream-head-sql.ts)\<close>

text \<open>\<open>anterioresNaoTerminais\<close>: the earlier turns of the same stream that are still alive.\<close>

definition anterioresNaoTerminais :: "scope \<Rightarrow> turn \<Rightarrow> turn \<Rightarrow> bool" where
  "anterioresNaoTerminais sc alvo anterior =
     (in_scope sc anterior
      \<and> t_stream anterior \<noteq> None
      \<and> t_status anterior \<notin> set TERMINAL_TURN_STATUSES
      \<and> eq_null (t_stream anterior) (t_stream alvo)
      \<and> lt_null (t_first_seq anterior) (t_first_seq alvo))"

definition streamHeadOfLineNotExists :: "db \<Rightarrow> scope \<Rightarrow> turn \<Rightarrow> bool" where
  "streamHeadOfLineNotExists d sc alvo =
     (t_stream alvo = None \<or> t_first_seq alvo = None
      \<or> \<not> list_ex (anterioresNaoTerminais sc alvo) (turns d))"

definition earlierLiveTurnCount :: "db \<Rightarrow> scope \<Rightarrow> turn \<Rightarrow> nat" where
  "earlierLiveTurnCount d sc alvo =
     length (filter (anterioresNaoTerminais sc alvo) (turns d))"

definition streamSuccessorCandidate :: "db \<Rightarrow> scope \<Rightarrow> uuid \<Rightarrow> turn option" where
  "streamSuccessorCandidate d sc predecessor =
     (case List.find (\<lambda>p. is_turn sc predecessor p \<and> t_stream p \<noteq> None) (turns d) of
        None \<Rightarrow> None
      | Some pred \<Rightarrow>
          first_by (\<lambda>s. the (t_first_seq s))
            (filter (\<lambda>s. in_scope sc s \<and> eq_null (t_stream s) (t_stream pred)
                        \<and> t_first_seq s \<noteq> None
                        \<and> t_status s \<notin> set TERMINAL_TURN_STATUSES) (turns d)))"

definition active_block :: "scope \<Rightarrow> turn \<Rightarrow> stream_block \<Rightarrow> bool" where
  "active_block sc alvo b =
     (b_tenant b = fst sc \<and> b_agent b = snd sc
      \<and> t_stream alvo = Some (b_stream b) \<and> b_unblocked_at b = None)"

definition streamNotPoisoned :: "db \<Rightarrow> scope \<Rightarrow> turn \<Rightarrow> bool" where
  "streamNotPoisoned d sc alvo =
     (t_stream alvo = None \<or> \<not> list_ex (active_block sc alvo) (blocks d))"

definition streamPoisonProbe :: "db \<Rightarrow> scope \<Rightarrow> uuid \<Rightarrow> stream_block option" where
  "streamPoisonProbe d sc tid =
     (case findById d sc tid of
        None \<Rightarrow> None
      | Some alvo \<Rightarrow> List.find (active_block sc alvo) (blocks d))"

definition earlierLiveTurnProbe :: "db \<Rightarrow> scope \<Rightarrow> uuid \<Rightarrow> turn option" where
  "earlierLiveTurnProbe d sc tid =
     (case findById d sc tid of
        None \<Rightarrow> None
      | Some alvo \<Rightarrow>
          first_by (\<lambda>a. the (t_first_seq a))
            (filter (anterioresNaoTerminais sc alvo) (turns d)))"

text \<open>The committed order: later turns of the stream that already ended.\<close>

definition posterioresTerminais :: "scope \<Rightarrow> turn \<Rightarrow> turn \<Rightarrow> bool" where
  "posterioresTerminais sc alvo posterior =
     (in_scope sc posterior
      \<and> t_stream posterior \<noteq> None
      \<and> t_status posterior \<in> set TERMINAL_TURN_STATUSES
      \<and> eq_null (t_stream posterior) (t_stream alvo)
      \<and> lt_null (t_first_seq alvo) (t_first_seq posterior))"

definition committedOrderAfterCount :: "db \<Rightarrow> scope \<Rightarrow> turn \<Rightarrow> nat" where
  "committedOrderAfterCount d sc alvo =
     length (filter (posterioresTerminais sc alvo) (turns d))"

definition committedOrderNotBroken :: "db \<Rightarrow> scope \<Rightarrow> turn \<Rightarrow> bool" where
  "committedOrderNotBroken d sc alvo =
     (t_stream alvo = None \<or> t_first_seq alvo = None
      \<or> \<not> list_ex (posterioresTerminais sc alvo) (turns d))"

section \<open>The hold of human control (conversation-control-sql.ts)\<close>

definition human_hold :: "scope \<Rightarrow> turn \<Rightarrow> conversation_control \<Rightarrow> bool" where
  "human_hold sc alvo c =
     (c_tenant c = fst sc \<and> c_agent c = snd sc
      \<and> t_stream alvo = Some (c_stream c) \<and> c_mode c \<noteq> Bot)"

definition streamNotHumanControlled :: "db \<Rightarrow> scope \<Rightarrow> turn \<Rightarrow> bool" where
  "streamNotHumanControlled d sc alvo =
     (t_stream alvo = None \<or> \<not> list_ex (human_hold sc alvo) (controls d))"

definition humanControlProbe :: "db \<Rightarrow> scope \<Rightarrow> uuid \<Rightarrow> conversation_control option" where
  "humanControlProbe d sc tid =
     (case findById d sc tid of
        None \<Rightarrow> None
      | Some alvo \<Rightarrow> List.find (human_hold sc alvo) (controls d))"

definition ESTADOS_DESCARTAVEIS_DO_BACKLOG :: "turn_status list" where
  "ESTADOS_DESCARTAVEIS_DO_BACKLOG = [Received, Queued, Retryable]"

lemmas [status_simps] = ESTADOS_DESCARTAVEIS_DO_BACKLOG_def

section \<open>Write conditions and fences (turn-fence-sql.ts)\<close>

datatype turn_fence =
    Fence_None
  | Fence_Self uuid
  | Fence_Recovery_Expired
  | Fence_Absorber uuid uuid

definition lease_live :: "instant \<Rightarrow> turn \<Rightarrow> bool" where
  "lease_live now r = lt_null (Some now) (t_lease r)"

definition lease_expired :: "instant \<Rightarrow> turn \<Rightarrow> bool" where
  "lease_expired now r = le_null (t_lease r) (Some now)"

definition absorberFenceCondition :: "db \<Rightarrow> instant \<Rightarrow> scope \<Rightarrow> uuid \<Rightarrow> uuid \<Rightarrow> bool" where
  "absorberFenceCondition d now sc absorber token =
     list_ex (\<lambda>a. is_turn sc absorber a \<and> t_token a = Some token \<and> lease_live now a
                 \<and> t_status a \<in> set FENCED_WRITE_STATUSES) (turns d)"

fun fence_ok :: "db \<Rightarrow> instant \<Rightarrow> scope \<Rightarrow> turn_fence \<Rightarrow> turn \<Rightarrow> bool" where
  "fence_ok d now sc Fence_None r = True"
| "fence_ok d now sc (Fence_Self token) r = (t_token r = Some token \<and> lease_live now r)"
| "fence_ok d now sc Fence_Recovery_Expired r =
     (t_token r \<noteq> None \<and> t_lease r \<noteq> None \<and> lease_expired now r)"
| "fence_ok d now sc (Fence_Absorber absorber token) r =
     absorberFenceCondition d now sc absorber token"

definition turnWriteConditions ::
    "db \<Rightarrow> instant \<Rightarrow> scope \<Rightarrow> uuid \<Rightarrow> turn_status list \<Rightarrow> nat option \<Rightarrow> turn_fence \<Rightarrow> turn \<Rightarrow> bool" where
  "turnWriteConditions d now sc tid sources expected_version fence r =
     (is_turn sc tid r
      \<and> t_status r \<in> set sources
      \<and> (case expected_version of None \<Rightarrow> True | Some v \<Rightarrow> t_version r = v)
      \<and> fence_ok d now sc fence r)"

section \<open>Open members of a debounce window (stream-debounce-sql.ts)\<close>

definition openDebounceWindowMembers :: "scope \<Rightarrow> string \<Rightarrow> turn \<Rightarrow> bool" where
  "openDebounceWindowMembers sc stream r =
     (in_scope sc r \<and> t_stream r = Some stream \<and> t_first_seq r \<noteq> None
      \<and> t_window_opened r \<noteq> None \<and> t_window_closed r = None
      \<and> t_status r \<notin> set TERMINAL_TURN_STATUSES)"

definition debounceWindowDue :: "instant \<Rightarrow> turn \<Rightarrow> bool" where
  "debounceWindowDue now r = le_null (t_window_deadline r) (Some now)"

section \<open>Constraints the database checks\<close>

text \<open>
  \<open>agent_turns_stream_active_uq\<close> (migration 124): at most one claimed or running turn in each
  stream. A statement that breaks it raises a unique violation and its transaction is undone.
\<close>

definition occupies :: "turn \<Rightarrow> bool" where
  "occupies r = (t_stream r \<noteq> None \<and> t_status r \<in> set STREAM_OCCUPYING_STATUSES)"

definition stream_slot :: "turn \<Rightarrow> string \<times> string \<times> string option" where
  "stream_slot r = (t_tenant r, t_agent r, t_stream r)"

definition agent_turns_stream_active_uq :: "turn list \<Rightarrow> bool" where
  "agent_turns_stream_active_uq ts = distinct (map stream_slot (filter occupies ts))"

text \<open>
  \<open>agent_turns_status_outcome_chk\<close> (migrations 097 and 115) and \<open>agent_turns_superseded_by_chk\<close>
  (migration 097), as the CHECK of one row.
\<close>

fun agent_turns_status_outcome_chk :: "turn_status \<Rightarrow> turn_outcome option \<Rightarrow> bool" where
  "agent_turns_status_outcome_chk Completed oc =
     (oc \<in> Some ` {Reply_Delivered, Reply_Delivery_Unknown, Fallback_Delivered,
        No_Reply_Produced, Pending_Action_Resolved, Legacy_Processed})"
| "agent_turns_status_outcome_chk Ignored oc =
     (oc \<in> Some ` {Blocked_By_Policy, Identity_Unknown, Identity_Blocked, Quarantined,
        Rate_Limited_Silent, Operator_Cancelled, Pending_Race_Lost})"
| "agent_turns_status_outcome_chk Superseded oc = (oc = Some Merged_Into_Turn)"
| "agent_turns_status_outcome_chk Dead_Letter oc =
     (oc \<in> Some ` {Retry_Exhausted, Operator_Cancelled, Unsafe_To_Retry})"
| "agent_turns_status_outcome_chk _ oc = (oc = None)"

definition agent_turns_superseded_by_chk :: "turn \<Rightarrow> bool" where
  "agent_turns_superseded_by_chk r =
     (t_superseded_by r = None
      \<or> t_status r = Superseded \<and> t_superseded_by r \<noteq> Some (t_id r))"

definition row_checks :: "turn \<Rightarrow> bool" where
  "row_checks r =
     (agent_turns_status_outcome_chk (t_status r) (t_outcome r) \<and> agent_turns_superseded_by_chk r)"

end
