(* ===== verification/Turn_Evolution.thy ===== *)
theory Turn_Evolution
  imports Turn_Store
begin

text \<open>
  The contract every operation of the turn store keeps, whatever its arguments: how one row may
  change (\<open>row_evolves\<close>), how the table may (\<open>db_evolves\<close>), the invariant of the table
  (\<open>store_ok\<close>), and the locale \<open>turn_operation\<close> whose laws each operation discharges and whose
  lemmas (preservation, isolation of tenants, growth of the version, permanence of the terminal
  states, provenance of the claim tokens) are proved once.
\<close>

section \<open>Evolution of a row\<close>

definition row_changes :: "bool \<Rightarrow> scope \<Rightarrow> uuid option \<Rightarrow> turn \<Rightarrow> turn \<Rightarrow> bool" where
  "row_changes by_hand sc fresh r r' \<longleftrightarrow>
     in_scope sc r
     \<and> t_id r' = t_id r \<and> t_tenant r' = t_tenant r \<and> t_agent r' = t_agent r
     \<and> t_message r' = t_message r \<and> t_stream r' = t_stream r
     \<and> t_version r \<le> t_version r'
     \<and> (row_checks r \<longrightarrow> row_checks r')
     \<and> (isTerminalTurnStatus (t_status r) \<longrightarrow>
          t_status r' = t_status r \<and> t_outcome r' = t_outcome r \<and> t_version r' = t_version r
          \<or> by_hand \<and> t_status r = Dead_Letter)
     \<and> t_token r' \<in> {t_token r, None, fresh}
     \<and> (t_version r' = t_version r \<longrightarrow>
          t_status r' = t_status r \<and> t_outcome r' = t_outcome r \<and> t_token r' = t_token r)"

definition row_evolves :: "bool \<Rightarrow> scope \<Rightarrow> uuid option \<Rightarrow> turn \<Rightarrow> turn \<Rightarrow> bool" where
  "row_evolves by_hand sc fresh r r' \<longleftrightarrow> r' = r \<or> row_changes by_hand sc fresh r r'"

lemma row_evolves_refl [simp, intro]: "row_evolves by_hand sc fresh r r"
  by (simp add: row_evolves_def)

lemma in_scope_cong:
  "t_tenant q = t_tenant r \<Longrightarrow> t_agent q = t_agent r \<Longrightarrow> in_scope sc q = in_scope sc r"
  by (simp add: in_scope_def)

lemma row_changesI:
  assumes "in_scope sc r" and "t_id r' = t_id r" and "t_tenant r' = t_tenant r"
    and "t_agent r' = t_agent r" and "t_message r' = t_message r" and "t_stream r' = t_stream r"
    and "t_version r \<le> t_version r'" and "row_checks r \<Longrightarrow> row_checks r'"
    and "isTerminalTurnStatus (t_status r) \<Longrightarrow>
          t_status r' = t_status r \<and> t_outcome r' = t_outcome r \<and> t_version r' = t_version r
          \<or> by_hand \<and> t_status r = Dead_Letter"
    and "t_token r' \<in> {t_token r, None, fresh}"
    and "t_version r' = t_version r \<Longrightarrow>
          t_status r' = t_status r \<and> t_outcome r' = t_outcome r \<and> t_token r' = t_token r"
  shows "row_evolves by_hand sc fresh r r'"
  using assms by (simp add: row_evolves_def row_changes_def)

lemma row_changesD:
  assumes "row_changes by_hand sc fresh r r'"
  shows "in_scope sc r" and "t_id r' = t_id r" and "t_tenant r' = t_tenant r"
    and "t_agent r' = t_agent r" and "t_message r' = t_message r" and "t_stream r' = t_stream r"
    and "t_version r \<le> t_version r'" and "row_checks r \<Longrightarrow> row_checks r'"
    and "isTerminalTurnStatus (t_status r) \<Longrightarrow>
          t_status r' = t_status r \<and> t_outcome r' = t_outcome r \<and> t_version r' = t_version r
          \<or> by_hand \<and> t_status r = Dead_Letter"
    and "t_token r' \<in> {t_token r, None, fresh}"
    and "t_version r' = t_version r \<Longrightarrow>
          t_status r' = t_status r \<and> t_outcome r' = t_outcome r \<and> t_token r' = t_token r"
  using assms by (simp_all add: row_changes_def)

lemma row_changes_trans:
  assumes 1: "row_changes by_hand sc fresh r q" and 2: "row_changes by_hand sc fresh q p"
  shows "row_evolves by_hand sc fresh r p"
proof (rule row_changesI)
  show "t_version r \<le> t_version p"
    using row_changesD(7) [OF 1] row_changesD(7) [OF 2] by (rule order_trans)
  show "row_checks r \<Longrightarrow> row_checks p"
    using row_changesD(8) [OF 1] row_changesD(8) [OF 2] by blast
  show "isTerminalTurnStatus (t_status r) \<Longrightarrow>
      t_status p = t_status r \<and> t_outcome p = t_outcome r \<and> t_version p = t_version r
          \<or> by_hand \<and> t_status r = Dead_Letter"
    using row_changesD(9) [OF 1] row_changesD(9) [OF 2] by metis
  show "t_token p \<in> {t_token r, None, fresh}"
    using row_changesD(10) [OF 1] row_changesD(10) [OF 2] by auto
  show "t_status p = t_status r \<and> t_outcome p = t_outcome r \<and> t_token p = t_token r"
    if "t_version p = t_version r"
    using that row_changesD(7,11) [OF 1] row_changesD(7,11) [OF 2] by auto
qed (simp_all add: row_changesD [OF 1] row_changesD(2-6) [OF 2])

lemma row_evolves_trans:
  "row_evolves by_hand sc fresh r q \<Longrightarrow> row_evolves by_hand sc fresh q p \<Longrightarrow> row_evolves by_hand sc fresh r p"
  by (metis row_changes_trans row_evolves_def)

lemmas row_evolution = row_evolves_def row_changes_def

lemma row_evolves_key:
  "row_evolves by_hand sc fresh r r' \<Longrightarrow> t_id r' = t_id r"
  "row_evolves by_hand sc fresh r r' \<Longrightarrow> t_tenant r' = t_tenant r"
  "row_evolves by_hand sc fresh r r' \<Longrightarrow> t_agent r' = t_agent r"
  "row_evolves by_hand sc fresh r r' \<Longrightarrow> t_stream r' = t_stream r"
  "row_evolves by_hand sc fresh r r' \<Longrightarrow> t_message r' = t_message r"
  by (auto simp: row_evolution)

lemma row_evolves_version: "row_evolves by_hand sc fresh r r' \<Longrightarrow> t_version r \<le> t_version r'"
  by (auto simp: row_evolution)

lemma row_evolves_checks: "row_evolves by_hand sc fresh r r' \<Longrightarrow> row_checks r \<Longrightarrow> row_checks r'"
  by (auto simp: row_evolution)

lemma row_evolves_foreign: "row_evolves by_hand sc fresh r r' \<Longrightarrow> \<not> in_scope sc r \<Longrightarrow> r' = r"
  by (auto simp: row_evolution)

section \<open>Evolution of the table\<close>

definition db_evolves :: "bool \<Rightarrow> scope \<Rightarrow> uuid option \<Rightarrow> db \<Rightarrow> db \<Rightarrow> bool" where
  "db_evolves by_hand sc fresh d d' \<longleftrightarrow>
     (\<exists>rs new. turns d' = rs @ new
        \<and> list_all2 (row_evolves by_hand sc fresh) (turns d) rs
        \<and> (\<forall>r \<in> set new. in_scope sc r \<and> row_checks r \<and> t_token r \<in> {None, fresh})
        \<and> distinct (map t_id new) \<and> t_id ` set new \<inter> t_id ` set (turns d) = {})"

lemma list_all2_key:
  "list_all2 (row_evolves by_hand sc fresh) rs qs \<Longrightarrow> map t_id qs = map t_id rs"
  by (induction rule: list_all2_induct) (auto dest: row_evolves_key(1))

lemma db_evolves_same [intro]: "turns d' = turns d \<Longrightarrow> db_evolves by_hand sc fresh d d'"
  unfolding db_evolves_def by (rule exI [of _ "turns d"], rule exI [of _ "[]"])
    (simp add: list.rel_refl)

lemma db_evolves_rows:
  "list_all2 (row_evolves by_hand sc fresh) (turns d) (turns d') \<Longrightarrow> db_evolves by_hand sc fresh d d'"
  unfolding db_evolves_def by (rule exI [of _ "turns d'"], rule exI [of _ "[]"]) simp

lemma db_evolves_update:
  assumes "turns d' = update_where p f (turns d)"
    and "\<And>r. r \<in> set (turns d) \<Longrightarrow> p r \<Longrightarrow> row_evolves by_hand sc fresh r (f r)"
  shows "db_evolves by_hand sc fresh d d'"
  by (rule db_evolves_rows) (simp add: assms list_all2_update_where)

lemma list_all2_backward:
  "list_all2 R xs ys \<Longrightarrow> y \<in> set ys \<Longrightarrow> \<exists>x \<in> set xs. R x y"
  by (induction rule: list_all2_induct) auto

lemma list_all2_forward:
  "list_all2 R xs ys \<Longrightarrow> x \<in> set xs \<Longrightarrow> \<exists>y \<in> set ys. R x y"
  by (induction rule: list_all2_induct) auto

definition new_row :: "scope \<Rightarrow> uuid option \<Rightarrow> turn \<Rightarrow> bool" where
  "new_row sc fresh r \<longleftrightarrow> in_scope sc r \<and> row_checks r \<and> t_token r \<in> {None, fresh}"

lemma new_row_evolves: "row_evolves by_hand sc fresh q r \<Longrightarrow> new_row sc fresh q \<Longrightarrow> new_row sc fresh r"
  unfolding row_evolution new_row_def in_scope_def by auto

lemma db_evolvesE:
  assumes "db_evolves by_hand sc fresh d d'"
  obtains rs new where "turns d' = rs @ new"
    and "list_all2 (row_evolves by_hand sc fresh) (turns d) rs"
    and "\<forall>r \<in> set new. new_row sc fresh r"
    and "distinct (map t_id new)" and "t_id ` set new \<inter> t_id ` set (turns d) = {}"
  using assms unfolding db_evolves_def new_row_def by blast

lemma db_evolvesI:
  assumes "turns d' = rs @ new" and "list_all2 (row_evolves by_hand sc fresh) (turns d) rs"
    and "\<forall>r \<in> set new. new_row sc fresh r"
    and "distinct (map t_id new)" and "t_id ` set new \<inter> t_id ` set (turns d) = {}"
  shows "db_evolves by_hand sc fresh d d'"
  unfolding db_evolves_def using assms new_row_def by blast

lemma list_all2_ids:
  "list_all2 (row_evolves by_hand sc fresh) rs qs \<Longrightarrow> t_id ` set qs = t_id ` set rs"
  by (drule list_all2_key) (metis list.set_map)

lemma db_evolves_trans [trans]:
  assumes "db_evolves by_hand sc fresh d e" and "db_evolves by_hand sc fresh e f"
  shows "db_evolves by_hand sc fresh d f"
proof -
  from assms(1) obtain rs new where e: "turns e = rs @ new"
    and rs: "list_all2 (row_evolves by_hand sc fresh) (turns d) rs"
    and new: "\<forall>r \<in> set new. new_row sc fresh r" "distinct (map t_id new)"
      "t_id ` set new \<inter> t_id ` set (turns d) = {}"
    by (rule db_evolvesE)
  from assms(2) obtain ps more where f: "turns f = ps @ more"
    and ps: "list_all2 (row_evolves by_hand sc fresh) (turns e) ps"
    and more: "\<forall>r \<in> set more. new_row sc fresh r" "distinct (map t_id more)"
      "t_id ` set more \<inter> t_id ` set (turns e) = {}"
    by (rule db_evolvesE)
  from ps e obtain qs news where split: "ps = qs @ news"
    and qs: "list_all2 (row_evolves by_hand sc fresh) rs qs"
    and news: "list_all2 (row_evolves by_hand sc fresh) new news"
    by (auto simp: list_all2_append1)
  have ids: "t_id ` set news = t_id ` set new" "map t_id news = map t_id new"
    "t_id ` set (turns e) = t_id ` set (turns d) \<union> t_id ` set new"
    using list_all2_ids [OF news] list_all2_key [OF news] list_all2_ids [OF rs] e by auto
  have old: "list_all2 (row_evolves by_hand sc fresh) (turns d) qs"
    using rs qs by (rule list_all2_trans [rotated]) (rule row_evolves_trans)
  have "\<forall>r \<in> set news. new_row sc fresh r"
    using new(1) list_all2_backward [OF news] new_row_evolves by blast
  with more(1) have added: "\<forall>r \<in> set (news @ more). new_row sc fresh r" by auto
  have keys: "distinct (map t_id (news @ more))"
    using ids new(2) more(2,3) by auto
  have apart: "t_id ` set (news @ more) \<inter> t_id ` set (turns d) = {}"
  proof -
    have "t_id ` set news \<inter> t_id ` set (turns d) = {}" unfolding ids(1) by (rule new(3))
    moreover have "t_id ` set more \<inter> t_id ` set (turns d) = {}"
      using more(3) unfolding ids(3) by blast
    ultimately show ?thesis by (simp add: image_Un Int_Un_distrib2)
  qed
  show ?thesis
    by (rule db_evolvesI [OF _ old added keys apart]) (simp add: f split)
qed

section \<open>The invariant of the table\<close>

definition store_ok :: "db \<Rightarrow> bool" where
  "store_ok d \<longleftrightarrow>
     distinct (map t_id (turns d)) \<and> (\<forall>r \<in> set (turns d). row_checks r)
     \<and> agent_turns_stream_active_uq (turns d)"

lemma store_ok_ids: "store_ok d \<Longrightarrow> distinct (map t_id (turns d))"
  by (simp add: store_ok_def)

lemma store_ok_checks: "store_ok d \<Longrightarrow> r \<in> set (turns d) \<Longrightarrow> row_checks r"
  by (simp add: store_ok_def)

lemma store_ok_uq: "store_ok d \<Longrightarrow> agent_turns_stream_active_uq (turns d)"
  by (simp add: store_ok_def)

lemma db_evolves_ids:
  assumes "db_evolves by_hand sc fresh d d'" and "distinct (map t_id (turns d))"
  shows "distinct (map t_id (turns d'))"
  using assms(1)
proof (rule db_evolvesE)
  fix rs new
  assume "turns d' = rs @ new" and rs: "list_all2 (row_evolves by_hand sc fresh) (turns d) rs"
    and "distinct (map t_id new)" and "t_id ` set new \<inter> t_id ` set (turns d) = {}"
  with assms(2) list_all2_key [OF rs] list_all2_ids [OF rs] show ?thesis by auto
qed

lemma db_evolves_checks:
  assumes "db_evolves by_hand sc fresh d d'" and "\<forall>r \<in> set (turns d). row_checks r"
  shows "\<forall>r \<in> set (turns d'). row_checks r"
  using assms(1)
proof (rule db_evolvesE)
  fix rs new
  assume d': "turns d' = rs @ new" and rs: "list_all2 (row_evolves by_hand sc fresh) (turns d) rs"
    and new: "\<forall>r \<in> set new. new_row sc fresh r"
  have "\<forall>r \<in> set rs. row_checks r"
    using assms(2) list_all2_backward [OF rs] row_evolves_checks by blast
  with d' new show ?thesis by (auto simp: new_row_def)
qed

text \<open>A row that was there is still there, evolved; a row of the new table evolved or is new.\<close>

lemma db_evolves_forward:
  assumes "db_evolves by_hand sc fresh d d'" and "r \<in> set (turns d)"
  obtains r' where "r' \<in> set (turns d')" and "row_evolves by_hand sc fresh r r'"
  using assms(1)
proof (rule db_evolvesE)
  fix rs new
  assume d': "turns d' = rs @ new" and rs: "list_all2 (row_evolves by_hand sc fresh) (turns d) rs"
  from list_all2_forward [OF rs assms(2)] d' that show ?thesis by auto
qed

lemma db_evolves_backward:
  assumes "db_evolves by_hand sc fresh d d'" and "r' \<in> set (turns d')"
  obtains (old) r where "r \<in> set (turns d)" and "row_evolves by_hand sc fresh r r'"
    | (added) "new_row sc fresh r'"
  using assms(1)
proof (rule db_evolvesE)
  fix rs new
  assume d': "turns d' = rs @ new" and rs: "list_all2 (row_evolves by_hand sc fresh) (turns d) rs"
    and new: "\<forall>r \<in> set new. new_row sc fresh r"
  show ?thesis
  proof (cases "r' \<in> set rs")
    case True
    with list_all2_backward [OF rs] old show ?thesis by blast
  next
    case False
    with assms(2) d' new added show ?thesis by auto
  qed
qed

lemma filter_foreign:
  "list_all2 (row_evolves by_hand sc fresh) rs qs \<Longrightarrow>
     filter (\<lambda>r. \<not> in_scope sc r) qs = filter (\<lambda>r. \<not> in_scope sc r) rs"
  by (induction rule: list_all2_induct) (auto simp: row_evolution in_scope_def)

lemma db_evolves_isolated:
  assumes "db_evolves by_hand sc fresh d d'"
  shows "filter (\<lambda>r. \<not> in_scope sc r) (turns d') = filter (\<lambda>r. \<not> in_scope sc r) (turns d)"
  using assms
proof (rule db_evolvesE)
  fix rs new
  assume "turns d' = rs @ new" and "list_all2 (row_evolves by_hand sc fresh) (turns d) rs"
    and "\<forall>r \<in> set new. new_row sc fresh r"
  then show ?thesis by (simp add: filter_foreign new_row_def)
qed

section \<open>The other tables\<close>

text \<open>What the other tables hold of other scopes.\<close>

definition foreign_tables ::
    "scope \<Rightarrow> db \<Rightarrow> stream_sequence list \<times> stream_block list \<times> turn_input list \<times> message list
       \<times> conversation_control list" where
  "foreign_tables sc d =
     (filter (\<lambda>s. (s_tenant s, s_agent s) \<noteq> sc) (sequences d),
      filter (\<lambda>b. (b_tenant b, b_agent b) \<noteq> sc) (blocks d),
      filter (\<lambda>i. (i_tenant i, i_agent i) \<noteq> sc) (inputs d),
      filter (\<lambda>m. (m_tenant m, m_agent m) \<noteq> sc) (messages d),
      filter (\<lambda>c. (c_tenant c, c_agent c) \<noteq> sc) (controls d))"

lemma foreign_tables_turns [simp]: "foreign_tables sc (d\<lparr>turns := ts\<rparr>) = foreign_tables sc d"
  by (simp add: foreign_tables_def)

section \<open>Keeping the exclusion by stream\<close>

text \<open>An update that makes no row occupy its stream keeps the unique index.\<close>

definition vacates :: "turn \<Rightarrow> turn \<Rightarrow> bool" where
  "vacates r r' \<longleftrightarrow> stream_slot r' = stream_slot r \<and> (occupies r' \<longrightarrow> occupies r)"

lemma vacates_refl [simp]: "vacates r r"
  by (simp add: vacates_def)

lemma occupied_slots_vacate:
  "list_all2 vacates rs qs \<Longrightarrow>
     set (map stream_slot (filter occupies qs)) \<subseteq> set (map stream_slot (filter occupies rs))"
  by (induction rule: list_all2_induct) (auto simp: vacates_def)

lemma uq_vacate:
  "list_all2 vacates rs qs \<Longrightarrow> agent_turns_stream_active_uq rs \<Longrightarrow> agent_turns_stream_active_uq qs"
proof (induction rule: list_all2_induct)
  case Nil
  then show ?case by simp
next
  case (Cons r rs q qs)
  have "agent_turns_stream_active_uq qs"
    using Cons by (auto simp: agent_turns_stream_active_uq_def split: if_splits)
  moreover have "stream_slot q \<notin> set (map stream_slot (filter occupies qs))" if "occupies q"
    using that Cons.hyps Cons.prems occupied_slots_vacate [OF Cons.hyps(2)]
    by (auto simp: agent_turns_stream_active_uq_def vacates_def)
  ultimately show ?case by (simp add: agent_turns_stream_active_uq_def)
qed

lemma uq_update:
  assumes "agent_turns_stream_active_uq ts"
    and "\<And>r. r \<in> set ts \<Longrightarrow> p r \<Longrightarrow> vacates r (f r)"
  shows "agent_turns_stream_active_uq (update_where p f ts)"
  using assms(1) by (rule uq_vacate [rotated]) (simp add: assms(2) list_all2_update_where)

lemma uq_append:
  assumes "agent_turns_stream_active_uq ts" and "\<not> occupies r"
  shows "agent_turns_stream_active_uq (ts @ [r])"
  using assms by (simp add: agent_turns_stream_active_uq_def)

text \<open>The unique index, read as a statement about two rows; what it takes for an update to break it.\<close>

lemma uq_iff:
  assumes "distinct (map t_id ts)"
  shows "agent_turns_stream_active_uq ts \<longleftrightarrow>
     (\<forall>q \<in> set ts. \<forall>r \<in> set ts. occupies q \<and> occupies r \<and> stream_slot q = stream_slot r \<longrightarrow> q = r)"
proof -
  have "distinct (filter occupies ts)" using assms by (simp add: distinct_map)
  then show ?thesis
    by (auto simp: agent_turns_stream_active_uq_def distinct_map inj_on_def)
qed

lemma uq_update_fails:
  assumes ids: "distinct (map t_id ts)" and uq: "agent_turns_stream_active_uq ts"
    and one: "\<And>q. q \<in> set ts \<Longrightarrow> p q \<longleftrightarrow> q = r" and same: "t_id (f r) = t_id r"
    and fails: "\<not> agent_turns_stream_active_uq (update_where p f ts)"
  shows "occupies (f r) \<and> (\<exists>q \<in> set ts. q \<noteq> r \<and> occupies q \<and> stream_slot q = stream_slot (f r))"
proof -
  have "map t_id (update_where p f ts) = map t_id ts"
    using one same by (intro map_update_where_same) auto
  with ids have "distinct (map t_id (update_where p f ts))" by simp
  from fails [unfolded uq_iff [OF this]] obtain a b
    where ab: "a \<in> set (update_where p f ts)" "b \<in> set (update_where p f ts)" "occupies a"
      "occupies b" "stream_slot a = stream_slot b" "a \<noteq> b" by blast
  have old: "x = f r \<or> x \<in> set ts \<and> x \<noteq> r" if "x \<in> set (update_where p f ts)" for x
    using that one by (auto elim!: update_where_memE)
  have pair: "x = y" if "x \<in> set ts" "y \<in> set ts" "occupies x" "occupies y"
      "stream_slot x = stream_slot y" for x y
    using that uq [unfolded uq_iff [OF ids]] by blast
  from old [OF ab(1)] old [OF ab(2)] ab(3-6) pair show ?thesis by metis
qed

section \<open>The contract of an operation\<close>

text \<open>
  \<open>by_hand\<close> says whether the operation is the manual replay, the only one that may take a turn out
  of a terminal state; \<open>fresh\<close> is the token it may write, if it issues one.
\<close>

locale turn_operation =
  fixes by_hand :: bool
    and sc :: scope
    and fresh :: "uuid option"
    and run :: "db \<Rightarrow> db"
  assumes evolves: "distinct (map t_id (turns d)) \<Longrightarrow> db_evolves by_hand sc fresh d (run d)"
    and exclusive: "agent_turns_stream_active_uq (turns d) \<Longrightarrow>
          agent_turns_stream_active_uq (turns (run d))"
    and confined: "foreign_tables sc (run d) = foreign_tables sc d"
begin

lemma preserves: "store_ok d \<Longrightarrow> store_ok (run d)"
  using evolves [of d] exclusive [of d] db_evolves_ids db_evolves_checks
  unfolding store_ok_def by blast

lemma isolated:
  "store_ok d \<Longrightarrow>
     filter (\<lambda>r. \<not> in_scope sc r) (turns (run d)) = filter (\<lambda>r. \<not> in_scope sc r) (turns d)"
  using evolves db_evolves_isolated store_ok_ids by blast

lemma keeps_row:
  assumes "store_ok d" and "r \<in> set (turns d)"
  obtains r' where "r' \<in> set (turns (run d))" and "row_evolves by_hand sc fresh r r'"
  using evolves [OF store_ok_ids [OF assms(1)]] assms(2) by (rule db_evolves_forward)

lemma evolves_row:
  assumes "store_ok d" and "r \<in> set (turns d)" and "r' \<in> set (turns (run d))" and "t_id r' = t_id r"
  shows "row_evolves by_hand sc fresh r r'"
proof -
  from keeps_row [OF assms(1,2)] obtain q where q: "q \<in> set (turns (run d))"
    and e: "row_evolves by_hand sc fresh r q" .
  from preserves [OF assms(1)] have "distinct (map t_id (turns (run d)))" by (rule store_ok_ids)
  moreover have "t_id q = t_id r" using e by (rule row_evolves_key(1))
  ultimately have "r' = q" using assms(3,4) q by (metis distinct_map_eqD)
  with e show ?thesis by simp
qed

lemma token_provenance:
  assumes "store_ok d" and "r' \<in> set (turns (run d))" and "t_token r' = Some tok"
    and "fresh \<noteq> Some tok"
  shows "\<exists>r \<in> set (turns d). t_id r = t_id r' \<and> t_token r = Some tok"
  using evolves [OF store_ok_ids [OF assms(1)]] assms(2)
proof (cases rule: db_evolves_backward)
  case (old r)
  with assms(3,4) show ?thesis by (intro bexI [of _ r]) (auto simp: row_evolution)
next
  case added
  with assms(3,4) show ?thesis by (auto simp: new_row_def)
qed

end

text \<open>An operation other than the manual replay leaves every terminal turn as it ended.\<close>

locale automatic_operation = turn_operation False sc fresh run
  for sc :: scope and fresh :: "uuid option" and run :: "db \<Rightarrow> db"
begin

lemma terminal_stays:
  assumes "store_ok d" and "r \<in> set (turns d)" and "isTerminalTurnStatus (t_status r)"
    and "r' \<in> set (turns (run d))" and "t_id r' = t_id r"
  shows "t_status r' = t_status r \<and> t_outcome r' = t_outcome r \<and> t_version r' = t_version r"
  using evolves_row [OF assms(1,2,4,5)] assms(3) by (auto simp: row_evolution)

end

text \<open>The database after an operation that may raise: an exception undoes everything.\<close>

definition committed :: "'e + 'a \<times> db \<Rightarrow> db \<Rightarrow> db" where
  "committed res d = (case res of Inl _ \<Rightarrow> d | Inr (_, d') \<Rightarrow> d')"

lemma committed_simps [simp]:
  "committed (Inl e) d = d" "committed (Inr (x, d')) d = d'"
  by (simp_all add: committed_def)

lemma committed_Inr: "committed (Inr res) d = snd res"
  by (cases res) simp

end
