(* ===== verification/Turn_Samples.thy ===== *)
theory Turn_Samples
  imports Turn_Evolution
begin

text \<open>
  Concrete rows and a concrete database, on which the witnesses of the properties run: tenant
  ''t'', agent ''a'', one stream ''s'' with a turn being executed, two behind it, one dead.
\<close>

definition demo_scope :: scope where
  "demo_scope = (''t'', ''a'')"

definition demo_turn :: "uuid \<Rightarrow> turn_status \<Rightarrow> turn_outcome option \<Rightarrow> nat \<Rightarrow> turn" where
  "demo_turn tid st oc seq =
     \<lparr>t_id = tid, t_tenant = ''t'', t_agent = ''a'', t_conversa = None, t_channel = None,
      t_message = 100 + tid, t_status = st, t_outcome = oc, t_superseded_by = None, t_version = 3,
      t_attempts = 0, t_next_attempt = None, t_error_code = None, t_error_summary = None,
      t_claimed_by = None, t_token = None, t_lease = None, t_heartbeat = None, t_deadline = None,
      t_outbound = None, t_queued_at = None, t_claimed_at = None, t_started_at = None,
      t_committed_at = None, t_completed_at = None, t_dead_at = None, t_created_at = 0,
      t_updated_at = 0, t_stream = Some ''s'', t_stream_version = Some 1, t_first_seq = Some seq,
      t_last_seq = Some seq, t_promoted_at = None, t_promoted_by = None, t_window_opened = None,
      t_window_deadline = None, t_window_closed = None, t_batch_size = None\<rparr>"

definition demo_held :: "uuid \<Rightarrow> turn_status \<Rightarrow> nat \<Rightarrow> uuid \<Rightarrow> instant \<Rightarrow> turn" where
  "demo_held tid st seq k lease =
     (demo_turn tid st None seq)\<lparr>t_token := Some k, t_lease := Some lease\<rparr>"

definition demo_open :: "uuid \<Rightarrow> nat \<Rightarrow> turn" where
  "demo_open tid seq =
     (demo_turn tid Received None seq)\<lparr>t_window_opened := Some 1, t_window_deadline := Some 20\<rparr>"

definition demo_db :: "turn list \<Rightarrow> db" where
  "demo_db ts = \<lparr>turns = ts, sequences = [\<lparr>s_tenant = ''t'', s_agent = ''a'', s_stream = ''s'',
      s_stream_version = 1, s_last_seq = 9\<rparr>], blocks = [], controls = [],
      inputs = map (\<lambda>t. \<lparr>i_id = 200 + t_id t, i_tenant = t_tenant t, i_agent = t_agent t,
                          i_turn = t_id t, i_message = t_message t, i_seq = 0\<rparr>) ts,
      messages = map (\<lambda>t. \<lparr>m_id = t_message t, m_tenant = t_tenant t, m_agent = t_agent t,
                            m_conversa = None, m_channel = None, m_whatsapp = None,
                            m_tipo = ''texto'', m_processed_at = None, m_stream = t_stream t,
                            m_stream_version = t_stream_version t, m_seq = t_first_seq t\<rparr>) ts\<rparr>"

definition demo_config :: turn_config where
  "demo_config = \<lparr>FEATURE_TURN_HEAD_OF_LINE = True, FEATURE_TURN_STREAM_PROMOTION = True,
     FEATURE_TURN_STREAM_DEBOUNCE = True, FEATURE_MESSAGE_DEBOUNCE = True,
     MESSAGE_DEBOUNCE_MS = 2000, MESSAGE_DEBOUNCE_MAX_MS = 10000\<rparr>"

definition demo_message :: "uuid \<Rightarrow> message" where
  "demo_message mid = \<lparr>m_id = mid, m_tenant = [], m_agent = [], m_conversa = None, m_channel = None,
     m_whatsapp = Some ''w1'', m_tipo = ''texto'', m_processed_at = None, m_stream = None,
     m_stream_version = None, m_seq = None\<rparr>"

named_theorems demo_simps \<open>evaluation of the sample rows\<close>

lemmas [demo_simps] = demo_scope_def demo_turn_def demo_held_def demo_open_def demo_db_def demo_config_def

end
