(* ===== verification/Turn_Transition.thy ===== *)
theory Turn_Transition
  imports Turn_Samples
begin

text \<open>
  The compare-and-swap of the turn repository (\<open>runTransitionOnExecutor\<close> of
  src/db/repositories/turn-repos.ts): one UPDATE guarded by the write conditions, the reading
  that explains a refusal, the legacy projection of a terminal transition, the block a poisoned
  stream gets, and the promotion of the successor, all in one transaction; then the public
  methods built on it. An exception undoes the transaction, so it carries no database.
\<close>

section \<open>Arguments and results\<close>

text \<open>A patch field is \<open>None\<close> where the code leaves it undefined, \<open>Some None\<close> where it writes NULL.\<close>

record turn_patch =
  p_conversa :: "uuid option option"
  p_channel :: "uuid option option"
  p_next_attempt :: "instant option option"
  p_error_code :: "string option option"
  p_error_summary :: "string option option"
  p_outbound :: "uuid option option"
  p_deadline :: "instant option option"
  p_superseded_by :: "uuid option option"
  p_bump :: bool
  p_clear :: bool

definition no_patch :: turn_patch where
  "no_patch = \<lparr>p_conversa = None, p_channel = None, p_next_attempt = None, p_error_code = None,
     p_error_summary = None, p_outbound = None, p_deadline = None, p_superseded_by = None,
     p_bump = False, p_clear = False\<rparr>"

record transition_args =
  ra_turn :: uuid
  ra_to :: turn_status
  ra_outcome :: "turn_outcome option"
  ra_sources :: "turn_status list"
  ra_version :: "nat option"
  ra_token :: "uuid option"
  ra_absorber :: "(uuid \<times> uuid) option"
  ra_patch :: turn_patch
  ra_block :: "(string \<times> string) option"      \<comment> \<open>category and reason\<close>
  ra_guard :: bool                             \<comment> \<open>\<open>guard_committed_order\<close>\<close>

record stream_promotion =
  sp_turn :: uuid
  sp_message :: uuid
  sp_conversa :: "uuid option"
  sp_before :: turn_status
  sp_after :: turn_status

record stream_block_record =
  sb_block :: uuid
  sb_category :: string
  sb_reason :: string
  sb_turn :: uuid
  sb_conversa :: "uuid option"
  sb_error_code :: "string option"

datatype turn_conflict =
    Not_Found
  | Order_Committed nat
  | State_Mismatch turn_status nat
  | Stale_Claim turn_status nat
  | Stream_Busy

record transition_ok =
  ok_turn :: turn
  ok_from :: "turn_status option"              \<comment> \<open>\<open>None\<close> is the label \<open>any\<close>\<close>
  ok_to :: turn_status
  ok_promotion :: "stream_promotion option"
  ok_block :: "stream_block_record option"

type_synonym transition_result = "turn_conflict + transition_ok"

datatype turn_exception =
    Invalid_Transition invalid_transition
  | Two_Authorities
  | Stream_Unique_Violation
  | Check_Violation
  | Conflict_Raised turn_conflict

section \<open>The UPDATE of a transition\<close>

fun keep_or :: "'a option \<Rightarrow> 'a \<Rightarrow> 'a" where
  "keep_or None old = old"
| "keep_or (Some v) old = v"

text \<open>\<open>STATE_TIMESTAMP\<close>: the column stamped on entering a state.\<close>

fun stamp_state :: "instant \<Rightarrow> turn_status \<Rightarrow> turn \<Rightarrow> turn" where
  "stamp_state now Queued r = r\<lparr>t_queued_at := Some now\<rparr>"
| "stamp_state now Claimed r = r\<lparr>t_claimed_at := Some now\<rparr>"
| "stamp_state now Running r = r\<lparr>t_started_at := Some now\<rparr>"
| "stamp_state now Outbound_Pending r = r\<lparr>t_committed_at := Some now\<rparr>"
| "stamp_state now Completed r = r\<lparr>t_completed_at := Some now\<rparr>"
| "stamp_state now Ignored r = r\<lparr>t_completed_at := Some now\<rparr>"
| "stamp_state now Superseded r = r\<lparr>t_completed_at := Some now\<rparr>"
| "stamp_state now Dead_Letter r = r\<lparr>t_dead_at := Some now\<rparr>"
| "stamp_state now _ r = r"

definition apply_patch :: "turn_patch \<Rightarrow> turn \<Rightarrow> turn" where
  "apply_patch p r = r\<lparr>
     t_attempts := (if p_bump p then t_attempts r + 1 else t_attempts r),
     t_conversa := keep_or (p_conversa p) (t_conversa r),
     t_channel := keep_or (p_channel p) (t_channel r),
     t_next_attempt := keep_or (p_next_attempt p) (t_next_attempt r),
     t_error_code := keep_or (p_error_code p) (t_error_code r),
     t_error_summary := keep_or (p_error_summary p) (t_error_summary r),
     t_outbound := keep_or (p_outbound p) (t_outbound r),
     t_deadline := keep_or (p_deadline p) (t_deadline r),
     t_superseded_by := keep_or (p_superseded_by p) (t_superseded_by r),
     t_token := (if p_clear p then None else t_token r),
     t_lease := (if p_clear p then None else t_lease r)\<rparr>"

definition transition_row :: "instant \<Rightarrow> transition_args \<Rightarrow> turn \<Rightarrow> turn" where
  "transition_row now a r =
     apply_patch (ra_patch a)
       (stamp_state now (ra_to a)
         (r\<lparr>t_status := ra_to a, t_outcome := ra_outcome a, t_version := t_version r + 1,
            t_updated_at := now\<rparr>))"

definition transition_cond ::
    "db \<Rightarrow> instant \<Rightarrow> scope \<Rightarrow> transition_args \<Rightarrow> turn_fence \<Rightarrow> turn \<Rightarrow> bool" where
  "transition_cond d now sc a fence r =
     (turnWriteConditions d now sc (ra_turn a) (ra_sources a) (ra_version a) fence r
      \<and> (ra_guard a \<longrightarrow> committedOrderNotBroken d sc r))"

text \<open>No row was updated: the reading of the row, in the same transaction, says why.\<close>

definition explain_conflict :: "db \<Rightarrow> instant \<Rightarrow> scope \<Rightarrow> transition_args \<Rightarrow> turn_conflict" where
  "explain_conflict d now sc a =
     (case findById d sc (ra_turn a) of
        None \<Rightarrow> Not_Found
      | Some row \<Rightarrow>
          (let committed_after = (if ra_guard a then committedOrderAfterCount d sc row else 0);
               self_broken = (case ra_token a of None \<Rightarrow> False
                  | Some tok \<Rightarrow> t_token row \<noteq> Some tok \<or> \<not> lease_live now row);
               absorber_broken = (case ra_absorber a of None \<Rightarrow> False
                  | Some (ab, tok) \<Rightarrow> \<not> absorberFenceCondition d now sc ab tok)
           in if committed_after > 0 then Order_Committed committed_after
              else if self_broken \<or> absorber_broken
              then Stale_Claim (t_status row) (t_version row)
              else State_Mismatch (t_status row) (t_version row)))"

section \<open>What a terminal transition does besides\<close>

text \<open>The projection \<open>mensagens.processada_em\<close> of the messages of the turn.\<close>

definition input_of_turn :: "scope \<Rightarrow> uuid \<Rightarrow> turn_input \<Rightarrow> bool" where
  "input_of_turn sc tid i = (i_tenant i = fst sc \<and> i_agent i = snd sc \<and> i_turn i = tid)"

definition project_processed :: "instant \<Rightarrow> scope \<Rightarrow> uuid \<Rightarrow> db \<Rightarrow> db" where
  "project_processed now sc tid d =
     d\<lparr>messages := update_where
        (\<lambda>m. m_tenant m = fst sc \<and> m_agent m = snd sc \<and> m_processed_at m = None
           \<and> list_ex (\<lambda>i. input_of_turn sc tid i \<and> i_message i = m_id m) (inputs d))
        (\<lambda>m. m\<lparr>m_processed_at := Some now\<rparr>) (messages d)\<rparr>"

definition blockStreamForPoison ::
    "instant \<Rightarrow> uuid \<Rightarrow> scope \<Rightarrow> turn \<Rightarrow> string \<times> string \<Rightarrow> db \<Rightarrow> stream_block_record option \<times> db" where
  "blockStreamForPoison now block_id sc turn cat_reason d =
     (case t_stream turn of
        None \<Rightarrow> (None, d)
      | Some stream \<Rightarrow>
          if stream = [] \<or> list_ex (\<lambda>b. active_block sc turn b \<or> b_id b = block_id) (blocks d)
          then (None, d)
          else
            (Some \<lparr>sb_block = block_id, sb_category = fst cat_reason, sb_reason = snd cat_reason,
                   sb_turn = t_id turn, sb_conversa = t_conversa turn,
                   sb_error_code = t_error_code turn\<rparr>,
             d\<lparr>blocks := blocks d @
                [\<lparr>b_id = block_id, b_tenant = fst sc, b_agent = snd sc, b_stream = stream,
                  b_reason = snd cat_reason, b_category = fst cat_reason, b_turn = t_id turn,
                  b_error_code = t_error_code turn, b_blocked_at = now,
                  b_unblocked_at = None, b_unblocked_by = None, b_unblock_reason = None\<rparr>]\<rparr>))"

definition promotable :: "db \<Rightarrow> instant \<Rightarrow> scope \<Rightarrow> turn \<Rightarrow> bool" where
  "promotable d now sc u =
     (t_status u \<in> set CLAIMABLE_STATUSES
      \<and> (t_status u \<noteq> Retryable \<or> t_next_attempt u = None
         \<or> le_null (t_next_attempt u) (Some now))
      \<and> streamHeadOfLineNotExists d sc u
      \<and> streamNotPoisoned d sc u
      \<and> streamNotHumanControlled d sc u)"

definition promote_row :: "instant \<Rightarrow> uuid \<Rightarrow> turn \<Rightarrow> turn" where
  "promote_row now predecessor u = u\<lparr>
     t_status := Queued,
     t_queued_at := Some (coalesce (t_queued_at u) now),
     t_promoted_at := Some now,
     t_promoted_by := Some predecessor,
     t_next_attempt := None,
     t_version := t_version u + (if t_status u = Queued then 0 else 1),
     t_updated_at := now\<rparr>"

definition promoteStreamSuccessor ::
    "instant \<Rightarrow> scope \<Rightarrow> uuid \<Rightarrow> db \<Rightarrow> stream_promotion option \<times> db" where
  "promoteStreamSuccessor now sc predecessor d =
     (case streamSuccessorCandidate d sc predecessor of
        None \<Rightarrow> (None, d)
      | Some s \<Rightarrow>
          if promotable d now sc s
          then (Some \<lparr>sp_turn = t_id s, sp_message = t_message s, sp_conversa = t_conversa s,
                      sp_before = t_status s, sp_after = Queued\<rparr>,
                d\<lparr>turns := update_where (is_turn sc (t_id s)) (promote_row now predecessor)
                            (turns d)\<rparr>)
          else (None, d))"

section \<open>The transaction of a transition\<close>

text \<open>
  The effects that follow the UPDATE in the same transaction: the legacy projection and the block,
  then the promotion. The block id is the value \<open>gen_random_uuid()\<close> gives, should a block be
  inserted.
\<close>

definition transition_block ::
    "instant \<Rightarrow> uuid \<Rightarrow> scope \<Rightarrow> transition_args \<Rightarrow> turn \<Rightarrow> db \<Rightarrow> stream_block_record option \<times> db" where
  "transition_block now block_id sc a turn d =
     (if isTerminalTurnStatus (ra_to a)
      then (let d2 = project_processed now sc (ra_turn a) d
            in case ra_block a of
                 Some cr \<Rightarrow> if ra_to a = Dead_Letter
                            then blockStreamForPoison now block_id sc turn cr d2 else (None, d2)
               | None \<Rightarrow> (None, d2))
      else (None, d))"

definition transition_promotion ::
    "turn_config \<Rightarrow> instant \<Rightarrow> scope \<Rightarrow> transition_args \<Rightarrow> db \<Rightarrow> stream_promotion option \<times> db" where
  "transition_promotion cfg now sc a d =
     (if isTerminalTurnStatus (ra_to a) \<and> promotionEnabled cfg
      then promoteStreamSuccessor now sc (ra_turn a) d else (None, d))"

text \<open>\<open>runTransitionOnExecutor\<close>.\<close>

definition runTransitionOnExecutor ::
    "turn_config \<Rightarrow> instant \<Rightarrow> uuid \<Rightarrow> scope \<Rightarrow> transition_args \<Rightarrow> turn_fence \<Rightarrow> db
       \<Rightarrow> turn_exception + transition_result \<times> db" where
  "runTransitionOnExecutor cfg now block_id sc a fence d =
     (case List.find (transition_cond d now sc a fence) (turns d) of
        None \<Rightarrow> Inr (Inl (explain_conflict d now sc a), d)
      | Some r \<Rightarrow>
          (let turn = transition_row now a r;
               d1 = d\<lparr>turns := update_where (transition_cond d now sc a fence)
                                 (transition_row now a) (turns d)\<rparr>
           in if \<not> row_checks turn then Inl Check_Violation
              else if \<not> agent_turns_stream_active_uq (turns d1) then Inl Stream_Unique_Violation
              else
                (case transition_block now block_id sc a turn d1 of
                   (blk, d3) \<Rightarrow>
                     (case transition_promotion cfg now sc a d3 of
                        (promo, d4) \<Rightarrow>
                          Inr (Inr \<lparr>ok_turn = turn,
                                    ok_from = (case ra_sources a of [s] \<Rightarrow> Some s | _ \<Rightarrow> None),
                                    ok_to = ra_to a, ok_promotion = promo, ok_block = blk\<rparr>, d4)))))"

text \<open>\<open>runTransition\<close>: chooses the fence, and turns the stream's unique violation into a conflict.\<close>

definition transition_fence :: "transition_args \<Rightarrow> turn_fence" where
  "transition_fence a =
     (case ra_absorber a of
        Some (ab, tok) \<Rightarrow> Fence_Absorber ab tok
      | None \<Rightarrow> (case ra_token a of Some tok \<Rightarrow> Fence_Self tok | None \<Rightarrow> Fence_None))"

definition runTransition ::
    "turn_config \<Rightarrow> instant \<Rightarrow> uuid \<Rightarrow> scope \<Rightarrow> transition_args \<Rightarrow> db
       \<Rightarrow> turn_exception + transition_result \<times> db" where
  "runTransition cfg now block_id sc a d =
     (case runTransitionOnExecutor cfg now block_id sc a (transition_fence a) d of
        Inl Stream_Unique_Violation \<Rightarrow> Inr (Inl Stream_Busy, d)
      | Inl e \<Rightarrow> Inl e
      | Inr res \<Rightarrow> Inr res)"

section \<open>Columns a transition writes\<close>

lemma stamp_state_simps [simp]:
  "t_id (stamp_state now s r) = t_id r" "t_tenant (stamp_state now s r) = t_tenant r"
  "t_agent (stamp_state now s r) = t_agent r" "t_message (stamp_state now s r) = t_message r"
  "t_status (stamp_state now s r) = t_status r" "t_outcome (stamp_state now s r) = t_outcome r"
  "t_version (stamp_state now s r) = t_version r" "t_token (stamp_state now s r) = t_token r"
  "t_lease (stamp_state now s r) = t_lease r" "t_stream (stamp_state now s r) = t_stream r"
  "t_attempts (stamp_state now s r) = t_attempts r"
  "t_first_seq (stamp_state now s r) = t_first_seq r"
  "t_superseded_by (stamp_state now s r) = t_superseded_by r"
  by (cases s; simp)+

lemma apply_patch_simps [simp]:
  "t_id (apply_patch p r) = t_id r" "t_tenant (apply_patch p r) = t_tenant r"
  "t_agent (apply_patch p r) = t_agent r" "t_message (apply_patch p r) = t_message r"
  "t_status (apply_patch p r) = t_status r" "t_outcome (apply_patch p r) = t_outcome r"
  "t_version (apply_patch p r) = t_version r" "t_stream (apply_patch p r) = t_stream r"
  "t_first_seq (apply_patch p r) = t_first_seq r"
  "t_token (apply_patch p r) = (if p_clear p then None else t_token r)"
  "t_lease (apply_patch p r) = (if p_clear p then None else t_lease r)"
  "t_superseded_by (apply_patch p r) = keep_or (p_superseded_by p) (t_superseded_by r)"
  by (simp_all add: apply_patch_def)

lemma transition_row_simps [simp]:
  "t_id (transition_row now a r) = t_id r" "t_tenant (transition_row now a r) = t_tenant r"
  "t_agent (transition_row now a r) = t_agent r"
  "t_message (transition_row now a r) = t_message r"
  "t_status (transition_row now a r) = ra_to a" "t_outcome (transition_row now a r) = ra_outcome a"
  "t_version (transition_row now a r) = t_version r + 1"
  "t_stream (transition_row now a r) = t_stream r"
  "t_first_seq (transition_row now a r) = t_first_seq r"
  "t_token (transition_row now a r) = (if p_clear (ra_patch a) then None else t_token r)"
  "t_lease (transition_row now a r) = (if p_clear (ra_patch a) then None else t_lease r)"
  by (simp_all add: transition_row_def)

lemma promote_row_simps [simp]:
  "t_id (promote_row now p r) = t_id r" "t_tenant (promote_row now p r) = t_tenant r"
  "t_agent (promote_row now p r) = t_agent r" "t_message (promote_row now p r) = t_message r"
  "t_status (promote_row now p r) = Queued" "t_outcome (promote_row now p r) = t_outcome r"
  "t_superseded_by (promote_row now p r) = t_superseded_by r"
  "t_stream (promote_row now p r) = t_stream r"
  "t_first_seq (promote_row now p r) = t_first_seq r"
  "t_token (promote_row now p r) = t_token r" "t_lease (promote_row now p r) = t_lease r"
  "t_version r \<le> t_version (promote_row now p r)"
  "t_version (promote_row now p r) = t_version r \<longleftrightarrow> t_status r = Queued"
  by (simp_all add: promote_row_def)

lemma is_turnD [dest]: "is_turn sc tid r \<Longrightarrow> in_scope sc r \<and> t_id r = tid"
  by (simp add: is_turn_def)

lemma is_turn_cong:
  "t_id q = t_id r \<Longrightarrow> t_tenant q = t_tenant r \<Longrightarrow> t_agent q = t_agent r \<Longrightarrow>
     is_turn sc tid q = is_turn sc tid r"
  by (simp add: is_turn_def in_scope_def)

lemma chk_live: "agent_turns_status_outcome_chk s oc \<Longrightarrow> \<not> isTerminalTurnStatus s \<Longrightarrow> oc = None"
  by (cases s) simp_all

lemma chk_terminal: "agent_turns_status_outcome_chk s oc \<Longrightarrow> isTerminalTurnStatus s \<Longrightarrow> oc \<noteq> None"
  by (cases s) auto

text \<open>A live row has neither an outcome nor an absorber.\<close>

lemma row_checks_live:
  "row_checks r \<Longrightarrow> \<not> isTerminalTurnStatus (t_status r) \<Longrightarrow>
     t_outcome r = None \<and> t_superseded_by r = None"
  by (auto simp: row_checks_def agent_turns_superseded_by_chk_def dest: chk_live)

lemma row_checks_same:
  assumes "row_checks r" and "t_id q = t_id r" and "t_outcome q = t_outcome r"
    and "t_superseded_by q = t_superseded_by r" and "t_status q = t_status r"
  shows "row_checks q"
  using assms by (simp add: row_checks_def agent_turns_superseded_by_chk_def)

lemma row_checks_live_change:
  assumes "row_checks r" and "\<not> isTerminalTurnStatus (t_status r)"
    and "\<not> isTerminalTurnStatus (t_status q)"
    and "t_outcome q = t_outcome r" and "t_superseded_by q = t_superseded_by r"
  shows "row_checks q"
proof -
  from row_checks_live [OF assms(1,2)] assms(4,5) have "t_outcome q = None" "t_superseded_by q = None"
    by auto
  with assms(3) show ?thesis
    by (cases "t_status q") (simp_all add: row_checks_def agent_turns_superseded_by_chk_def)
qed

text \<open>An update of columns outside the contract.\<close>

definition quiet :: "turn \<Rightarrow> turn \<Rightarrow> bool" where
  "quiet r q \<longleftrightarrow>
     t_id q = t_id r \<and> t_tenant q = t_tenant r \<and> t_agent q = t_agent r \<and> t_message q = t_message r
     \<and> t_stream q = t_stream r \<and> t_status q = t_status r \<and> t_outcome q = t_outcome r
     \<and> t_superseded_by q = t_superseded_by r \<and> t_version q = t_version r \<and> t_token q = t_token r"

lemma quiet_evolves: "quiet r q \<Longrightarrow> in_scope sc r \<Longrightarrow> row_evolves by_hand sc fresh r q"
  by (rule row_changesI) (auto simp: quiet_def intro: row_checks_same)

lemma quiet_vacates: "quiet r q \<Longrightarrow> vacates r q"
  by (simp add: quiet_def vacates_def stream_slot_def occupies_def)

lemma quiet_update_evolves:
  assumes "turns d' = update_where p f (turns d)" and "\<And>r. p r \<Longrightarrow> in_scope sc r \<and> quiet r (f r)"
  shows "db_evolves by_hand sc fresh d d'"
  using assms(1) by (rule db_evolves_update) (use assms(2) quiet_evolves in blast)

lemma quiet_update_uq:
  assumes "agent_turns_stream_active_uq ts" and "\<And>r. p r \<Longrightarrow> quiet r (f r)"
  shows "agent_turns_stream_active_uq (update_where p f ts)"
  using assms(1) by (rule uq_update) (use assms(2) quiet_vacates in blast)

section \<open>The promotion keeps the contract of the table\<close>

lemma streamSuccessorCandidateD:
  assumes "streamSuccessorCandidate d sc tid = Some s"
  shows "s \<in> set (turns d)" and "in_scope sc s" and "t_first_seq s \<noteq> None"
    and "\<not> isTerminalTurnStatus (t_status s)"
  using assms
  by (auto simp: streamSuccessorCandidate_def isTerminalTurnStatus_def split: option.splits
      dest!: first_by_in)

lemma claimable_live: "s \<in> set CLAIMABLE_STATUSES \<Longrightarrow> \<not> isTerminalTurnStatus s"
  by (auto simp: status_simps)

lemma is_turn_unique:
  assumes "distinct (map t_id (turns d))" and "s \<in> set (turns d)" and "r \<in> set (turns d)"
    and "is_turn sc (t_id s) r"
  shows "r = s"
  using assms by (auto simp: is_turn_def dest: distinct_map_eqD)

lemma promote_row_evolves:
  assumes "is_turn sc tid r" and "t_status r \<in> set CLAIMABLE_STATUSES"
  shows "row_evolves by_hand sc fresh r (promote_row now p r)"
proof (rule row_changesI)
  show "row_checks r \<Longrightarrow> row_checks (promote_row now p r)"
    using claimable_live [OF assms(2)] by (auto intro: row_checks_live_change)
qed (use assms claimable_live in auto)

lemma promoteStreamSuccessor_cases:
  obtains (none) "promoteStreamSuccessor now sc tid d = (None, d)"
  | (promoted) s where "streamSuccessorCandidate d sc tid = Some s" and "promotable d now sc s"
      and "promoteStreamSuccessor now sc tid d =
        (Some \<lparr>sp_turn = t_id s, sp_message = t_message s, sp_conversa = t_conversa s,
               sp_before = t_status s, sp_after = Queued\<rparr>,
         d\<lparr>turns := update_where (is_turn sc (t_id s)) (promote_row now tid) (turns d)\<rparr>)"
proof (cases "streamSuccessorCandidate d sc tid")
  case None
  then show ?thesis by (intro none) (simp add: promoteStreamSuccessor_def)
next
  case (Some s)
  show ?thesis
  proof (cases "promotable d now sc s")
    case True
    show ?thesis by (rule promoted [OF Some True]) (simp add: promoteStreamSuccessor_def Some True)
  next
    case False
    show ?thesis by (rule none) (simp add: promoteStreamSuccessor_def Some False)
  qed
qed

lemma promoteStreamSuccessor_evolves:
  assumes "distinct (map t_id (turns d))"
  shows "db_evolves by_hand sc fresh d (snd (promoteStreamSuccessor now sc tid d))"
proof (cases rule: promoteStreamSuccessor_cases [of now sc tid d])
  case none
  then show ?thesis by auto
next
  case (promoted s)
  show ?thesis
  proof (rule db_evolves_update)
    fix r assume r: "r \<in> set (turns d)" "is_turn sc (t_id s) r"
    with assms streamSuccessorCandidateD(1) [OF promoted(1)] have "r = s"
      by (blast intro: is_turn_unique)
    with r promoted(2) show "row_evolves by_hand sc fresh r (promote_row now tid r)"
      by (auto simp: promotable_def intro: promote_row_evolves)
  qed (simp add: promoted(3))
qed

lemma promoteStreamSuccessor_uq:
  assumes "agent_turns_stream_active_uq (turns d)"
  shows "agent_turns_stream_active_uq (turns (snd (promoteStreamSuccessor now sc tid d)))"
proof (cases rule: promoteStreamSuccessor_cases [of now sc tid d])
  case none
  with assms show ?thesis by simp
next
  case (promoted s)
  have "agent_turns_stream_active_uq
          (update_where (is_turn sc (t_id s)) (promote_row now tid) (turns d))"
    using assms by (rule uq_update) (simp add: vacates_def stream_slot_def occupies_def status_simps)
  with promoted show ?thesis by simp
qed

section \<open>The transaction keeps the contract of the table\<close>

lemma project_processed_turns [simp]: "turns (project_processed now sc tid d) = turns d"
  by (simp add: project_processed_def)

lemma blockStreamForPoison_turns [simp]:
  "turns (snd (blockStreamForPoison now bid sc r cr d)) = turns d"
  by (simp add: blockStreamForPoison_def split: option.splits)

text \<open>What a committed transition did: the compare-and-swap, then at most the promotion.\<close>

lemma transition_block_turns [simp]:
  "turns (snd (transition_block now bid sc a r d)) = turns d"
  by (simp add: transition_block_def Let_def split: option.splits)

lemma transition_promotion_evolves:
  "distinct (map t_id (turns d)) \<Longrightarrow>
     db_evolves by_hand sc fresh d (snd (transition_promotion cfg now sc a d))"
  by (auto simp: transition_promotion_def promoteStreamSuccessor_evolves)

lemma transition_promotion_uq:
  "agent_turns_stream_active_uq (turns d) \<Longrightarrow>
     agent_turns_stream_active_uq (turns (snd (transition_promotion cfg now sc a d)))"
  by (simp add: transition_promotion_def promoteStreamSuccessor_uq)

text \<open>What a committed transition did: the compare-and-swap, then at most the promotion.\<close>

lemma runTransitionOnExecutor_ok:
  assumes "runTransitionOnExecutor cfg now bid sc a fence d = Inr (Inr ok, d')"
  obtains r d3 where "List.find (transition_cond d now sc a fence) (turns d) = Some r"
    and "ok_turn ok = transition_row now a r" and "ok_to ok = ra_to a"
    and "turns d3 = update_where (transition_cond d now sc a fence) (transition_row now a) (turns d)"
    and "row_checks (transition_row now a r)"
    and "agent_turns_stream_active_uq (turns d3)"
    and "transition_promotion cfg now sc a d3 = (ok_promotion ok, d')"
proof -
  from assms obtain r where r: "List.find (transition_cond d now sc a fence) (turns d) = Some r"
    by (auto simp: runTransitionOnExecutor_def split: option.splits)
  let ?d1 = "d\<lparr>turns := update_where (transition_cond d now sc a fence) (transition_row now a) (turns d)\<rparr>"
  let ?d3 = "snd (transition_block now bid sc a (transition_row now a r) ?d1)"
  have rows: "turns ?d3 = update_where (transition_cond d now sc a fence) (transition_row now a) (turns d)"
    by simp
  from assms r that [of r ?d3, OF r _ _ rows] show ?thesis
    by (simp add: runTransitionOnExecutor_def Let_def split: if_splits prod.splits) auto
qed

lemma runTransitionOnExecutor_conflict:
  assumes "runTransitionOnExecutor cfg now bid sc a fence d = Inr (Inl c, d')"
  shows "d' = d" and "c = explain_conflict d now sc a"
    and "r \<in> set (turns d) \<Longrightarrow> \<not> transition_cond d now sc a fence r"
  using assms
  by (auto simp: runTransitionOnExecutor_def Let_def find_None_iff_all
      split: option.splits if_splits prod.splits)

text \<open>The sources a transition may have: a live state, or a dead letter when it is by hand.\<close>

definition sources_ok :: "bool \<Rightarrow> turn_status list \<Rightarrow> bool" where
  "sources_ok by_hand ss \<longleftrightarrow>
     (\<forall>s \<in> set ss. isTerminalTurnStatus s \<longrightarrow> by_hand \<and> s = Dead_Letter)"

lemma transition_condD:
  assumes "transition_cond d now sc a fence r"
  shows "is_turn sc (ra_turn a) r" and "t_status r \<in> set (ra_sources a)"
    and "fence_ok d now sc fence r" and "\<And>v. ra_version a = Some v \<Longrightarrow> t_version r = v"
    and "ra_guard a \<Longrightarrow> committedOrderNotBroken d sc r"
  using assms by (auto simp: transition_cond_def turnWriteConditions_def)

lemma transition_cond_unique:
  assumes "distinct (map t_id (turns d))"
    and "List.find (transition_cond d now sc a fence) (turns d) = Some r"
    and "q \<in> set (turns d)" and "transition_cond d now sc a fence q"
  shows "q = r"
  using assms find_SomeD [OF assms(2)] transition_condD(1) [of d now sc a fence]
  by (auto simp: is_turn_def dest: distinct_map_eqD)

lemma transition_row_evolves:
  assumes "transition_cond d now sc a fence r" and "row_checks (transition_row now a r)"
    and "sources_ok by_hand (ra_sources a)"
  shows "row_evolves by_hand sc fresh r (transition_row now a r)"
proof (rule row_changesI)
  show "in_scope sc r" using transition_condD(1) [OF assms(1)] by blast
  show "isTerminalTurnStatus (t_status r) \<Longrightarrow>
      t_status (transition_row now a r) = t_status r \<and>
      t_outcome (transition_row now a r) = t_outcome r \<and>
      t_version (transition_row now a r) = t_version r \<or> by_hand \<and> t_status r = Dead_Letter"
    using assms(3) transition_condD(2) [OF assms(1)] by (auto simp: sources_ok_def)
qed (simp_all add: assms(2))

lemma runTransitionOnExecutor_evolves:
  assumes "distinct (map t_id (turns d))" and "sources_ok by_hand (ra_sources a)"
  shows "db_evolves by_hand sc fresh d
           (committed (runTransitionOnExecutor cfg now bid sc a fence d) d)"
proof (cases "runTransitionOnExecutor cfg now bid sc a fence d")
  case (Inl e)
  then show ?thesis by auto
next
  case (Inr res)
  show ?thesis
  proof (cases "fst res")
    case (Inl c)
    with Inr runTransitionOnExecutor_conflict(1) [of cfg now bid sc a fence d c "snd res"]
    show ?thesis by (cases res) auto
  next
    case (Inr ok)
    with \<open>_ = Inr res\<close>
    have "runTransitionOnExecutor cfg now bid sc a fence d = Inr (Inr ok, snd res)"
      by (cases res) simp
    then obtain r d3 where r: "List.find (transition_cond d now sc a fence) (turns d) = Some r"
      and d3: "turns d3 = update_where (transition_cond d now sc a fence) (transition_row now a) (turns d)"
      and chk: "row_checks (transition_row now a r)"
      and p: "transition_promotion cfg now sc a d3 = (ok_promotion ok, snd res)"
      by (rule runTransitionOnExecutor_ok)
    have 1: "db_evolves by_hand sc fresh d d3"
      using d3
    proof (rule db_evolves_update)
      fix q assume "q \<in> set (turns d)" and c: "transition_cond d now sc a fence q"
      with transition_cond_unique [OF assms(1) r] have "q = r" by blast
      with c chk assms(2) show "row_evolves by_hand sc fresh q (transition_row now a q)"
        by (blast intro: transition_row_evolves)
    qed
    have "db_evolves by_hand sc fresh d3 (snd (transition_promotion cfg now sc a d3))"
      using db_evolves_ids [OF 1 assms(1)] by (rule transition_promotion_evolves)
    with 1 p have "db_evolves by_hand sc fresh d (snd res)" by (auto intro: db_evolves_trans)
    with \<open>_ = Inr res\<close> show ?thesis by (simp add: committed_Inr)
  qed
qed

lemma runTransitionOnExecutor_uq:
  assumes "agent_turns_stream_active_uq (turns d)"
  shows "agent_turns_stream_active_uq
           (turns (committed (runTransitionOnExecutor cfg now bid sc a fence d) d))"
proof (cases "runTransitionOnExecutor cfg now bid sc a fence d")
  case (Inl e)
  with assms show ?thesis by simp
next
  case (Inr res)
  obtain x d' where res: "res = (x, d')" by (cases res)
  show ?thesis
  proof (cases x)
    case (Inl c)
    with Inr res runTransitionOnExecutor_conflict(1) [of cfg now bid sc a fence d c d'] assms
    show ?thesis by auto
  next
    case ok: (Inr ok)
    with Inr res have "runTransitionOnExecutor cfg now bid sc a fence d = Inr (Inr ok, d')" by simp
    then show ?thesis
    proof (rule runTransitionOnExecutor_ok)
      fix r d3 assume "agent_turns_stream_active_uq (turns d3)"
        and "transition_promotion cfg now sc a d3 = (ok_promotion ok, d')"
      then show ?thesis using transition_promotion_uq [of d3 cfg now sc a] Inr res by simp
    qed
  qed
qed

lemma committed_runTransition:
  "committed (runTransition cfg now bid sc a d) d =
     committed (runTransitionOnExecutor cfg now bid sc a (transition_fence a) d) d"
  by (auto simp: runTransition_def split: sum.splits turn_exception.splits)

section \<open>The transaction stays within its scope\<close>

lemma project_processed_confined [simp]:
  "foreign_tables sc (project_processed now sc tid d) = foreign_tables sc d"
  by (simp add: foreign_tables_def project_processed_def)
    (rule filter_update_where_same; simp)

lemma blockStreamForPoison_confined [simp]:
  "foreign_tables sc (snd (blockStreamForPoison now bid sc r cr d)) = foreign_tables sc d"
  by (simp add: foreign_tables_def blockStreamForPoison_def split: option.split)

lemma promoteStreamSuccessor_confined [simp]:
  "foreign_tables sc (snd (promoteStreamSuccessor now sc tid d)) = foreign_tables sc d"
  by (simp add: promoteStreamSuccessor_def split: option.split)

lemma transition_block_confined [simp]:
  "foreign_tables sc (snd (transition_block now bid sc a r d)) = foreign_tables sc d"
  by (simp add: transition_block_def Let_def split: option.split)

lemma transition_promotion_confined [simp]:
  "foreign_tables sc (snd (transition_promotion cfg now sc a d)) = foreign_tables sc d"
  by (simp add: transition_promotion_def)

lemma runTransitionOnExecutor_confined:
  "foreign_tables sc (committed (runTransitionOnExecutor cfg now bid sc a fence d) d) =
     foreign_tables sc d"
proof (cases "List.find (transition_cond d now sc a fence) (turns d)")
  case None
  then show ?thesis by (simp add: runTransitionOnExecutor_def)
next
  case (Some r)
  let ?d1 = "d\<lparr>turns := update_where (transition_cond d now sc a fence) (transition_row now a) (turns d)\<rparr>"
  obtain blk d3 where b: "transition_block now bid sc a (transition_row now a r) ?d1 = (blk, d3)"
    by fastforce
  obtain promo d4 where p: "transition_promotion cfg now sc a d3 = (promo, d4)" by fastforce
  have "foreign_tables sc d3 = foreign_tables sc d" "foreign_tables sc d4 = foreign_tables sc d3"
    using transition_block_confined [of sc now bid a "transition_row now a r" ?d1]
      transition_promotion_confined [of sc cfg now a d3] b p by simp_all
  then show ?thesis by (simp add: runTransitionOnExecutor_def Some Let_def b p)
qed

section \<open>Properties of the promotion\<close>

lemma findById_iff:
  assumes "distinct (map t_id (turns d))"
  shows "findById d sc tid = Some r \<longleftrightarrow> r \<in> set (turns d) \<and> is_turn sc tid r"
proof
  assume "findById d sc tid = Some r"
  then show "r \<in> set (turns d) \<and> is_turn sc tid r"
    by (auto simp: findById_def dest: find_SomeD)
next
  assume "r \<in> set (turns d) \<and> is_turn sc tid r"
  with assms show "findById d sc tid = Some r"
    unfolding findById_def by (intro find_by_key [where k = t_id]) (auto simp: is_turn_def)
qed

lemma head_of_line_iff:
  "streamHeadOfLineNotExists d sc s \<longleftrightarrow>
     t_stream s = None \<or> t_first_seq s = None
     \<or> (\<forall>q \<in> set (turns d). \<not> anterioresNaoTerminais sc s q)"
  by (auto simp: streamHeadOfLineNotExists_def list_ex_iff)

text \<open>The election of the successor takes the first live turn of the predecessor's stream.\<close>

lemma streamSuccessorCandidate_iff:
  assumes "distinct (map t_id (turns d))" and "p \<in> set (turns d)" and "is_turn sc tid p"
  shows "streamSuccessorCandidate d sc tid =
     (if t_stream p = None then None
      else first_by (\<lambda>s. the (t_first_seq s))
        (filter (\<lambda>s. in_scope sc s \<and> eq_null (t_stream s) (t_stream p) \<and> t_first_seq s \<noteq> None
                    \<and> t_status s \<notin> set TERMINAL_TURN_STATUSES) (turns d)))"
proof (cases "t_stream p = None")
  case True
  have "\<not> (is_turn sc tid q \<and> t_stream q \<noteq> None)" if "q \<in> set (turns d)" for q
    using that True assms distinct_map_eqD [OF assms(1) that assms(2)] by (auto simp: is_turn_def)
  then have "List.find (\<lambda>q. is_turn sc tid q \<and> t_stream q \<noteq> None) (turns d) = None"
    by (simp add: find_None_iff_all)
  with True show ?thesis by (simp add: streamSuccessorCandidate_def)
next
  case False
  have "List.find (\<lambda>q. is_turn sc tid q \<and> t_stream q \<noteq> None) (turns d) = Some p"
    using assms False by (intro find_by_key [where k = t_id]) (auto simp: is_turn_def)
  then show ?thesis by (simp only: streamSuccessorCandidate_def option.simps False if_False)
qed





end
