(* ===== verification/Turn_Methods.thy ===== *)
theory Turn_Methods
  imports Turn_Transition
begin

text \<open>
  The public methods of the turn repository that go through the compare-and-swap
  (\<open>agentTurnsRepo\<close> of src/db/repositories/turn-repos.ts): \<open>transitionTurn\<close>, which checks the
  triple against the contract before the database is touched, one method per destination, the
  manual replay of a dead letter, and the two transitions that run inside a caller's transaction.
\<close>

section \<open>transitionTurn\<close>

record transition_input =
  ti_turn :: uuid
  ti_to :: turn_status
  ti_outcome :: "turn_outcome option"
  ti_expected :: "turn_status list option"
  ti_version :: "nat option"
  ti_token :: "uuid option"
  ti_absorber :: "(uuid \<times> uuid) option"
  ti_patch :: turn_patch
  ti_manual :: bool
  ti_block :: "(string \<times> string) option"
  ti_guard :: bool

definition transition_input_to :: "uuid \<Rightarrow> turn_status \<Rightarrow> transition_input" where
  "transition_input_to tid to =
     \<lparr>ti_turn = tid, ti_to = to, ti_outcome = None, ti_expected = None, ti_version = None,
      ti_token = None, ti_absorber = None, ti_patch = no_patch, ti_manual = False,
      ti_block = None, ti_guard = False\<rparr>"

text \<open>The loop that asserts every source, stopping at the first that raises.\<close>

fun assert_sources ::
    "turn_status \<Rightarrow> turn_outcome option \<Rightarrow> bool \<Rightarrow> turn_status list \<Rightarrow> invalid_transition + unit" where
  "assert_sources to outcome manual [] = Inr ()"
| "assert_sources to outcome manual (from # rest) =
     (case assertTurnTransition from to outcome manual of
        Inl e \<Rightarrow> Inl e
      | Inr _ \<Rightarrow> assert_sources to outcome manual rest)"

definition transition_sources :: "transition_input \<Rightarrow> turn_status list" where
  "transition_sources i =
     (let allowed = sourceStatusesFor (ti_to i) (ti_manual i)
      in case ti_expected i of
           None \<Rightarrow> allowed
         | Some expected \<Rightarrow> filter (\<lambda>s. s \<in> set allowed) expected)"

definition validate_transition :: "transition_input \<Rightarrow> turn_exception + turn_status list" where
  "validate_transition i =
     (if ti_token i \<noteq> None \<and> ti_absorber i \<noteq> None then Inl Two_Authorities
      else
        (let sources = transition_sources i
         in case assert_sources (ti_to i) (ti_outcome i) (ti_manual i) sources of
              Inl e \<Rightarrow> Inl (Invalid_Transition e)
            | Inr _ \<Rightarrow>
                if sources = []
                then (case assertTurnTransition
                             (case ti_expected i of Some (s # _) \<Rightarrow> s | _ \<Rightarrow> ti_to i)
                             (ti_to i) (ti_outcome i) (ti_manual i) of
                        Inl e \<Rightarrow> Inl (Invalid_Transition e)
                      | Inr _ \<Rightarrow> Inr sources)
                else Inr sources))"

definition transitionTurn ::
    "turn_config \<Rightarrow> instant \<Rightarrow> uuid \<Rightarrow> scope \<Rightarrow> transition_input \<Rightarrow> db
       \<Rightarrow> turn_exception + transition_result \<times> db" where
  "transitionTurn cfg now block_id sc i d =
     (case validate_transition i of
        Inl e \<Rightarrow> Inl e
      | Inr sources \<Rightarrow>
          runTransition cfg now block_id sc
            \<lparr>ra_turn = ti_turn i, ra_to = ti_to i, ra_outcome = ti_outcome i,
             ra_sources = sources, ra_version = ti_version i, ra_token = ti_token i,
             ra_absorber = ti_absorber i, ra_patch = ti_patch i, ra_block = ti_block i,
             ra_guard = ti_guard i\<rparr> d)"

section \<open>One method per destination\<close>

definition markQueued :: "uuid \<Rightarrow> nat option \<Rightarrow> transition_input" where
  "markQueued tid version =
     (transition_input_to tid Queued)
       \<lparr>ti_version := version, ti_patch := no_patch\<lparr>p_next_attempt := Some None\<rparr>\<rparr>"

definition markClaimed :: "uuid \<Rightarrow> nat option \<Rightarrow> transition_input" where
  "markClaimed tid version = (transition_input_to tid Claimed)\<lparr>ti_version := version\<rparr>"

definition markRunning ::
    "uuid \<Rightarrow> uuid option option \<Rightarrow> uuid option option \<Rightarrow> nat option \<Rightarrow> uuid option \<Rightarrow> bool option
       \<Rightarrow> transition_input" where
  "markRunning tid conversa channel version token bump =
     (transition_input_to tid Running)
       \<lparr>ti_version := version, ti_token := token,
        ti_patch := no_patch\<lparr>p_bump := (case bump of None \<Rightarrow> True | Some b \<Rightarrow> b),
                             p_conversa := conversa, p_channel := channel\<rparr>\<rparr>"

definition markOutboundCommittedTx ::
    "uuid \<Rightarrow> uuid \<Rightarrow> nat option \<Rightarrow> uuid option \<Rightarrow> transition_input" where
  "markOutboundCommittedTx tid outbound version token =
     (transition_input_to tid Outbound_Pending)
       \<lparr>ti_expected := Some [Running], ti_version := version, ti_token := token,
        ti_patch := no_patch\<lparr>p_outbound := Some (Some outbound)\<rparr>\<rparr>"

definition completeTurnTx ::
    "uuid \<Rightarrow> turn_outcome \<Rightarrow> nat option \<Rightarrow> uuid option \<Rightarrow> transition_input" where
  "completeTurnTx tid oc version token =
     (transition_input_to tid Completed)
       \<lparr>ti_outcome := Some oc, ti_version := version, ti_token := token,
        ti_patch := no_patch\<lparr>p_next_attempt := Some None, p_clear := True\<rparr>\<rparr>"

definition markIgnored ::
    "uuid \<Rightarrow> turn_outcome \<Rightarrow> nat option \<Rightarrow> uuid option \<Rightarrow> transition_input" where
  "markIgnored tid oc version token =
     (transition_input_to tid Ignored)
       \<lparr>ti_outcome := Some oc, ti_version := version, ti_token := token,
        ti_patch := no_patch\<lparr>p_next_attempt := Some None, p_clear := True\<rparr>\<rparr>"

definition markSupersededSelf :: "uuid \<Rightarrow> nat option \<Rightarrow> uuid option \<Rightarrow> transition_input" where
  "markSupersededSelf tid version token =
     (transition_input_to tid Superseded)
       \<lparr>ti_outcome := Some Merged_Into_Turn, ti_version := version, ti_token := token,
        ti_patch := no_patch\<lparr>p_next_attempt := Some None, p_clear := True\<rparr>\<rparr>"

definition markSupersededByAbsorber ::
    "uuid \<Rightarrow> uuid \<Rightarrow> uuid option \<Rightarrow> nat \<Rightarrow> transition_input" where
  "markSupersededByAbsorber tid absorber absorber_token version =
     (transition_input_to tid Superseded)
       \<lparr>ti_outcome := Some Merged_Into_Turn, ti_version := Some version,
        ti_absorber := map_option (\<lambda>tok. (absorber, tok)) absorber_token,
        ti_patch := no_patch\<lparr>p_next_attempt := Some None, p_clear := True,
                             p_superseded_by := Some (Some absorber)\<rparr>\<rparr>"

definition markRetryable ::
    "uuid \<Rightarrow> instant \<Rightarrow> string \<Rightarrow> string option \<Rightarrow> nat option \<Rightarrow> uuid option \<Rightarrow> transition_input" where
  "markRetryable tid next_attempt code summary version token =
     (transition_input_to tid Retryable)
       \<lparr>ti_version := version, ti_token := token,
        ti_patch := no_patch\<lparr>p_next_attempt := Some (Some next_attempt),
                             p_error_code := Some (Some code),
                             p_error_summary := Some summary, p_clear := True\<rparr>\<rparr>"

definition markDeadLetter ::
    "uuid \<Rightarrow> turn_outcome \<Rightarrow> string \<Rightarrow> string option \<Rightarrow> nat option \<Rightarrow> uuid option
       \<Rightarrow> (string \<times> string) option \<Rightarrow> transition_input" where
  "markDeadLetter tid oc code summary version token block =
     (transition_input_to tid Dead_Letter)
       \<lparr>ti_outcome := Some oc, ti_block := block, ti_version := version, ti_token := token,
        ti_patch := no_patch\<lparr>p_next_attempt := Some None, p_error_code := Some (Some code),
                             p_error_summary := Some summary, p_clear := True\<rparr>\<rparr>"

definition replayDeadLetterTx :: "uuid \<Rightarrow> nat option \<Rightarrow> bool \<Rightarrow> transition_input" where
  "replayDeadLetterTx tid version reconcile =
     (transition_input_to tid Queued)
       \<lparr>ti_expected := Some [Dead_Letter], ti_manual := True, ti_guard := \<not> reconcile,
        ti_version := version,
        ti_patch := no_patch\<lparr>p_bump := True, p_next_attempt := Some None\<rparr>\<rparr>"

section \<open>Transitions inside the caller's transaction\<close>

definition raise_conflict ::
    "turn_exception + transition_result \<times> db \<Rightarrow> turn_exception + transition_ok \<times> db" where
  "raise_conflict res =
     (case res of
        Inl e \<Rightarrow> Inl e
      | Inr (Inl c, _) \<Rightarrow> Inl (Conflict_Raised c)
      | Inr (Inr ok, d) \<Rightarrow> Inr (ok, d))"

definition completeRecoveredOutboundTurnInTx ::
    "turn_config \<Rightarrow> instant \<Rightarrow> uuid \<Rightarrow> scope \<Rightarrow> uuid \<Rightarrow> nat \<Rightarrow> turn_outcome \<Rightarrow> db
       \<Rightarrow> turn_exception + transition_ok \<times> db" where
  "completeRecoveredOutboundTurnInTx cfg now block_id sc tid version oc d =
     (case assertTurnTransition Outbound_Pending Completed (Some oc) False of
        Inl e \<Rightarrow> Inl (Invalid_Transition e)
      | Inr _ \<Rightarrow>
          raise_conflict
            (runTransitionOnExecutor cfg now block_id sc
              \<lparr>ra_turn = tid, ra_to = Completed, ra_outcome = Some oc,
               ra_sources = [Outbound_Pending], ra_version = Some version, ra_token = None,
               ra_absorber = None,
               ra_patch = no_patch\<lparr>p_next_attempt := Some None, p_clear := True\<rparr>,
               ra_block = None, ra_guard = False\<rparr> Fence_Recovery_Expired d))"

definition cancelHeldBacklogTurnInTx ::
    "turn_config \<Rightarrow> instant \<Rightarrow> uuid \<Rightarrow> scope \<Rightarrow> uuid \<Rightarrow> nat \<Rightarrow> db
       \<Rightarrow> turn_exception + transition_ok \<times> db" where
  "cancelHeldBacklogTurnInTx cfg now block_id sc tid version d =
     (case assert_sources Ignored (Some Operator_Cancelled) True ESTADOS_DESCARTAVEIS_DO_BACKLOG of
        Inl e \<Rightarrow> Inl (Invalid_Transition e)
      | Inr _ \<Rightarrow>
          raise_conflict
            (runTransitionOnExecutor cfg now block_id sc
              \<lparr>ra_turn = tid, ra_to = Ignored, ra_outcome = Some Operator_Cancelled,
               ra_sources = ESTADOS_DESCARTAVEIS_DO_BACKLOG, ra_version = Some version,
               ra_token = None, ra_absorber = None,
               ra_patch = no_patch\<lparr>p_next_attempt := Some None, p_clear := True\<rparr>,
               ra_block = None, ra_guard = False\<rparr> Fence_None d))"

section \<open>What a validated transition is\<close>

lemma assert_sources_Inr:
  "assert_sources to oc manual ss = Inr u \<longleftrightarrow>
     (\<forall>s \<in> set ss. checkTurnTransition s to oc manual = Allowed)"
proof (induction ss)
  case Nil
  then show ?case by simp
next
  case (Cons s ss)
  then show ?case by (auto simp: assertTurnTransition_def split: transition_check.splits)
qed

lemma transition_sources_sub: "set (transition_sources i) \<subseteq> set (sourceStatusesFor (ti_to i) (ti_manual i))"
  by (auto simp: transition_sources_def Let_def split: option.splits)

lemma no_self_transition: "s \<notin> set (sourceStatusesFor s manual)"
  by (cases s) (simp_all add: mem_sourceStatusesFor)

lemma no_sources_refused:
  assumes "transition_sources i = []"
  shows "checkTurnTransition (case ti_expected i of Some (s # _) \<Rightarrow> s | _ \<Rightarrow> ti_to i)
           (ti_to i) (ti_outcome i) (ti_manual i) \<noteq> Allowed"
  using assms
  by (auto simp: check_Allowed_iff transition_sources_def Let_def no_self_transition
      split: option.splits list.splits if_splits)

lemma validate_transition_Inr:
  assumes "validate_transition i = Inr ss"
  shows "ss = transition_sources i" and "ss \<noteq> []"
    and "\<And>s. s \<in> set ss \<Longrightarrow> checkTurnTransition s (ti_to i) (ti_outcome i) (ti_manual i) = Allowed"
    and "ti_token i = None \<or> ti_absorber i = None"
proof -
  have *: "ss = transition_sources i \<and> ss \<noteq> []
      \<and> (\<forall>s \<in> set ss. checkTurnTransition s (ti_to i) (ti_outcome i) (ti_manual i) = Allowed)
      \<and> (ti_token i = None \<or> ti_absorber i = None)"
  proof (cases "transition_sources i = []")
    case True
    from no_sources_refused [OF this] assms True show ?thesis
      by (auto simp: validate_transition_def Let_def assertTurnTransition_def
          split: if_splits transition_check.splits)
  next
    case False
    with assms show ?thesis
      by (auto simp: validate_transition_def Let_def
          dest: assert_sources_Inr [THEN iffD1, rule_format] split: if_splits sum.splits)
  qed
  then show "ss = transition_sources i" and "ss \<noteq> []"
    and "\<And>s. s \<in> set ss \<Longrightarrow> checkTurnTransition s (ti_to i) (ti_outcome i) (ti_manual i) = Allowed"
    and "ti_token i = None \<or> ti_absorber i = None" by (blast, blast, blast, simp)
qed

text \<open>A transition leaves a terminal state only by hand, and then it leaves the dead letter.\<close>

lemma terminal_source_manual:
  "s \<in> set (sourceStatusesFor to manual) \<Longrightarrow> isTerminalTurnStatus s \<Longrightarrow> manual \<and> s = Dead_Letter"
  by (cases s) (simp_all add: mem_sourceStatusesFor)

lemma transition_sources_ok: "sources_ok (ti_manual i) (transition_sources i)"
  using transition_sources_sub terminal_source_manual unfolding sources_ok_def by blast

definition transition_args_of :: "transition_input \<Rightarrow> transition_args" where
  "transition_args_of i =
     \<lparr>ra_turn = ti_turn i, ra_to = ti_to i, ra_outcome = ti_outcome i,
      ra_sources = transition_sources i, ra_version = ti_version i, ra_token = ti_token i,
      ra_absorber = ti_absorber i, ra_patch = ti_patch i, ra_block = ti_block i,
      ra_guard = ti_guard i\<rparr>"

lemma transition_args_of_simps [simp]:
  "ra_turn (transition_args_of i) = ti_turn i" "ra_to (transition_args_of i) = ti_to i"
  "ra_outcome (transition_args_of i) = ti_outcome i"
  "ra_sources (transition_args_of i) = transition_sources i"
  "ra_version (transition_args_of i) = ti_version i" "ra_token (transition_args_of i) = ti_token i"
  "ra_absorber (transition_args_of i) = ti_absorber i" "ra_patch (transition_args_of i) = ti_patch i"
  "ra_block (transition_args_of i) = ti_block i" "ra_guard (transition_args_of i) = ti_guard i"
  by (simp_all add: transition_args_of_def)

lemma transitionTurn_unfold:
  "transitionTurn cfg now bid sc i d =
     (case validate_transition i of
        Inl e \<Rightarrow> Inl e
      | Inr _ \<Rightarrow> runTransition cfg now bid sc (transition_args_of i) d)"
  by (auto simp: transitionTurn_def transition_args_of_def
      dest!: validate_transition_Inr(1) [symmetric] split: sum.splits)

lemma committed_transitionTurn:
  "committed (transitionTurn cfg now bid sc i d) d = d
   \<or> committed (transitionTurn cfg now bid sc i d) d =
       committed (runTransitionOnExecutor cfg now bid sc (transition_args_of i)
                    (transition_fence (transition_args_of i)) d) d"
  by (cases "validate_transition i") (simp_all add: transitionTurn_unfold committed_runTransition)

interpretation transition:
  turn_operation "ti_manual i" sc None "\<lambda>d. committed (transitionTurn cfg now bid sc i d) d"
  for i sc cfg now bid
proof
  fix d
  show "distinct (map t_id (turns d)) \<Longrightarrow>
      db_evolves (ti_manual i) sc None d (committed (transitionTurn cfg now bid sc i d) d)"
    using committed_transitionTurn [of cfg now bid sc i d] transition_sources_ok [of i]
    by (metis db_evolves_same runTransitionOnExecutor_evolves transition_args_of_simps(4))
  show "agent_turns_stream_active_uq (turns d) \<Longrightarrow>
      agent_turns_stream_active_uq (turns (committed (transitionTurn cfg now bid sc i d) d))"
    using committed_transitionTurn [of cfg now bid sc i d] by (metis runTransitionOnExecutor_uq)
  show "foreign_tables sc (committed (transitionTurn cfg now bid sc i d) d) = foreign_tables sc d"
    using committed_transitionTurn [of cfg now bid sc i d] by (metis runTransitionOnExecutor_confined)
qed

text \<open>Every method but the replay asks for an automatic transition.\<close>

interpretation automatic:
  automatic_operation sc None
    "\<lambda>d. committed (transitionTurn cfg now bid sc (i\<lparr>ti_manual := False\<rparr>) d) d"
  for i sc cfg now bid
  using transition.turn_operation_axioms [of "i\<lparr>ti_manual := False\<rparr>"] 
  by (simp add: automatic_operation_def)

lemma methods_automatic:
  "\<not> ti_manual (markQueued t v)" "\<not> ti_manual (markClaimed t v)"
  "\<not> ti_manual (markRunning t cv ch v k b)" "\<not> ti_manual (markOutboundCommittedTx t ob v k)"
  "\<not> ti_manual (completeTurnTx t oc v k)" "\<not> ti_manual (markIgnored t oc v k)"
  "\<not> ti_manual (markSupersededSelf t v k)" "\<not> ti_manual (markSupersededByAbsorber t ab abk ver)"
  "\<not> ti_manual (markRetryable t na code sm v k)" "\<not> ti_manual (markDeadLetter t oc code sm v k blk)"
  by (simp_all add: markQueued_def markClaimed_def markRunning_def markOutboundCommittedTx_def
      completeTurnTx_def markIgnored_def markSupersededSelf_def markSupersededByAbsorber_def
      markRetryable_def markDeadLetter_def transition_input_to_def)

text \<open>The two transitions inside a caller's transaction.\<close>

lemma committed_raise_conflict:
  "(\<And>c d'. res = Inr (Inl c, d') \<Longrightarrow> d' = d) \<Longrightarrow> committed (raise_conflict res) d = committed res d"
  by (auto simp: raise_conflict_def split: sum.splits prod.splits)

lemma committed_raise_executor [simp]:
  "committed (raise_conflict (runTransitionOnExecutor cfg now bid sc a fence d)) d =
     committed (runTransitionOnExecutor cfg now bid sc a fence d) d"
  by (rule committed_raise_conflict) (rule runTransitionOnExecutor_conflict(1))

lemma descartaveis_allowed:
  "assert_sources Ignored (Some Operator_Cancelled) True ESTADOS_DESCARTAVEIS_DO_BACKLOG = Inr ()"
  unfolding assert_sources_Inr
  by (simp add: check_Allowed_iff mem_sourceStatusesFor ESTADOS_DESCARTAVEIS_DO_BACKLOG_def)

lemma descartaveis_sources [simp]: "sources_ok by_hand ESTADOS_DESCARTAVEIS_DO_BACKLOG"
  by (simp add: sources_ok_def ESTADOS_DESCARTAVEIS_DO_BACKLOG_def)

interpretation recovered_outbound:
  automatic_operation sc None
    "\<lambda>d. committed (completeRecoveredOutboundTurnInTx cfg now bid sc tid v oc d) d"
  for sc cfg now bid tid v oc
proof
  fix d
  show "distinct (map t_id (turns d)) \<Longrightarrow> db_evolves False sc None d
      (committed (completeRecoveredOutboundTurnInTx cfg now bid sc tid v oc d) d)"
    by (auto simp: completeRecoveredOutboundTurnInTx_def sources_ok_def
        intro!: runTransitionOnExecutor_evolves split: sum.split)
  show "agent_turns_stream_active_uq (turns d) \<Longrightarrow> agent_turns_stream_active_uq
      (turns (committed (completeRecoveredOutboundTurnInTx cfg now bid sc tid v oc d) d))"
    by (auto simp: completeRecoveredOutboundTurnInTx_def
        intro!: runTransitionOnExecutor_uq split: sum.split)
  show "foreign_tables sc (committed (completeRecoveredOutboundTurnInTx cfg now bid sc tid v oc d) d) =
      foreign_tables sc d"
    by (simp add: completeRecoveredOutboundTurnInTx_def runTransitionOnExecutor_confined split: sum.split)
qed

interpretation backlog_cancel:
  automatic_operation sc None
    "\<lambda>d. committed (cancelHeldBacklogTurnInTx cfg now bid sc tid v d) d"
  for sc cfg now bid tid v
proof
  fix d
  show "distinct (map t_id (turns d)) \<Longrightarrow> db_evolves False sc None d
      (committed (cancelHeldBacklogTurnInTx cfg now bid sc tid v d) d)"
    by (auto simp: cancelHeldBacklogTurnInTx_def descartaveis_allowed
        intro!: runTransitionOnExecutor_evolves)
  show "agent_turns_stream_active_uq (turns d) \<Longrightarrow> agent_turns_stream_active_uq
      (turns (committed (cancelHeldBacklogTurnInTx cfg now bid sc tid v d) d))"
    by (auto simp: cancelHeldBacklogTurnInTx_def descartaveis_allowed
        intro!: runTransitionOnExecutor_uq)
  show "foreign_tables sc (committed (cancelHeldBacklogTurnInTx cfg now bid sc tid v d) d) =
      foreign_tables sc d"
    by (simp add: cancelHeldBacklogTurnInTx_def descartaveis_allowed runTransitionOnExecutor_confined split: sum.split)
qed

section \<open>Properties\<close>

text \<open>
  A transition is refused before the database is touched exactly when it carries two
  authorities, when no source is left of its destination's sources after the caller's own
  restriction, or when its outcome does not fit the destination. In particular a set of sources
  that became empty is always refused, never run.
\<close>

lemma validate_transition_iff:
  "validate_transition i = Inr ss \<longleftrightarrow>
     (ti_token i = None \<or> ti_absorber i = None) \<and> ss = transition_sources i \<and> ss \<noteq> []
     \<and> agent_turns_status_outcome_chk (ti_to i) (ti_outcome i)"
proof -
  have fit: "agent_turns_status_outcome_chk to oc \<longleftrightarrow>
      (if isTerminalTurnStatus to then \<exists>x. oc = Some x \<and> x \<in> set (TERMINAL_OUTCOMES to)
       else oc = None)" for to oc
    by (cases to) auto
  have ok: "assert_sources to oc m ss = Inr () \<longleftrightarrow> agent_turns_status_outcome_chk to oc"
    if "ss \<noteq> []" "set ss \<subseteq> set (sourceStatusesFor to m)" for to oc m and ss :: "turn_status list"
  proof -
    have "\<exists>s. s \<in> set ss" using that(1) by (cases ss) auto
    with that(2) show ?thesis
      unfolding assert_sources_Inr check_Allowed_iff fit by blast
  qed
  show ?thesis
  proof (cases "transition_sources i = []")
    case True
    with validate_transition_Inr(1,2) [of i ss] show ?thesis by auto
  next
    case False
    with ok [OF False transition_sources_sub, of "ti_outcome i"] show ?thesis
      by (cases "assert_sources (ti_to i) (ti_outcome i) (ti_manual i) (transition_sources i)")
        (auto simp: validate_transition_def Let_def)
  qed
qed

text \<open>The facts about a committed \<open>transitionTurn\<close> that the properties share.\<close>

lemma transitionTurn_ok:
  assumes "transitionTurn cfg now bid sc i d = Inr (Inr ok, d')"
  obtains r d3 where "r \<in> set (turns d)"
    and "transition_cond d now sc (transition_args_of i) (transition_fence (transition_args_of i)) r"
    and "checkTurnTransition (t_status r) (ti_to i) (ti_outcome i) (ti_manual i) = Allowed"
    and "ok_turn ok = transition_row now (transition_args_of i) r"
    and "turns d3 = update_where
           (transition_cond d now sc (transition_args_of i) (transition_fence (transition_args_of i)))
           (transition_row now (transition_args_of i)) (turns d)"
    and "transition_promotion cfg now sc (transition_args_of i) d3 = (ok_promotion ok, d')"
proof -
  let ?a = "transition_args_of i"
  from assms obtain ss where ss: "validate_transition i = Inr ss"
    and run: "runTransition cfg now bid sc ?a d = Inr (Inr ok, d')"
    by (auto simp: transitionTurn_unfold split: sum.splits)
  from run have "runTransitionOnExecutor cfg now bid sc ?a (transition_fence ?a) d = Inr (Inr ok, d')"
    by (auto simp: runTransition_def split: sum.splits turn_exception.splits)
  then show ?thesis
  proof (rule runTransitionOnExecutor_ok)
    fix r d3
    assume f: "List.find (transition_cond d now sc ?a (transition_fence ?a)) (turns d) = Some r"
      and rest: "ok_turn ok = transition_row now ?a r"
        "turns d3 = update_where (transition_cond d now sc ?a (transition_fence ?a))
           (transition_row now ?a) (turns d)"
        "transition_promotion cfg now sc ?a d3 = (ok_promotion ok, d')"
    from find_SomeD [OF f] have c: "transition_cond d now sc ?a (transition_fence ?a) r"
      and r: "r \<in> set (turns d)" by simp_all
    have "t_status r \<in> set ss"
      using transition_condD(2) [OF c] validate_transition_Inr(1) [OF ss] by simp
    then have "checkTurnTransition (t_status r) (ti_to i) (ti_outcome i) (ti_manual i) = Allowed"
      by (rule validate_transition_Inr(3) [OF ss])
    with r c rest that show ?thesis by blast
  qed
qed

lemma transition_fence_token:
  assumes "validate_transition i = Inr ss" and "ti_token i = Some k"
  shows "transition_fence (transition_args_of i) = Fence_Self k"
  using validate_transition_Inr(4) [OF assms(1)] assms(2) by (simp add: transition_fence_def)

lemma fenced_transition_row:
  assumes "transitionTurn cfg now bid sc i d = Inr (Inr ok, d')" and "ti_token i = Some k"
  shows "\<exists>r \<in> set (turns d). t_id r = ti_turn i \<and> t_token r = Some k"
  using assms(1)
proof (rule transitionTurn_ok)
  fix r
  assume r: "r \<in> set (turns d)"
    and c: "transition_cond d now sc (transition_args_of i) (transition_fence (transition_args_of i)) r"
  from assms(1) obtain ss where "validate_transition i = Inr ss"
    by (auto simp: transitionTurn_unfold split: sum.splits)
  with assms(2) transition_condD(1,3) [OF c] r show ?thesis
    by (auto simp: transition_fence_token is_turn_def)
qed

lemma transition_conflict_unchanged:
  assumes "transitionTurn cfg now bid sc i d = Inr (Inl c, d')"
  shows "d' = d"
proof -
  from assms have "runTransition cfg now bid sc (transition_args_of i) d = Inr (Inl c, d')"
    by (auto simp: transitionTurn_unfold split: sum.splits)
  then show ?thesis
    by (auto simp: runTransition_def split: sum.splits turn_exception.splits
        dest: runTransitionOnExecutor_conflict(1))
qed

text \<open>
  C3. Fencing of a worker's write: a transition that carries a claim token commits only on a row
  of the caller's tenant that holds exactly this token under a lease that is still running, in a
  state from which the contract allows the destination and at the version the caller expected;
  the row then has the destination's state and outcome and the next version.
\<close>

theorem fenced_transition:
  assumes "transitionTurn cfg now bid sc i d = Inr (Inr ok, d')" and "ti_token i = Some k"
  shows "\<exists>r \<in> set (turns d). in_scope sc r \<and> t_id r = ti_turn i
      \<and> t_token r = Some k \<and> lease_live now r
      \<and> checkTurnTransition (t_status r) (ti_to i) (ti_outcome i) (ti_manual i) = Allowed
      \<and> ti_version i \<in> {None, Some (t_version r)}
      \<and> t_status (ok_turn ok) = ti_to i \<and> t_outcome (ok_turn ok) = ti_outcome i
      \<and> t_version (ok_turn ok) = t_version r + 1 \<and> t_id (ok_turn ok) = t_id r"
  using assms(1)
proof (rule transitionTurn_ok)
  fix r d3
  let ?a = "transition_args_of i"
  assume r: "r \<in> set (turns d)" and c: "transition_cond d now sc ?a (transition_fence ?a) r"
    and chk: "checkTurnTransition (t_status r) (ti_to i) (ti_outcome i) (ti_manual i) = Allowed"
    and ok: "ok_turn ok = transition_row now ?a r"
  from assms obtain ss where "validate_transition i = Inr ss"
    by (auto simp: transitionTurn_unfold split: sum.splits)
  from transition_fence_token [OF this assms(2)] have "transition_fence ?a = Fence_Self k" .
  with transition_condD [OF c] have "t_token r = Some k" "lease_live now r" by simp_all
  with r chk ok transition_condD(1,4) [OF c] show ?thesis
    by (intro bexI [of _ r]) (cases "ti_version i"; auto simp: is_turn_def)+
qed

theorem fenced_transition_witness:
  "\<exists>ok d'. transitionTurn demo_config 5 0 demo_scope (completeTurnTx 1 Reply_Delivered None (Some 7))
     (demo_db [demo_held 1 Running 1 7 10, demo_turn 2 Received None 2]) = Inr (Inr ok, d')
   \<and> (\<exists>r \<in> set (turns (demo_db [demo_held 1 Running 1 7 10, demo_turn 2 Received None 2])).
        t_token r = Some 7 \<and> lease_live 5 r)"
proof -
  let ?d = "demo_db [demo_held 1 Running 1 7 10, demo_turn 2 Received None 2]"
  let ?i = "completeTurnTx 1 Reply_Delivered None (Some 7)"
  have "commits (transitionTurn demo_config 5 0 demo_scope ?i ?d)" by code_simp
  then obtain ok d' where run: "transitionTurn demo_config 5 0 demo_scope ?i ?d = Inr (Inr ok, d')"
    by (auto simp: commits_iff)
  have "ti_token ?i = Some 7" by (simp add: completeTurnTx_def)
  from fenced_transition [OF run this] run show ?thesis by blast
qed

text \<open>What a conflict says of the row it is about.\<close>

definition conflict_holds ::
    "db \<Rightarrow> instant \<Rightarrow> scope \<Rightarrow> transition_input \<Rightarrow> turn_conflict \<Rightarrow> bool" where
  "conflict_holds d now sc i c =
     (case findById d sc (ti_turn i) of
        None \<Rightarrow> c = Not_Found
      | Some r \<Rightarrow>
          (case c of
             Not_Found \<Rightarrow> False
           | Order_Committed n \<Rightarrow> ti_guard i \<and> n = committedOrderAfterCount d sc r \<and> 0 < n
           | Stale_Claim st v \<Rightarrow> st = t_status r \<and> v = t_version r
               \<and> \<not> fence_ok d now sc (transition_fence (transition_args_of i)) r
           | State_Mismatch st v \<Rightarrow> st = t_status r \<and> v = t_version r
               \<and> fence_ok d now sc (transition_fence (transition_args_of i)) r
               \<and> (st \<notin> set (transition_sources i) \<or> ti_version i \<notin> {None, Some v})
           | Stream_Busy \<Rightarrow> ti_to i \<in> {Claimed, Running}
               \<and> list_ex (\<lambda>q. t_id q \<noteq> t_id r \<and> occupies q \<and> stream_slot q = stream_slot r) (turns d)))"

lemma committedOrder_count:
  "committedOrderNotBroken d sc r \<longleftrightarrow> committedOrderAfterCount d sc r = 0"
  by (auto simp: committedOrderNotBroken_def committedOrderAfterCount_def list_ex_iff
      filter_empty_conv posterioresTerminais_def eq_null_def)

lemma explain_conflict_holds:
  assumes ids: "distinct (map t_id (turns d))"
    and one: "ti_token i = None \<or> ti_absorber i = None"
    and none: "\<forall>r \<in> set (turns d).
        \<not> transition_cond d now sc (transition_args_of i) (transition_fence (transition_args_of i)) r"
  shows "conflict_holds d now sc i (explain_conflict d now sc (transition_args_of i))"
proof (cases "findById d sc (ti_turn i)")
  case None
  then show ?thesis by (simp add: conflict_holds_def explain_conflict_def)
next
  case (Some r)
  then have r: "r \<in> set (turns d)" "is_turn sc (ti_turn i) r" by (simp_all add: findById_iff [OF ids])
  let ?fence = "transition_fence (transition_args_of i)"
  have broken: "(case ti_token i of None \<Rightarrow> False
          | Some tok \<Rightarrow> t_token r \<noteq> Some tok \<or> \<not> lease_live now r)
      \<or> (case ti_absorber i of None \<Rightarrow> False
          | Some (ab, tok) \<Rightarrow> \<not> absorberFenceCondition d now sc ab tok)
      \<longleftrightarrow> \<not> fence_ok d now sc ?fence r"
    using one by (auto simp: transition_fence_def split: option.splits)
  from none r have "\<not> transition_cond d now sc (transition_args_of i) ?fence r" by blast
  then have fails: "t_status r \<notin> set (transition_sources i) \<or> ti_version i \<notin> {None, Some (t_version r)}
      \<or> \<not> fence_ok d now sc ?fence r \<or> ti_guard i \<and> committedOrderAfterCount d sc r \<noteq> 0"
    using r(2) by (auto simp: transition_cond_def turnWriteConditions_def committedOrder_count
        split: option.splits)
  have "explain_conflict d now sc (transition_args_of i) =
     (let n = if ti_guard i then committedOrderAfterCount d sc r else 0
      in if n > 0 then Order_Committed n
         else if \<not> fence_ok d now sc ?fence r then Stale_Claim (t_status r) (t_version r)
         else State_Mismatch (t_status r) (t_version r))"
    unfolding explain_conflict_def transition_args_of_simps Some option.simps Let_def broken ..
  with fails show ?thesis by (auto simp: conflict_holds_def Some Let_def)
qed

text \<open>
  A conflict leaves the database as it was, and what it says is true. \<open>Not_Found\<close>: the scope
  has no such turn. \<open>Order_Committed\<close>: the replay was guarded and this many later turns of the
  stream already ended. \<open>Stale_Claim\<close>: the fence fails on the row. \<open>State_Mismatch\<close>: the fence
  holds, and the state is not among the sources or the version is not the expected one.
  \<open>Stream_Busy\<close>: the destination occupies the stream, and another turn occupies it already.
\<close>

lemma conflict_diagnosis:
  assumes "transitionTurn cfg now bid sc i d = Inr (Inl c, d')" and "store_ok d"
  shows "d' = d \<and> conflict_holds d now sc i c"
proof -
  let ?a = "transition_args_of i"
  let ?fence = "transition_fence ?a"
  let ?upd = "update_where (transition_cond d now sc ?a ?fence) (transition_row now ?a) (turns d)"
  have ids: "distinct (map t_id (turns d))" and uq: "agent_turns_stream_active_uq (turns d)"
    using assms(2) by (simp_all add: store_ok_ids store_ok_uq)
  from assms(1) obtain ss where v: "validate_transition i = Inr ss"
    and run: "runTransition cfg now bid sc ?a d = Inr (Inl c, d')"
    by (auto simp: transitionTurn_unfold split: sum.splits)
  from run consider
      (conflict) "runTransitionOnExecutor cfg now bid sc ?a ?fence d = Inr (Inl c, d')"
    | (busy) "runTransitionOnExecutor cfg now bid sc ?a ?fence d = Inl Stream_Unique_Violation"
        "c = Stream_Busy" "d' = d"
    by (auto simp: runTransition_def split: sum.splits turn_exception.splits)
  then show ?thesis
  proof cases
    case conflict
    from runTransitionOnExecutor_conflict(1,2) [OF conflict]
      runTransitionOnExecutor_conflict(3) [OF conflict] show ?thesis
      using explain_conflict_holds [OF ids validate_transition_Inr(4) [OF v], of now sc] by simp
  next
    case busy
    then obtain r where r: "List.find (transition_cond d now sc ?a ?fence) (turns d) = Some r"
      and fails: "\<not> agent_turns_stream_active_uq ?upd"
      by (auto simp: runTransitionOnExecutor_def Let_def split: option.splits if_splits prod.splits)
    have rin: "r \<in> set (turns d)" and c: "transition_cond d now sc ?a ?fence r"
      using find_SomeD [OF r] by simp_all
    have "transition_cond d now sc ?a ?fence q \<longleftrightarrow> q = r" if "q \<in> set (turns d)" for q
      using transition_cond_unique [OF ids r that] c by blast
    from uq_update_fails [OF ids uq this _ fails] obtain q where
      q: "q \<in> set (turns d)" "q \<noteq> r" "occupies q" "stream_slot q = stream_slot r"
      and to: "occupies (transition_row now ?a r)"
      by (auto simp: stream_slot_def)
    have "t_id q \<noteq> t_id r" using q(1,2) rin distinct_map_eqD [OF ids] by blast
    moreover have "findById d sc (ti_turn i) = Some r"
      using rin transition_condD(1) [OF c] by (simp add: findById_iff [OF ids])
    moreover have "ti_to i \<in> {Claimed, Running}"
      using to by (simp add: occupies_def status_simps)
    ultimately show ?thesis
      using q busy(2,3) by (auto simp: conflict_holds_def list_ex_iff)
  qed
qed

lemma conflict_diagnosis_witness:
  "conflict_holds (demo_db [demo_held 1 Running 1 7 10]) 11 demo_scope
     (completeTurnTx 1 Reply_Delivered None (Some 7)) (Stale_Claim Running 3)"
proof -
  let ?d = "demo_db [demo_held 1 Running 1 7 10]"
  let ?i = "completeTurnTx 1 Reply_Delivered None (Some 7)"
  have "(case transitionTurn demo_config 11 0 demo_scope ?i ?d of
      Inr (Inl c, _) \<Rightarrow> c = Stale_Claim Running 3 | _ \<Rightarrow> False)" by code_simp
  then obtain d' where "transitionTurn demo_config 11 0 demo_scope ?i ?d = Inr (Inl (Stale_Claim Running 3), d')"
    by (auto split: sum.splits)
  moreover have "store_ok ?d"
    by (simp add: store_ok_def demo_simps row_checks_def agent_turns_superseded_by_chk_def
        agent_turns_stream_active_uq_def)
  ultimately show ?thesis using conflict_diagnosis by blast
qed

text \<open>
  The guarded replay of a dead letter never breaks an order already committed: when it
  commits, the turn was a dead letter, it is queued now, and no later turn of its stream had
  ended, so nothing that was answered after it is overtaken.
\<close>

lemma guarded_replay:
  assumes "transitionTurn cfg now bid sc (replayDeadLetterTx tid v False) d = Inr (Inr ok, d')"
  shows "\<exists>r \<in> set (turns d). in_scope sc r \<and> t_id r = tid \<and> t_status r = Dead_Letter
      \<and> t_status (ok_turn ok) = Queued \<and> t_outcome (ok_turn ok) = None
      \<and> t_attempts (ok_turn ok) = t_attempts r + 1
      \<and> filter (\<lambda>q. isTerminalTurnStatus (t_status q) \<and> in_scope sc q \<and> eq_null (t_stream q) (t_stream r)
                  \<and> lt_null (t_first_seq r) (t_first_seq q)) (turns d) = []"
  using assms
proof (rule transitionTurn_ok)
  fix r d3
  let ?i = "replayDeadLetterTx tid v False"
  let ?a = "transition_args_of ?i"
  assume r: "r \<in> set (turns d)" and c: "transition_cond d now sc ?a (transition_fence ?a) r"
    and ok: "ok_turn ok = transition_row now ?a r"
  have i: "ti_turn ?i = tid" "ti_to ?i = Queued" "ti_outcome ?i = None" "ti_guard ?i"
    "transition_sources ?i = [Dead_Letter]" "p_bump (ti_patch ?i)"
    by (simp_all add: replayDeadLetterTx_def transition_input_to_def transition_sources_def
        mem_sourceStatusesFor no_patch_def)
  from transition_condD(5) [OF c] i have "committedOrderAfterCount d sc r = 0"
    by (simp add: committedOrder_count)
  then have none: "filter (\<lambda>q. isTerminalTurnStatus (t_status q) \<and> in_scope sc q
      \<and> eq_null (t_stream q) (t_stream r) \<and> lt_null (t_first_seq r) (t_first_seq q)) (turns d) = []"
    by (auto simp: committedOrderAfterCount_def filter_empty_conv posterioresTerminais_def
        isTerminalTurnStatus_def eq_null_def)
  have "t_attempts (ok_turn ok) = t_attempts r + 1"
    by (simp add: ok transition_row_def apply_patch_def i)
  with r none transition_condD(1,2) [OF c] i ok show ?thesis
    by (intro bexI [of _ r]) (auto simp: is_turn_def)
qed

lemma guarded_replay_witness:
  "\<exists>r \<in> set (turns (demo_db [demo_turn 1 Dead_Letter (Some Retry_Exhausted) 1,
        demo_turn 2 Received None 2])). t_id r = 1 \<and> t_status r = Dead_Letter"
proof -
  let ?d = "demo_db [demo_turn 1 Dead_Letter (Some Retry_Exhausted) 1, demo_turn 2 Received None 2]"
  have "commits (transitionTurn demo_config 5 0 demo_scope (replayDeadLetterTx 1 None False) ?d)"
    by code_simp
  then obtain ok d' where
    "transitionTurn demo_config 5 0 demo_scope (replayDeadLetterTx 1 None False) ?d = Inr (Inr ok, d')"
    by (auto simp: commits_iff)
  from guarded_replay [OF this] show ?thesis by blast
qed

end
