(* ===== verification/Turn_Claim.thy ===== *)
theory Turn_Claim
  imports Turn_Transition
begin

text \<open>
  The atomic claim with its lease (\<open>claimNextEligibleTurn\<close> and its helpers in
  src/db/repositories/turn-repos.ts, vocabulary in src/runtime/turns/claim.ts): recovery of the
  expired claims of the stream, the claim itself, the explanation of a refusal, renewal and
  release of the lease, and the sweep that elects recoverable turns.
  \<open>gen_random_uuid()\<close> is the argument that carries the new token.
\<close>

section \<open>Vocabulary\<close>

datatype claim_rejection =
    CR_Not_Found | CR_Not_Eligible | CR_Stream_Busy | CR_Not_Head | CR_Stream_Blocked
  | CR_Stream_Poisoned | CR_Conversation_Human_Control

record turn_claim =
  tc_turn :: uuid
  tc_tenant :: string
  tc_agent :: string
  tc_attempt :: nat
  tc_token :: uuid
  tc_worker :: string
  tc_claimed_at :: instant
  tc_lease :: instant
  tc_status :: turn_status
  tc_version :: nat
  tc_wait_ms :: int                       \<comment> \<open>\<open>wait_seconds\<close>, in milliseconds\<close>

record claim_granted =
  cg_claim :: turn_claim
  cg_recovered :: "stream_promotion list"
  cg_fifo_violation :: "nat option"       \<comment> \<open>\<open>earlier_live\<close>, when the canary fired\<close>

record claim_refused =
  cf_reason :: claim_rejection
  cf_recovered :: "stream_promotion list"
  cf_head_block :: "(uuid \<times> turn_status) option"

type_synonym claim_result = "claim_refused + claim_granted"

section \<open>Recovery of the expired claims of a stream\<close>

definition expired_rival :: "db \<Rightarrow> instant \<Rightarrow> scope \<Rightarrow> uuid \<Rightarrow> turn \<Rightarrow> bool" where
  "expired_rival d now sc tid u =
     (case List.find (\<lambda>t. is_turn sc tid t \<and> t_stream t \<noteq> None) (turns d) of
        None \<Rightarrow> False
      | Some alvo \<Rightarrow>
          in_scope sc u \<and> eq_null (t_stream u) (t_stream alvo)
          \<and> t_status u \<in> set STREAM_OCCUPYING_STATUSES
          \<and> t_id u \<noteq> tid
          \<and> t_lease u \<noteq> None \<and> lease_expired now u
          \<and> streamNotHumanControlled d sc u)"

definition recovered_row :: "instant \<Rightarrow> turn \<Rightarrow> turn" where
  "recovered_row now u = u\<lparr>
     t_status := Retryable,
     t_next_attempt := Some now,
     t_lease := Some now,
     t_error_code := Some ''stream_lease_expired'',
     t_error_summary :=
       Some ''claim expirado recuperado na transacao de claim da stream (#625)'',
     t_version := t_version u + 1,
     t_promoted_at := Some now,
     t_updated_at := now\<rparr>"

definition recoverExpiredStreamClaims ::
    "instant \<Rightarrow> scope \<Rightarrow> uuid \<Rightarrow> db \<Rightarrow> stream_promotion list \<times> db" where
  "recoverExpiredStreamClaims now sc tid d =
     (map (\<lambda>u. \<lparr>sp_turn = t_id u, sp_message = t_message u, sp_conversa = t_conversa u,
               sp_before = t_status u, sp_after = Retryable\<rparr>)
        (filter (expired_rival d now sc tid) (turns d)),
      d\<lparr>turns := update_where (expired_rival d now sc tid) (recovered_row now) (turns d)\<rparr>)"

section \<open>The claim\<close>

definition claimable_now :: "instant \<Rightarrow> turn \<Rightarrow> bool" where
  "claimable_now now r =
     (t_status r \<in> set CLAIMABLE_STATUSES
        \<and> (t_status r \<noteq> Retryable \<or> t_next_attempt r = None
           \<or> le_null (t_next_attempt r) (Some now))
      \<or> t_status r \<in> set LEASE_TAKEOVER_STATUSES
        \<and> t_lease r \<noteq> None \<and> lease_expired now r)"

definition claim_cond :: "turn_config \<Rightarrow> db \<Rightarrow> instant \<Rightarrow> scope \<Rightarrow> uuid \<Rightarrow> turn \<Rightarrow> bool" where
  "claim_cond cfg d now sc tid r =
     (is_turn sc tid r \<and> claimable_now now r
      \<and> (headOfLineEnabled cfg \<longrightarrow> streamHeadOfLineNotExists d sc r)
      \<and> streamNotPoisoned d sc r
      \<and> streamNotHumanControlled d sc r)"

definition claimed_row :: "instant \<Rightarrow> string \<Rightarrow> uuid \<Rightarrow> int \<Rightarrow> turn \<Rightarrow> turn" where
  "claimed_row now worker token lease_ms r = r\<lparr>
     t_status := Claimed,
     t_claimed_by := Some worker,
     t_token := Some token,
     t_claimed_at := Some now,
     t_heartbeat := Some now,
     t_lease := Some (now + lease_ms),
     t_attempts := t_attempts r + 1,
     t_version := t_version r + 1,
     t_next_attempt := None,
     t_promoted_at := None,
     t_updated_at := now\<rparr>"

definition explainClaimRejection ::
    "turn_config \<Rightarrow> scope \<Rightarrow> uuid \<Rightarrow> stream_promotion list \<Rightarrow> db \<Rightarrow> claim_refused" where
  "explainClaimRejection cfg sc tid trail d =
     (case findById d sc tid of
        None \<Rightarrow> \<lparr>cf_reason = CR_Not_Found, cf_recovered = trail, cf_head_block = None\<rparr>
      | Some row \<Rightarrow>
          if humanControlProbe d sc tid \<noteq> None
          then \<lparr>cf_reason = CR_Conversation_Human_Control, cf_recovered = trail,
                cf_head_block = None\<rparr>
          else case streamPoisonProbe d sc tid of
            Some b \<Rightarrow> \<lparr>cf_reason = CR_Stream_Poisoned, cf_recovered = trail,
                       cf_head_block = Some (b_turn b, Dead_Letter)\<rparr>
          | None \<Rightarrow>
              (case (if headOfLineEnabled cfg \<and> \<not> isTerminalTurnStatus (t_status row)
                     then earlierLiveTurnProbe d sc tid else None) of
                 Some h \<Rightarrow>
                   \<lparr>cf_reason = (if t_status h = Outbound_Pending then CR_Stream_Blocked
                                 else CR_Not_Head),
                    cf_recovered = trail, cf_head_block = Some (t_id h, t_status h)\<rparr>
               | None \<Rightarrow> \<lparr>cf_reason = CR_Not_Eligible, cf_recovered = trail,
                          cf_head_block = None\<rparr>))"

definition claim_of_row :: "instant \<Rightarrow> string \<Rightarrow> uuid \<Rightarrow> int \<Rightarrow> turn \<Rightarrow> turn_claim" where
  "claim_of_row now worker token lease_ms r =
     \<lparr>tc_turn = t_id r, tc_tenant = t_tenant r, tc_agent = t_agent r,
      tc_attempt = t_attempts r + 1, tc_token = token, tc_worker = worker,
      tc_claimed_at = now, tc_lease = now + lease_ms, tc_status = Claimed,
      tc_version = t_version r + 1,
      tc_wait_ms = max (now - coalesce (t_queued_at r) (t_created_at r)) 0\<rparr>"

definition claimWithinStreamExclusion ::
    "turn_config \<Rightarrow> instant \<Rightarrow> scope \<Rightarrow> uuid \<Rightarrow> string \<Rightarrow> int \<Rightarrow> uuid \<Rightarrow> db
       \<Rightarrow> turn_exception + claim_result \<times> db" where
  "claimWithinStreamExclusion cfg now sc tid worker lease_ms token d =
     (let (trail, d1) = recoverExpiredStreamClaims now sc tid d
      in case List.find (claim_cond cfg d1 now sc tid) (turns d1) of
           None \<Rightarrow> Inr (Inl (explainClaimRejection cfg sc tid trail d1), d1)
         | Some r \<Rightarrow>
             (let ts = update_where (claim_cond cfg d1 now sc tid)
                         (claimed_row now worker token lease_ms) (turns d1);
                  earlier = (if headOfLineEnabled cfg then earlierLiveTurnCount d1 sc r else 0)
              in if \<not> agent_turns_stream_active_uq ts then Inl Stream_Unique_Violation
                 else Inr (Inr \<lparr>cg_claim = claim_of_row now worker token lease_ms r,
                                cg_recovered = trail,
                                cg_fifo_violation = (if earlier > 0 then Some earlier else None)\<rparr>,
                           d1\<lparr>turns := ts\<rparr>)))"

definition claimNextEligibleTurn ::
    "turn_config \<Rightarrow> instant \<Rightarrow> scope \<Rightarrow> uuid \<Rightarrow> string \<Rightarrow> int \<Rightarrow> uuid \<Rightarrow> db \<Rightarrow> claim_result \<times> db" where
  "claimNextEligibleTurn cfg now sc tid worker lease_ms token d =
     (case claimWithinStreamExclusion cfg now sc tid worker lease_ms token d of
        Inl _ \<Rightarrow> (Inl \<lparr>cf_reason = CR_Stream_Busy, cf_recovered = [], cf_head_block = None\<rparr>, d)
      | Inr res \<Rightarrow> res)"

section \<open>Renewal and release\<close>

definition renew_cond :: "instant \<Rightarrow> scope \<Rightarrow> uuid \<Rightarrow> uuid \<Rightarrow> turn \<Rightarrow> bool" where
  "renew_cond now sc tid token r =
     (is_turn sc tid r \<and> t_token r = Some token
      \<and> t_status r \<in> set FENCED_WRITE_STATUSES \<and> lease_live now r)"

definition renewTurnLease ::
    "instant \<Rightarrow> scope \<Rightarrow> uuid \<Rightarrow> uuid \<Rightarrow> int \<Rightarrow> db \<Rightarrow> (instant \<times> instant) option \<times> db" where
  "renewTurnLease now sc tid token lease_ms d =
     (if list_ex (renew_cond now sc tid token) (turns d)
      then (Some (now + lease_ms, now),
            d\<lparr>turns := update_where (renew_cond now sc tid token)
                 (\<lambda>r. r\<lparr>t_lease := Some (now + lease_ms), t_heartbeat := Some now,
                        t_updated_at := now\<rparr>) (turns d)\<rparr>)
      else (None, d))"

definition release_cond :: "scope \<Rightarrow> uuid \<Rightarrow> uuid \<Rightarrow> turn \<Rightarrow> bool" where
  "release_cond sc tid token r =
     (is_turn sc tid r \<and> t_token r = Some token \<and> t_status r \<in> set FENCED_WRITE_STATUSES)"

definition releaseTurnClaim ::
    "instant \<Rightarrow> scope \<Rightarrow> uuid \<Rightarrow> uuid \<Rightarrow> db \<Rightarrow> bool \<times> db" where
  "releaseTurnClaim now sc tid token d =
     (length (filter (release_cond sc tid token) (turns d)) = 1,
      d\<lparr>turns := update_where (release_cond sc tid token)
           (\<lambda>r. r\<lparr>t_lease := Some now, t_updated_at := now\<rparr>) (turns d)\<rparr>)"

section \<open>The recovery sweep\<close>

datatype turn_recovery_reason = Received_Stale | Queued_Unclaimed | Retry_Due | Lease_Expired

definition recoveryReasonFor :: "turn \<Rightarrow> turn_recovery_reason" where
  "recoveryReasonFor r =
     (if t_status r = Received then Received_Stale
      else if t_status r = Queued then Queued_Unclaimed
      else if t_status r = Retryable then Retry_Due
      else Lease_Expired)"

text \<open>The cutoff is the sweeping process's own clock minus the staleness; \<open>now\<close> is the database's.\<close>

definition recoverable_cond ::
    "turn_config \<Rightarrow> db \<Rightarrow> instant \<Rightarrow> instant \<Rightarrow> scope \<Rightarrow> turn \<Rightarrow> bool" where
  "recoverable_cond cfg d now cutoff sc r =
     (in_scope sc r
      \<and> t_status r \<in> set RECOVERABLE_TURN_STATUSES
      \<and> (t_status r \<in> {Received, Queued} \<and> t_created_at r \<le> cutoff
         \<or> t_status r = Retryable \<and> t_next_attempt r \<noteq> None
           \<and> le_null (t_next_attempt r) (Some now)
         \<or> t_status r \<in> {Claimed, Running} \<and> t_lease r \<noteq> None \<and> lease_expired now r)
      \<and> (headOfLineEnabled cfg \<longrightarrow> streamHeadOfLineNotExists d sc r)
      \<and> streamNotPoisoned d sc r
      \<and> streamNotHumanControlled d sc r)"

definition findRecoverableTurns ::
    "turn_config \<Rightarrow> instant \<Rightarrow> instant \<Rightarrow> int \<Rightarrow> nat \<Rightarrow> scope \<Rightarrow> db
       \<Rightarrow> (turn \<times> turn_recovery_reason) list" where
  "findRecoverableTurns cfg now local_now stale_ms limit sc d =
     map (\<lambda>r. (r, recoveryReasonFor r))
       (take limit
         (sort_key t_created_at
           (filter (recoverable_cond cfg d now (local_now - stale_ms) sc) (turns d))))"

definition listNonHeadTurns :: "uuid list \<Rightarrow> scope \<Rightarrow> db \<Rightarrow> (uuid \<times> nat) list" where
  "listNonHeadTurns tids sc d =
     (if tids = [] then []
      else map (\<lambda>r. (t_id r, earlierLiveTurnCount d sc r))
             (filter (\<lambda>r. in_scope sc r \<and> t_id r \<in> set tids
                        \<and> \<not> streamHeadOfLineNotExists d sc r) (turns d)))"

section \<open>Columns a claim writes\<close>

lemma recovered_row_simps [simp]:
  "t_id (recovered_row now r) = t_id r" "t_tenant (recovered_row now r) = t_tenant r"
  "t_agent (recovered_row now r) = t_agent r" "t_message (recovered_row now r) = t_message r"
  "t_status (recovered_row now r) = Retryable" "t_outcome (recovered_row now r) = t_outcome r"
  "t_superseded_by (recovered_row now r) = t_superseded_by r"
  "t_stream (recovered_row now r) = t_stream r"
  "t_first_seq (recovered_row now r) = t_first_seq r"
  "t_token (recovered_row now r) = t_token r" "t_lease (recovered_row now r) = Some now"
  "t_version (recovered_row now r) = t_version r + 1"
  "t_next_attempt (recovered_row now r) = Some now"
  by (simp_all add: recovered_row_def)

lemma claimed_row_simps [simp]:
  "t_id (claimed_row now w k ms r) = t_id r" "t_tenant (claimed_row now w k ms r) = t_tenant r"
  "t_agent (claimed_row now w k ms r) = t_agent r"
  "t_message (claimed_row now w k ms r) = t_message r"
  "t_status (claimed_row now w k ms r) = Claimed"
  "t_outcome (claimed_row now w k ms r) = t_outcome r"
  "t_superseded_by (claimed_row now w k ms r) = t_superseded_by r"
  "t_stream (claimed_row now w k ms r) = t_stream r"
  "t_first_seq (claimed_row now w k ms r) = t_first_seq r"
  "t_token (claimed_row now w k ms r) = Some k"
  "t_lease (claimed_row now w k ms r) = Some (now + ms)"
  "t_version (claimed_row now w k ms r) = t_version r + 1"
  "t_attempts (claimed_row now w k ms r) = t_attempts r + 1"
  by (simp_all add: claimed_row_def)

lemma expired_rivalD:
  assumes "expired_rival d now sc tid u"
  shows "in_scope sc u" and "t_status u \<in> set STREAM_OCCUPYING_STATUSES" and "t_id u \<noteq> tid"
    and "t_stream u \<noteq> None" and "lease_expired now u"
  using assms by (auto simp: expired_rival_def eq_null_def split: option.splits)

lemma claim_condD:
  assumes "claim_cond cfg d now sc tid r"
  shows "is_turn sc tid r" and "claimable_now now r"
    and "headOfLineEnabled cfg \<Longrightarrow> streamHeadOfLineNotExists d sc r"
    and "streamNotPoisoned d sc r" and "streamNotHumanControlled d sc r"
  using assms by (auto simp: claim_cond_def)

lemma claimable_now_live: "claimable_now now r \<Longrightarrow> \<not> isTerminalTurnStatus (t_status r)"
  by (auto simp: claimable_now_def status_simps)

lemma occupying_live: "s \<in> set STREAM_OCCUPYING_STATUSES \<Longrightarrow> \<not> isTerminalTurnStatus s"
  by (auto simp: status_simps)

section \<open>The claim keeps the contract of the table\<close>

lemma recover_snd [simp]:
  "turns (snd (recoverExpiredStreamClaims now sc tid d)) =
     update_where (expired_rival d now sc tid) (recovered_row now) (turns d)"
  by (simp add: recoverExpiredStreamClaims_def)

lemma recover_confined [simp]:
  "foreign_tables sc (snd (recoverExpiredStreamClaims now sc tid d)) = foreign_tables sc d"
  by (simp add: recoverExpiredStreamClaims_def)

lemma recovered_row_evolves:
  assumes "expired_rival d now sc tid r"
  shows "row_evolves by_hand sc fresh r (recovered_row now r)"
proof (rule row_changesI)
  show "row_checks r \<Longrightarrow> row_checks (recovered_row now r)"
    using expired_rivalD(2) [OF assms] occupying_live by (auto intro: row_checks_live_change)
qed (use expired_rivalD(1,2) [OF assms] occupying_live in auto)

lemma recover_evolves:
  "db_evolves by_hand sc fresh d (snd (recoverExpiredStreamClaims now sc tid d))"
  by (rule db_evolves_update [OF recover_snd]) (rule recovered_row_evolves)

lemma recover_uq:
  "agent_turns_stream_active_uq (turns d) \<Longrightarrow>
     agent_turns_stream_active_uq (turns (snd (recoverExpiredStreamClaims now sc tid d)))"
  unfolding recover_snd
  by (rule uq_update) (simp_all add: vacates_def stream_slot_def occupies_def status_simps)

lemma claimed_row_evolves:
  assumes "claim_cond cfg d now sc tid r"
  shows "row_evolves by_hand sc (Some k) r (claimed_row now w k ms r)"
proof (rule row_changesI)
  show "row_checks r \<Longrightarrow> row_checks (claimed_row now w k ms r)"
    using claimable_now_live [OF claim_condD(2) [OF assms]] by (auto intro: row_checks_live_change)
qed (use claim_condD(1) [OF assms] claimable_now_live [OF claim_condD(2) [OF assms]] in auto)

text \<open>The two ways the claim's transaction commits, and the one in which it is undone.\<close>

lemma claimWithinStreamExclusion_cases:
  fixes d d1 now sc tid
  defines "d1 \<equiv> snd (recoverExpiredStreamClaims now sc tid d)"
    and "trail \<equiv> fst (recoverExpiredStreamClaims now sc tid d)"
  obtains (refused) "\<forall>r \<in> set (turns d1). \<not> claim_cond cfg d1 now sc tid r"
      and "claimWithinStreamExclusion cfg now sc tid w ms k d =
             Inr (Inl (explainClaimRejection cfg sc tid trail d1), d1)"
  | (busy) r where "List.find (claim_cond cfg d1 now sc tid) (turns d1) = Some r"
      and "\<not> agent_turns_stream_active_uq
              (update_where (claim_cond cfg d1 now sc tid) (claimed_row now w k ms) (turns d1))"
      and "claimWithinStreamExclusion cfg now sc tid w ms k d = Inl Stream_Unique_Violation"
  | (granted) r where "List.find (claim_cond cfg d1 now sc tid) (turns d1) = Some r"
      and "agent_turns_stream_active_uq
              (update_where (claim_cond cfg d1 now sc tid) (claimed_row now w k ms) (turns d1))"
      and "claimWithinStreamExclusion cfg now sc tid w ms k d =
        (let earlier = if headOfLineEnabled cfg then earlierLiveTurnCount d1 sc r else 0
         in Inr (Inr \<lparr>cg_claim = claim_of_row now w k ms r, cg_recovered = trail,
                   cg_fifo_violation = (if earlier > 0 then Some earlier else None)\<rparr>,
              d1\<lparr>turns := update_where (claim_cond cfg d1 now sc tid) (claimed_row now w k ms)
                            (turns d1)\<rparr>))"
proof -
  have rec: "recoverExpiredStreamClaims now sc tid d = (trail, d1)"
    by (simp add: d1_def trail_def)
  show ?thesis
  proof (cases "List.find (claim_cond cfg d1 now sc tid) (turns d1)")
    case None
    show ?thesis
    proof (rule refused)
      show "\<forall>r \<in> set (turns d1). \<not> claim_cond cfg d1 now sc tid r"
        using None by (simp add: find_None_iff_all)
    qed (simp add: claimWithinStreamExclusion_def rec None)
  next
    case r: (Some r)
    show ?thesis
    proof (cases "agent_turns_stream_active_uq
        (update_where (claim_cond cfg d1 now sc tid) (claimed_row now w k ms) (turns d1))")
      case True
      show ?thesis
        by (rule granted [OF r True]) (simp add: claimWithinStreamExclusion_def rec r True Let_def)
    next
      case False
      show ?thesis
        by (rule busy [OF r False]) (simp add: claimWithinStreamExclusion_def rec r False Let_def)
    qed
  qed
qed

interpretation claim:
  automatic_operation sc "Some k" "\<lambda>d. snd (claimNextEligibleTurn cfg now sc tid w ms k d)"
  for sc k cfg now tid w ms
proof
  fix d
  let ?d1 = "snd (recoverExpiredStreamClaims now sc tid d)"
  have claimed: "db_evolves False sc (Some k) d
      (?d1\<lparr>turns := update_where (claim_cond cfg ?d1 now sc tid) (claimed_row now w k ms) (turns ?d1)\<rparr>)"
    using recover_evolves
  proof (rule db_evolves_trans)
    show "db_evolves False sc (Some k) ?d1
      (?d1\<lparr>turns := update_where (claim_cond cfg ?d1 now sc tid) (claimed_row now w k ms) (turns ?d1)\<rparr>)"
      by (rule db_evolves_update [where p = "claim_cond cfg ?d1 now sc tid"
            and f = "claimed_row now w k ms"]) (simp_all add: claimed_row_evolves)
  qed
  show "distinct (map t_id (turns d)) \<Longrightarrow>
      db_evolves False sc (Some k) d (snd (claimNextEligibleTurn cfg now sc tid w ms k d))"
    using claimed recover_evolves [of False sc "Some k" d now tid]
    by (cases rule: claimWithinStreamExclusion_cases [of now sc tid d cfg w ms k])
      (auto simp: claimNextEligibleTurn_def Let_def)
  show "agent_turns_stream_active_uq (turns d) \<Longrightarrow>
      agent_turns_stream_active_uq (turns (snd (claimNextEligibleTurn cfg now sc tid w ms k d)))"
    using recover_uq [of d now sc tid]
    by (cases rule: claimWithinStreamExclusion_cases [of now sc tid d cfg w ms k])
      (auto simp: claimNextEligibleTurn_def Let_def)
  show "foreign_tables sc (snd (claimNextEligibleTurn cfg now sc tid w ms k d)) = foreign_tables sc d"
    by (cases rule: claimWithinStreamExclusion_cases [of now sc tid d cfg w ms k])
      (simp_all add: claimNextEligibleTurn_def Let_def)
qed

lemma renew_turns:
  "turns (snd (renewTurnLease now sc tid k ms d)) =
     update_where (renew_cond now sc tid k)
       (\<lambda>r. r\<lparr>t_lease := Some (now + ms), t_heartbeat := Some now, t_updated_at := now\<rparr>) (turns d)"
  by (auto simp: renewTurnLease_def list_ex_iff update_where_none)

lemma release_turns:
  "turns (snd (releaseTurnClaim now sc tid k d)) =
     update_where (release_cond sc tid k) (\<lambda>r. r\<lparr>t_lease := Some now, t_updated_at := now\<rparr>) (turns d)"
  by (simp add: releaseTurnClaim_def)

interpretation renew:
  automatic_operation sc None "\<lambda>d. snd (renewTurnLease now sc tid k ms d)" for sc now tid k ms
proof
  fix d
  show "db_evolves False sc None d (snd (renewTurnLease now sc tid k ms d))"
    by (rule quiet_update_evolves [OF renew_turns]) (auto simp: renew_cond_def quiet_def)
  show "agent_turns_stream_active_uq (turns d) \<Longrightarrow>
      agent_turns_stream_active_uq (turns (snd (renewTurnLease now sc tid k ms d)))"
    unfolding renew_turns by (erule quiet_update_uq) (simp add: quiet_def)
  show "foreign_tables sc (snd (renewTurnLease now sc tid k ms d)) = foreign_tables sc d"
    by (simp add: renewTurnLease_def)
qed

interpretation release:
  automatic_operation sc None "\<lambda>d. snd (releaseTurnClaim now sc tid k d)" for sc now tid k
proof
  fix d
  show "db_evolves False sc None d (snd (releaseTurnClaim now sc tid k d))"
    by (rule quiet_update_evolves [OF release_turns]) (auto simp: release_cond_def quiet_def)
  show "agent_turns_stream_active_uq (turns d) \<Longrightarrow>
      agent_turns_stream_active_uq (turns (snd (releaseTurnClaim now sc tid k d)))"
    unfolding release_turns by (erule quiet_update_uq) (simp add: quiet_def)
  show "foreign_tables sc (snd (releaseTurnClaim now sc tid k d)) = foreign_tables sc d"
    by (simp add: releaseTurnClaim_def)
qed

section \<open>Properties\<close>

lemma expired_rival_same:
  assumes "expired_rival d now sc tid u"
  shows "in_scope sc u \<and> t_status u \<in> {Claimed, Running} \<and> t_id u \<noteq> tid"
  using expired_rivalD [OF assms] by (simp add: status_simps)

text \<open>The recovery keeps every turn alive in its place, so it moves no head of a stream.\<close>

lemma recover_ids:
  "map t_id (turns (snd (recoverExpiredStreamClaims now sc tid d))) = map t_id (turns d)"
  unfolding recover_snd by (rule map_update_where_same) simp

lemma anteriores_recovered:
  assumes "expired_rival d now sc tid q"
  shows "anterioresNaoTerminais sc s (recovered_row now q) = anterioresNaoTerminais sc s q"
  using occupying_live [OF expired_rivalD(2) [OF assms]]
  by (simp add: anterioresNaoTerminais_def in_scope_def isTerminalTurnStatus_def status_simps)

lemma anteriores_recover:
  "filter (anterioresNaoTerminais sc s) (turns (snd (recoverExpiredStreamClaims now sc tid d))) =
     map (\<lambda>r. if expired_rival d now sc tid r then recovered_row now r else r)
       (filter (anterioresNaoTerminais sc s) (turns d))"
  by (auto simp: update_where_def filter_map comp_def anteriores_recovered intro!: map_cong filter_cong)

lemma head_of_line_recover:
  "streamHeadOfLineNotExists (snd (recoverExpiredStreamClaims now sc tid d)) sc s =
     streamHeadOfLineNotExists d sc s"
proof -
  have ex: "list_ex P xs \<longleftrightarrow> filter P xs \<noteq> []" for P :: "turn \<Rightarrow> bool" and xs
    by (auto simp: list_ex_iff filter_empty_conv)
  show ?thesis
    unfolding streamHeadOfLineNotExists_def ex anteriores_recover by simp
qed

lemma poison_human_recover [simp]:
  "streamNotPoisoned (snd (recoverExpiredStreamClaims now sc tid d)) sc s = streamNotPoisoned d sc s"
  "streamNotHumanControlled (snd (recoverExpiredStreamClaims now sc tid d)) sc s =
     streamNotHumanControlled d sc s"
  by (simp_all add: streamNotPoisoned_def streamNotHumanControlled_def recoverExpiredStreamClaims_def)

lemma claim_cond_recover:
  "claim_cond cfg (snd (recoverExpiredStreamClaims now sc tid d)) now sc tid r =
     claim_cond cfg d now sc tid r"
  by (simp add: claim_cond_def head_of_line_recover)

lemma recover_keeps_own:
  "is_turn sc tid r \<Longrightarrow>
     r \<in> set (turns (snd (recoverExpiredStreamClaims now sc tid d))) \<longleftrightarrow> r \<in> set (turns d)"
  by (auto simp: set_update_where is_turn_def image_iff dest: expired_rivalD(3))

lemma claim_cond_head:
  assumes "claim_cond cfg d now sc tid r" and "headOfLineEnabled cfg"
  shows "filter (anterioresNaoTerminais sc r) (turns d) = []"
  using claim_condD(3) [OF assms]
  by (auto simp: head_of_line_iff filter_empty_conv anterioresNaoTerminais_def eq_null_def lt_null_iff)

lemma claimNext_cases:
  assumes "claimNextEligibleTurn cfg now sc tid w ms k d = (res, d')"
  obtains (refused) why where "res = Inl why"
      and "\<forall>r \<in> set (turns d). \<not> claim_cond cfg d now sc tid r"
      and "d' = snd (recoverExpiredStreamClaims now sc tid d)"
      and "why = explainClaimRejection cfg sc tid (fst (recoverExpiredStreamClaims now sc tid d)) d'"
  | (busy) r where "res = Inl \<lparr>cf_reason = CR_Stream_Busy, cf_recovered = [], cf_head_block = None\<rparr>"
      and "d' = d" and "r \<in> set (turns d)" and "claim_cond cfg d now sc tid r"
      and "\<not> agent_turns_stream_active_uq
          (update_where (claim_cond cfg d now sc tid) (claimed_row now w k ms)
             (turns (snd (recoverExpiredStreamClaims now sc tid d))))"
  | (granted) r where "r \<in> set (turns d)" and "claim_cond cfg d now sc tid r"
      and "res = Inr \<lparr>cg_claim = claim_of_row now w k ms r,
             cg_recovered = fst (recoverExpiredStreamClaims now sc tid d),
             cg_fifo_violation = None\<rparr>"
      and "turns d' = update_where (claim_cond cfg d now sc tid) (claimed_row now w k ms)
             (turns (snd (recoverExpiredStreamClaims now sc tid d)))"
proof -
  let ?d1 = "snd (recoverExpiredStreamClaims now sc tid d)"
  have own: "r \<in> set (turns d)" if "r \<in> set (turns ?d1)" "claim_cond cfg d now sc tid r" for r
    using that recover_keeps_own claim_condD(1) by blast
  have found: "r \<in> set (turns d) \<and> claim_cond cfg d now sc tid r"
    if "List.find (claim_cond cfg ?d1 now sc tid) (turns ?d1) = Some r" for r
    using find_SomeD [OF that] own unfolding claim_cond_recover by blast
  have eqc: "claim_cond cfg ?d1 now sc tid = claim_cond cfg d now sc tid"
    by (rule ext) (rule claim_cond_recover)
  show ?thesis
  proof (cases rule: claimWithinStreamExclusion_cases [of now sc tid d cfg w ms k])
    case 1: refused
    have "\<not> claim_cond cfg d now sc tid r" if "r \<in> set (turns d)" for r
      using 1(1) that recover_keeps_own claim_condD(1) unfolding eqc by blast
    then show ?thesis
      using assms 1(2) by (intro refused) (auto simp: claimNextEligibleTurn_def)
  next
    case (busy r)
    note r = found [OF this(1)]
    have "res = Inl \<lparr>cf_reason = CR_Stream_Busy, cf_recovered = [], cf_head_block = None\<rparr>" "d' = d"
      using assms busy(3) by (simp_all add: claimNextEligibleTurn_def)
    then show ?thesis
      using r busy(2) [unfolded eqc] by (intro that(2) [of r]) blast+
  next
    case (granted r)
    note r = found [OF this(1)]
    have "headOfLineEnabled cfg \<Longrightarrow> earlierLiveTurnCount ?d1 sc r = 0"
      using claim_cond_head [OF conjunct2 [OF r]]
      unfolding earlierLiveTurnCount_def anteriores_recover by simp
    then show ?thesis
      using granted assms r
      by (intro that(3) [of r]) (auto simp: claimNextEligibleTurn_def eqc Let_def)
  qed
qed

text \<open>
  C4. A granted claim is a claim of the right turn. The turn was waiting and due, or held under a
  lease that had expired; with the head-of-line rule on no earlier turn of its stream was alive; its stream was
  neither poisoned nor under human control. Afterwards the row is claimed under the
  new token with a lease of the length asked for, one attempt and one version further, and the
  answer of the claim says exactly that. The canary for a broken order is never raised.
\<close>

theorem claim_sound:
  assumes "claimNextEligibleTurn cfg now sc tid w ms k d = (Inr g, d')"
  shows "\<exists>r \<in> set (turns d). is_turn sc tid r \<and> claimable_now now r
      \<and> (FEATURE_TURN_HEAD_OF_LINE cfg \<longrightarrow>
           filter (anterioresNaoTerminais sc r) (turns d) = [])
      \<and> streamNotPoisoned d sc r \<and> streamNotHumanControlled d sc r
      \<and> claimed_row now w k ms r \<in> set (turns d')
      \<and> t_status (claimed_row now w k ms r) = Claimed \<and> t_token (claimed_row now w k ms r) = Some k
      \<and> t_lease (claimed_row now w k ms r) = Some (now + ms)
      \<and> tc_token (cg_claim g) = k \<and> tc_turn (cg_claim g) = tid
      \<and> tc_attempt (cg_claim g) = t_attempts (claimed_row now w k ms r)
      \<and> tc_version (cg_claim g) = t_version (claimed_row now w k ms r)
      \<and> tc_lease (cg_claim g) = now + ms \<and> 0 \<le> tc_wait_ms (cg_claim g)
      \<and> cg_fifo_violation g = None"
  using assms
proof (cases rule: claimNext_cases)
  case (granted r)
  have c: "is_turn sc tid r" "claimable_now now r" "streamNotPoisoned d sc r"
    "streamNotHumanControlled d sc r"
    using claim_condD [OF granted(2)] by simp_all
  have head: "FEATURE_TURN_HEAD_OF_LINE cfg \<Longrightarrow> filter (anterioresNaoTerminais sc r) (turns d) = []"
    using claim_cond_head [OF granted(2)] by (simp add: headOfLineEnabled_def)
  have "r \<in> set (turns (snd (recoverExpiredStreamClaims now sc tid d)))"
    using recover_keeps_own [OF c(1)] granted(1) by blast
  then have row: "claimed_row now w k ms r \<in> set (turns d')"
    using granted(2) by (auto simp: granted(4) set_update_where intro: image_eqI [of _ _ r])
  show ?thesis
    using granted(1,3) c head row
    by (intro bexI [of _ r]) (auto simp: claim_of_row_def is_turn_def)
qed simp_all

theorem claim_sound_witness:
  "(case claimNextEligibleTurn demo_config 50 demo_scope 2 ''w'' 30 9
      (demo_db [demo_turn 1 Completed (Some Reply_Delivered) 1, demo_turn 2 Received None 2])
    of (Inr g, d') \<Rightarrow> tc_token (cg_claim g) = 9 \<and> cg_fifo_violation g = None | _ \<Rightarrow> False)"
proof -
  let ?d = "demo_db [demo_turn 1 Completed (Some Reply_Delivered) 1, demo_turn 2 Received None 2]"
  let ?run = "claimNextEligibleTurn demo_config 50 demo_scope 2 ''w'' 30 9 ?d"
  have "\<not> isl (fst ?run)" by code_simp
  then obtain g where g: "fst ?run = Inr g" by (cases "fst ?run") auto
  then have run: "?run = (Inr g, snd ?run)" by (metis prod.collapse)
  show ?thesis using claim_sound [OF run] unfolding run [symmetric] g by (subst run) auto
qed

text \<open>The readings that explain a refusal, after the recovery.\<close>

lemma findById_recover:
  assumes "distinct (map t_id (turns d))"
  shows "findById (snd (recoverExpiredStreamClaims now sc tid d)) sc tid = findById d sc tid"
proof -
  have "findById (snd (recoverExpiredStreamClaims now sc tid d)) sc tid = Some r \<longleftrightarrow>
      findById d sc tid = Some r" for r
    using assms recover_keeps_own [of sc tid r now d] recover_ids [of now sc tid d]
    by (auto simp: findById_iff simp del: recover_snd)
  then show ?thesis by (metis option.exhaust)
qed

lemma recover_other_tables [simp]:
  "blocks (snd (recoverExpiredStreamClaims now sc tid d)) = blocks d"
  "controls (snd (recoverExpiredStreamClaims now sc tid d)) = controls d"
  by (simp_all add: recoverExpiredStreamClaims_def)

lemma earlier_probe_recover:
  assumes "distinct (map t_id (turns d))" and "findById d sc tid = Some r"
    and "earlierLiveTurnProbe (snd (recoverExpiredStreamClaims now sc tid d)) sc tid = Some h'"
  shows "\<exists>h \<in> set (turns d). anterioresNaoTerminais sc r h \<and> t_id h = t_id h'
      \<and> (t_status h = Outbound_Pending \<longleftrightarrow> t_status h' = Outbound_Pending)"
proof -
  from assms have "h' \<in> set (filter (anterioresNaoTerminais sc r)
      (turns (snd (recoverExpiredStreamClaims now sc tid d))))"
    by (auto simp: earlierLiveTurnProbe_def findById_recover simp del: recover_snd dest!: first_by_in)
  then obtain h where "h \<in> set (turns d)" "anterioresNaoTerminais sc r h"
    "h' = (if expired_rival d now sc tid h then recovered_row now h else h)"
    unfolding anteriores_recover by auto
  then show ?thesis
    by (intro bexI [of _ h]) (auto simp: status_simps dest: expired_rivalD(2))
qed

lemma not_claimable:
  assumes ids: "distinct (map t_id (turns d))" and found: "findById d sc tid = Some r"
    and no: "\<not> claim_cond cfg d now sc tid r"
    and free: "streamNotPoisoned d sc r" "streamNotHumanControlled d sc r"
    and head: "\<not> (headOfLineEnabled cfg \<and> \<not> isTerminalTurnStatus (t_status r) \<and>
      earlierLiveTurnProbe (snd (recoverExpiredStreamClaims now sc tid d)) sc tid \<noteq> None)"
  shows "\<not> claimable_now now r"
proof
  assume now: "claimable_now now r"
  have "streamHeadOfLineNotExists d sc r" if "headOfLineEnabled cfg"
  proof -
    have "filter (anterioresNaoTerminais sc r) (turns (snd (recoverExpiredStreamClaims now sc tid d))) = []"
      using head that claimable_now_live [OF now] found
      by (simp add: earlierLiveTurnProbe_def findById_recover [OF ids] del: recover_snd)
    then have "filter (anterioresNaoTerminais sc r) (turns d) = []"
      unfolding anteriores_recover by simp
    then show ?thesis by (auto simp: head_of_line_iff filter_empty_conv)
  qed
  with no now free found show False by (auto simp: claim_cond_def findById_iff [OF ids])
qed

text \<open>Who occupies the stream when the claim cannot: a rival whose lease has not expired.\<close>

lemma busy_rival:
  assumes ok: "store_ok d" and r: "r \<in> set (turns d)" "claim_cond cfg d now sc tid r"
    and fails: "\<not> agent_turns_stream_active_uq
          (update_where (claim_cond cfg d now sc tid) (claimed_row now w k ms)
             (turns (snd (recoverExpiredStreamClaims now sc tid d))))"
  shows "\<exists>q \<in> set (turns d). t_id q \<noteq> tid \<and> occupies q \<and> stream_slot q = stream_slot r
           \<and> \<not> (t_lease q \<noteq> None \<and> lease_expired now q)"
proof -
  let ?d1 = "snd (recoverExpiredStreamClaims now sc tid d)"
  have ids: "distinct (map t_id (turns ?d1))" and uq: "agent_turns_stream_active_uq (turns ?d1)"
    using recover_ids [of now sc tid d] recover_uq [of d now sc tid] ok
    by (simp_all add: store_ok_ids store_ok_uq del: recover_snd)
  have turn: "is_turn sc tid r" using claim_condD(1) [OF r(2)] .
  have r1: "r \<in> set (turns ?d1)" using recover_keeps_own [OF turn] r(1) by blast
  have one: "claim_cond cfg d now sc tid q \<longleftrightarrow> q = r" if "q \<in> set (turns ?d1)" for q
    using that r(2) r1 ids claim_condD(1) [of cfg d now sc tid]
    by (auto simp: is_turn_def dest: distinct_map_eqD)
  from uq_update_fails [OF ids uq one _ fails] obtain q1 where
    q1: "q1 \<in> set (turns ?d1)" "q1 \<noteq> r" "occupies q1" "stream_slot q1 = stream_slot r"
    and occ: "occupies (claimed_row now w k ms r)"
    by (auto simp: stream_slot_def)
  from q1(1,3) have q: "q1 \<in> set (turns d)" "\<not> expired_rival d now sc tid q1"
    by (auto simp: set_update_where occupies_def status_simps split: if_splits)
  have other: "t_id q1 \<noteq> tid"
    using q1(1,2) r1 turn ids by (auto simp: is_turn_def dest: distinct_map_eqD)
  have rs: "t_stream r \<noteq> None" using occ by (simp add: occupies_def)
  have "List.find (\<lambda>t. is_turn sc tid t \<and> t_stream t \<noteq> None) (turns d) = Some r"
    using r(1) turn rs store_ok_ids [OF ok]
    by (intro find_by_key [where k = t_id]) (auto simp: is_turn_def)
  moreover have "streamNotHumanControlled d sc q1"
    using claim_condD(5) [OF r(2)] q1(4)
    by (simp add: streamNotHumanControlled_def human_hold_def [abs_def] stream_slot_def)
  ultimately have "\<not> (t_lease q1 \<noteq> None \<and> lease_expired now q1)"
    using q(2) other q1(3,4) turn rs
    by (auto simp: expired_rival_def occupies_def stream_slot_def is_turn_def in_scope_def eq_null_def)
  with q(1) other q1(3,4) show ?thesis by blast
qed

text \<open>The truth of a reason, for a turn that exists.\<close>

definition reason_true ::
    "db \<Rightarrow> instant \<Rightarrow> scope \<Rightarrow> turn \<Rightarrow> claim_rejection \<Rightarrow> (uuid \<times> turn_status) option \<Rightarrow> bool" where
  "reason_true d now sc r reason head_block =
     (case reason of
        CR_Not_Found \<Rightarrow> False
      | CR_Conversation_Human_Control \<Rightarrow> \<not> streamNotHumanControlled d sc r
      | CR_Stream_Poisoned \<Rightarrow>
          (\<exists>b \<in> set (blocks d). active_block sc r b \<and> head_block = Some (b_turn b, Dead_Letter))
      | CR_Stream_Blocked \<Rightarrow>
          (\<exists>h \<in> set (turns d). anterioresNaoTerminais sc r h \<and> t_status h = Outbound_Pending
             \<and> head_block = Some (t_id h, Outbound_Pending))
      | CR_Not_Head \<Rightarrow>
          (\<exists>h \<in> set (turns d). anterioresNaoTerminais sc r h \<and> t_status h \<noteq> Outbound_Pending
             \<and> map_option fst head_block = Some (t_id h))
      | CR_Stream_Busy \<Rightarrow> claimable_now now r \<and>
          (\<exists>q \<in> set (turns d). t_id q \<noteq> t_id r \<and> occupies q \<and> stream_slot q = stream_slot r
             \<and> \<not> (t_lease q \<noteq> None \<and> lease_expired now q))
      | CR_Not_Eligible \<Rightarrow> \<not> claimable_now now r
          \<and> streamNotPoisoned d sc r \<and> streamNotHumanControlled d sc r)"

text \<open>No human and no block: an earlier turn of the stream, or the turn itself, is the reason.\<close>

lemma explained_free:
  fixes d d1 now sc tid
  defines "d1 \<equiv> snd (recoverExpiredStreamClaims now sc tid d)"
  assumes ids: "distinct (map t_id (turns d))" and found: "findById d sc tid = Some r"
    and no: "\<not> claim_cond cfg d now sc tid r"
    and unheld: "List.find (human_hold sc r) (controls d) = None"
    and clean: "List.find (active_block sc r) (blocks d) = None"
    and f: "f = explainClaimRejection cfg sc tid trail d1"
  shows "reason_true d now sc r (cf_reason f) (cf_head_block f)"
proof -
  have human: "streamNotHumanControlled d sc r"
    using unheld by (auto simp: streamNotHumanControlled_def list_ex_iff find_None_iff_all)
  have poison: "streamNotPoisoned d sc r"
    using clean by (auto simp: streamNotPoisoned_def list_ex_iff find_None_iff_all)
  note probes = findById_recover [OF ids] humanControlProbe_def streamPoisonProbe_def found
  show ?thesis
  proof (cases "headOfLineEnabled cfg \<and> \<not> isTerminalTurnStatus (t_status r) \<and>
      earlierLiveTurnProbe d1 sc tid \<noteq> None")
    case True
    then obtain h' where h': "earlierLiveTurnProbe d1 sc tid = Some h'" by auto
    from earlier_probe_recover [OF ids found h' [unfolded d1_def]] obtain h
      where h: "h \<in> set (turns d)" "anterioresNaoTerminais sc r h" "t_id h = t_id h'"
        "t_status h = Outbound_Pending \<longleftrightarrow> t_status h' = Outbound_Pending" by blast
    with f unheld clean True h' show ?thesis
      by (auto simp: explainClaimRejection_def probes reason_true_def d1_def intro!: bexI [of _ h])
  next
    case False
    then have "\<not> claimable_now now r"
      using not_claimable [OF ids found no poison human] unfolding d1_def by blast
    with f unheld clean False poison human show ?thesis
      by (auto simp: explainClaimRejection_def probes reason_true_def d1_def)
  qed
qed

lemma explained:
  assumes ids: "distinct (map t_id (turns d))" and found: "findById d sc tid = Some r"
    and no: "\<not> claim_cond cfg d now sc tid r"
    and f: "f = explainClaimRejection cfg sc tid trail (snd (recoverExpiredStreamClaims now sc tid d))"
  shows "reason_true d now sc r (cf_reason f) (cf_head_block f)"
proof -
  note probes = findById_recover [OF ids] humanControlProbe_def streamPoisonProbe_def found
  show ?thesis
  proof (cases "List.find (human_hold sc r) (controls d)")
    case held: (Some c)
    then have "\<not> streamNotHumanControlled d sc r"
      by (auto simp: streamNotHumanControlled_def list_ex_iff human_hold_def dest!: find_SomeD)
    with f held show ?thesis by (simp add: explainClaimRejection_def probes reason_true_def)
  next
    case unheld: None
    show ?thesis
    proof (cases "List.find (active_block sc r) (blocks d)")
      case poisoned: (Some b)
      with f unheld find_SomeD [OF poisoned] show ?thesis
        by (auto simp: explainClaimRejection_def probes reason_true_def)
    next
      case clean: None
      from ids found no unheld clean f show ?thesis by (rule explained_free)
    qed
  qed
qed

text \<open>
  C5. A refusal says why, and the reason is true of the database: \<open>Not_Found\<close> when the scope has
  no such turn, \<open>Conversation_Human_Control\<close> when a human holds the stream, \<open>Stream_Poisoned\<close> when
  it is blocked (naming the turn that poisoned it), \<open>Stream_Blocked\<close> or \<open>Not_Head\<close> when an earlier
  turn of the stream, which is named, is alive (blocked when it is waiting for its outbound), \<open>Stream_Busy\<close>
  when another turn occupies the stream and its lease has not expired, and \<open>Not_Eligible\<close>
  only when the stream is free and the turn itself is not claimable at this instant.
\<close>

theorem claim_refusal_true:
  assumes "claimNextEligibleTurn cfg now sc tid w ms k d = (Inl f, d')" and "store_ok d"
  shows "case findById d sc tid of
      None \<Rightarrow> cf_reason f = CR_Not_Found
    | Some r \<Rightarrow>
        (case cf_reason f of
           CR_Not_Found \<Rightarrow> False
         | CR_Conversation_Human_Control \<Rightarrow> \<not> streamNotHumanControlled d sc r
         | CR_Stream_Poisoned \<Rightarrow>
             (\<exists>b \<in> set (blocks d). active_block sc r b \<and> cf_head_block f = Some (b_turn b, Dead_Letter))
         | CR_Stream_Blocked \<Rightarrow>
             (\<exists>h \<in> set (turns d). anterioresNaoTerminais sc r h \<and> t_status h = Outbound_Pending
                \<and> cf_head_block f = Some (t_id h, Outbound_Pending))
         | CR_Not_Head \<Rightarrow>
             (\<exists>h \<in> set (turns d). anterioresNaoTerminais sc r h \<and> t_status h \<noteq> Outbound_Pending
                \<and> map_option fst (cf_head_block f) = Some (t_id h))
         | CR_Stream_Busy \<Rightarrow> claimable_now now r \<and>
             (\<exists>q \<in> set (turns d). t_id q \<noteq> tid \<and> occupies q \<and> stream_slot q = stream_slot r
                \<and> \<not> (t_lease q \<noteq> None \<and> lease_expired now q))
         | CR_Not_Eligible \<Rightarrow> \<not> claimable_now now r
             \<and> streamNotPoisoned d sc r \<and> streamNotHumanControlled d sc r)"
proof -
  note ids = store_ok_ids [OF assms(2)]
  have "case findById d sc tid of None \<Rightarrow> cf_reason f = CR_Not_Found
    | Some r \<Rightarrow> t_id r = tid \<and> reason_true d now sc r (cf_reason f) (cf_head_block f)"
    using assms(1)
  proof (cases rule: claimNext_cases)
    case (busy r)
    have "findById d sc tid = Some r" and "t_id r = tid"
      using busy(3) claim_condD(1) [OF busy(4)] ids by (auto simp: findById_iff)
    with busy(1) claim_condD(2) [OF busy(4)] busy_rival [OF assms(2) busy(3-5)] show ?thesis
      by (simp add: reason_true_def)
  next
    case (refused why)
    show ?thesis
    proof (cases "findById d sc tid")
      case None
      with refused ids show ?thesis by (simp add: explainClaimRejection_def findById_recover)
    next
      case (Some r)
      then have "r \<in> set (turns d)" "t_id r = tid" by (auto simp: findById_iff [OF ids])
      with Some refused explained [OF ids Some _ refl, of cfg now] show ?thesis by simp
    qed
  qed simp_all
  then show ?thesis unfolding reason_true_def by (auto split: option.splits)
qed

theorem claim_refusal_true_witness:
  "\<exists>h \<in> set (turns (demo_db [demo_turn 1 Outbound_Pending None 1, demo_turn 2 Received None 2])).
     anterioresNaoTerminais demo_scope (demo_turn 2 Received None 2) h \<and> t_status h = Outbound_Pending"
proof -
  let ?d = "demo_db [demo_turn 1 Outbound_Pending None 1, demo_turn 2 Received None 2]"
  let ?run = "claimNextEligibleTurn demo_config 50 demo_scope 2 ''w'' 30 9 ?d"
  have "(case fst ?run of Inl f \<Rightarrow> cf_reason f = CR_Stream_Blocked | _ \<Rightarrow> False)" by code_simp
  then obtain f where f: "fst ?run = Inl f" "cf_reason f = CR_Stream_Blocked"
    by (auto split: sum.splits)
  then have run: "?run = (Inl f, snd ?run)" by (metis prod.collapse)
  have ok: "store_ok ?d"
    by (simp add: store_ok_def demo_simps row_checks_def agent_turns_superseded_by_chk_def
        agent_turns_stream_active_uq_def occupies_def status_simps)
  have "findById ?d demo_scope 2 = Some (demo_turn 2 Received None 2)" 
    by (simp add: findById_def is_turn_def in_scope_def demo_simps)
  with claim_refusal_true [OF run ok] f(2) show ?thesis by auto
qed



text \<open>
  Only the holder of a live lease renews it: a renewal that answers moves the lease of exactly
  the turn that carries the token, in a state of execution, whose lease was still running, to
  the length asked for; otherwise nothing changes, and an expired lease is never revived.
\<close>

lemma renewal_only_by_holder:
  "case renewTurnLease now sc tid k ms d of
     (Some (lease, at), d') \<Rightarrow> lease = now + ms \<and> at = now
       \<and> list_ex (\<lambda>r. is_turn sc tid r \<and> t_token r = Some k
            \<and> t_status r \<in> {Claimed, Running, Outbound_Pending} \<and> lease_live now r) (turns d)
       \<and> turns d' = map (\<lambda>r. if is_turn sc tid r \<and> t_token r = Some k
            \<and> t_status r \<in> {Claimed, Running, Outbound_Pending} \<and> lease_live now r
            then r\<lparr>t_lease := Some lease, t_heartbeat := Some now, t_updated_at := now\<rparr> else r) (turns d)
   | (None, d') \<Rightarrow> d' = d
       \<and> \<not> list_ex (\<lambda>r. is_turn sc tid r \<and> t_token r = Some k
            \<and> t_status r \<in> {Claimed, Running, Outbound_Pending} \<and> lease_live now r) (turns d)"
proof -
  have c: "renew_cond now sc tid k = (\<lambda>r. is_turn sc tid r \<and> t_token r = Some k
      \<and> t_status r \<in> {Claimed, Running, Outbound_Pending} \<and> lease_live now r)"
    by (rule ext) (simp add: renew_cond_def status_simps)
  show ?thesis by (simp add: renewTurnLease_def c update_where_def)
qed

end
