(* ===== verification/Turn_Ingress.thy ===== *)
theory Turn_Ingress
  imports Turn_Transition
begin

text \<open>
  The ways turns, inputs and windows come into being in src/db/repositories/turn-repos.ts: the
  per-stream sequence, the atomic ingress of a message with its turn, inputs attached later, the
  persistent debounce window (armed with the ingress, closed by the sweeper), and the manual
  unblocking of a stream (stream-block-repos.ts). Fresh ids are the arguments that stand for
  \<open>gen_random_uuid()\<close>.
\<close>

datatype ingress_exception =
    Tenant_Mismatch | Agent_Mismatch | Message_Not_Unique | Turn_Key_Taken | Turn_Not_Readable

section \<open>The tenant guard (src/db/tenant-guard.ts)\<close>

text \<open>An absent tenant or agent of the input is the empty string, which is falsy as well.\<close>

definition applyTenantGuard ::
    "scope \<Rightarrow> string \<Rightarrow> string \<Rightarrow> ingress_exception + scope" where
  "applyTenantGuard sc input_tenant input_agent =
     (if input_tenant \<noteq> [] \<and> input_tenant \<noteq> fst sc then Inl Tenant_Mismatch
      else if input_agent \<noteq> [] \<and> input_agent \<noteq> snd sc then Inl Agent_Mismatch
      else Inr sc)"

section \<open>The sequence of a stream\<close>

definition is_sequence :: "scope \<Rightarrow> string \<Rightarrow> stream_sequence \<Rightarrow> bool" where
  "is_sequence sc stream s = (s_tenant s = fst sc \<and> s_agent s = snd sc \<and> s_stream s = stream)"

definition allocateIngressSeq :: "scope \<Rightarrow> string \<times> nat \<Rightarrow> db \<Rightarrow> nat \<times> db" where
  "allocateIngressSeq sc stream d =
     (case List.find (is_sequence sc (fst stream)) (sequences d) of
        Some s \<Rightarrow>
          (s_last_seq s + 1,
           d\<lparr>sequences := update_where (is_sequence sc (fst stream))
               (\<lambda>q. q\<lparr>s_last_seq := s_last_seq q + 1\<rparr>) (sequences d)\<rparr>)
      | None \<Rightarrow>
          (1, d\<lparr>sequences := sequences d @
                 [\<lparr>s_tenant = fst sc, s_agent = snd sc, s_stream = fst stream,
                   s_stream_version = snd stream, s_last_seq = 1\<rparr>]\<rparr>))"

section \<open>Ingress of a message\<close>

text \<open>
  The unique indexes of \<open>mensagens\<close>: (channel, WhatsApp id) where there is a channel,
  (tenant, agent, WhatsApp id) where there is none (migration 090), and
  (tenant, agent, stream, sequence) (migration 122).
\<close>

definition messages_collide :: "message \<Rightarrow> message \<Rightarrow> bool" where
  "messages_collide m q =
     (m_id m = m_id q
      \<or> m_whatsapp m \<noteq> None \<and> m_whatsapp m = m_whatsapp q
          \<and> (m_channel m \<noteq> None \<and> m_channel m = m_channel q
             \<or> m_channel m = None \<and> m_channel q = None
                \<and> m_tenant m = m_tenant q \<and> m_agent m = m_agent q)
      \<or> m_stream m \<noteq> None \<and> m_stream m = m_stream q \<and> m_seq m = m_seq q
          \<and> m_tenant m = m_tenant q \<and> m_agent m = m_agent q)"

definition insert_message :: "message \<Rightarrow> db \<Rightarrow> ingress_exception + db" where
  "insert_message m d =
     (if list_ex (messages_collide m) (messages d) then Inl Message_Not_Unique
      else Inr (d\<lparr>messages := messages d @ [m]\<rparr>))"

definition received_turn ::
    "instant \<Rightarrow> scope \<Rightarrow> uuid \<Rightarrow> message \<Rightarrow> instant option \<Rightarrow> (string \<times> nat \<times> nat) option \<Rightarrow> turn" where
  "received_turn now sc turn_id m deadline stream =
     \<lparr>t_id = turn_id, t_tenant = fst sc, t_agent = snd sc, t_conversa = m_conversa m,
      t_channel = m_channel m, t_message = m_id m, t_status = Received, t_outcome = None,
      t_superseded_by = None, t_version = 0, t_attempts = 0, t_next_attempt = None,
      t_error_code = None, t_error_summary = None, t_claimed_by = None, t_token = None,
      t_lease = None, t_heartbeat = None, t_deadline = deadline, t_outbound = None,
      t_queued_at = None, t_claimed_at = None, t_started_at = None, t_committed_at = None,
      t_completed_at = None, t_dead_at = None, t_created_at = now, t_updated_at = now,
      t_stream = map_option fst stream, t_stream_version = map_option (fst \<circ> snd) stream,
      t_first_seq = map_option (snd \<circ> snd) stream, t_last_seq = map_option (snd \<circ> snd) stream,
      t_promoted_at = None, t_promoted_by = None, t_window_opened = None,
      t_window_deadline = None, t_window_closed = None, t_batch_size = None\<rparr>"

text \<open>\<open>INSERT INTO agent_turn_inputs .. ON CONFLICT DO NOTHING\<close>: a message has one input row.\<close>

definition insert_input :: "uuid \<Rightarrow> scope \<Rightarrow> uuid \<Rightarrow> uuid \<Rightarrow> nat \<Rightarrow> db \<Rightarrow> bool \<times> db" where
  "insert_input input_id sc turn_id message_id seq d =
     (if list_ex (\<lambda>i. i_message i = message_id \<or> i_id i = input_id) (inputs d) then (False, d)
      else (True, d\<lparr>inputs := inputs d @
              [\<lparr>i_id = input_id, i_tenant = fst sc, i_agent = snd sc, i_turn = turn_id,
                i_message = message_id, i_seq = seq\<rparr>]\<rparr>))"

definition attachInputTx :: "uuid \<Rightarrow> scope \<Rightarrow> uuid \<Rightarrow> uuid \<Rightarrow> nat \<Rightarrow> db \<Rightarrow> bool \<times> db" where
  "attachInputTx input_id sc turn_id message_id seq d =
     insert_input input_id sc turn_id message_id seq d"

text \<open>
  \<open>createTurnForMessage\<close>: the unique index on the representative message gives back the turn that
  is there; a primary key that is taken raises.
\<close>

definition createTurnForMessage ::
    "instant \<Rightarrow> scope \<Rightarrow> uuid \<Rightarrow> uuid \<Rightarrow> message \<Rightarrow> instant option \<Rightarrow> (string \<times> nat \<times> nat) option \<Rightarrow> db
       \<Rightarrow> ingress_exception + turn \<times> db" where
  "createTurnForMessage now sc turn_id input_id m deadline stream d =
     (if list_ex (\<lambda>t. t_message t = m_id m) (turns d)
      then (case List.find (\<lambda>t. in_scope sc t \<and> t_message t = m_id m) (turns d) of
              None \<Rightarrow> Inl Turn_Not_Readable
            | Some t \<Rightarrow> Inr (t, snd (insert_input input_id sc (t_id t) (m_id m) 0 d)))
      else if list_ex (\<lambda>t. t_id t = turn_id) (turns d) then Inl Turn_Key_Taken
      else
        (let t = received_turn now sc turn_id m deadline stream
         in Inr (t, snd (insert_input input_id sc (t_id t) (m_id m) 0
                           (d\<lparr>turns := turns d @ [t]\<rparr>)))))"

section \<open>The debounce window\<close>

definition debounceDeadlineExpression :: "turn_config \<Rightarrow> instant \<Rightarrow> instant option \<Rightarrow> instant" where
  "debounceDeadlineExpression cfg now opened_at =
     (case opened_at of
        None \<Rightarrow> now + MESSAGE_DEBOUNCE_MS cfg
      | Some o_at \<Rightarrow> min (now + MESSAGE_DEBOUNCE_MS cfg) (o_at + MESSAGE_DEBOUNCE_MAX_MS cfg))"

fun min_opened :: "turn list \<Rightarrow> instant option" where
  "min_opened [] = None"
| "min_opened (r # rs) = least_null (t_window_opened r) (min_opened rs)"

definition armDebounceWindowTx ::
    "turn_config \<Rightarrow> instant \<Rightarrow> scope \<Rightarrow> uuid \<Rightarrow> string \<Rightarrow> db \<Rightarrow> db" where
  "armDebounceWindowTx cfg now sc turn_id stream d =
     (let ts = update_where (\<lambda>r. is_turn sc turn_id r \<and> t_window_opened r = None)
                 (\<lambda>r. r\<lparr>t_window_opened := Some now, t_updated_at := now\<rparr>) (turns d);
          janela = filter (openDebounceWindowMembers sc stream) ts;
          deadline = debounceDeadlineExpression cfg now (min_opened janela)
      in d\<lparr>turns := update_where (openDebounceWindowMembers sc stream)
             (\<lambda>r. r\<lparr>t_window_deadline := Some deadline, t_updated_at := now\<rparr>) ts\<rparr>)"

text \<open>The row of the message, owned by the scope of the context, and its place in the stream.\<close>

definition inbound_row ::
    "scope \<Rightarrow> message \<Rightarrow> uuid option \<Rightarrow> (string \<times> nat) option \<Rightarrow> nat option \<Rightarrow> message" where
  "inbound_row own mensagem channel stream seq =
     mensagem\<lparr>m_tenant := fst own, m_agent := snd own,
       m_channel := (case channel of None \<Rightarrow> m_channel mensagem | Some c \<Rightarrow> Some c),
       m_stream := map_option fst stream,
       m_stream_version := map_option snd stream, m_seq := seq\<rparr>"

definition ingress_stream :: "(string \<times> nat) option \<Rightarrow> nat option \<Rightarrow> (string \<times> nat \<times> nat) option" where
  "ingress_stream stream seq =
     (case (stream, seq) of (Some s, Some q) \<Rightarrow> Some (fst s, snd s, q) | _ \<Rightarrow> None)"

definition createReceivedTurnTx ::
    "turn_config \<Rightarrow> instant \<Rightarrow> scope \<Rightarrow> message \<Rightarrow> uuid option \<Rightarrow> instant option
       \<Rightarrow> (string \<times> nat) option \<Rightarrow> uuid \<Rightarrow> uuid \<Rightarrow> db
       \<Rightarrow> ingress_exception + (message \<times> turn \<times> nat option) \<times> db" where
  "createReceivedTurnTx cfg now sc mensagem channel deadline stream turn_id input_id d =
     (let (seq, d1) = (case stream of
                         None \<Rightarrow> (None, d)
                       | Some s \<Rightarrow> map_prod Some id (allocateIngressSeq sc s d))
      in case applyTenantGuard sc (m_tenant mensagem) (m_agent mensagem) of
           Inl e \<Rightarrow> Inl e
         | Inr own \<Rightarrow>
        (let row = inbound_row own mensagem channel stream seq
         in case insert_message row d1 of
              Inl e \<Rightarrow> Inl e
            | Inr d2 \<Rightarrow>
          (case createTurnForMessage now sc turn_id input_id row deadline
                  (ingress_stream stream seq) d2 of
              Inl e \<Rightarrow> Inl e
            | Inr (turn, d3) \<Rightarrow>
               Inr ((row, turn, seq),
                 (case (stream, seq) of
                    (Some s, Some q) \<Rightarrow>
                      if debouncePersistidoAtivo cfg \<and> m_tipo mensagem = ''texto''
                      then armDebounceWindowTx cfg now sc (t_id turn) (fst s) d3 else d3
                  | _ \<Rightarrow> d3)))))"

definition createSequencedInboundTx ::
    "scope \<Rightarrow> message \<Rightarrow> uuid option \<Rightarrow> string \<times> nat \<Rightarrow> db
       \<Rightarrow> ingress_exception + (message \<times> nat) \<times> db" where
  "createSequencedInboundTx sc mensagem channel stream d =
     (let (seq, d1) = allocateIngressSeq sc stream d
      in case applyTenantGuard sc (m_tenant mensagem) (m_agent mensagem) of
           Inl e \<Rightarrow> Inl e
         | Inr own \<Rightarrow>
        (let row = inbound_row own mensagem channel (Some stream) (Some seq)
         in case insert_message row d1 of
              Inl e \<Rightarrow> Inl e
            | Inr d2 \<Rightarrow> Inr ((row, seq), d2)))"

definition ensureTurnForMessage ::
    "instant \<Rightarrow> scope \<Rightarrow> uuid \<Rightarrow> uuid \<Rightarrow> message \<Rightarrow> instant option \<Rightarrow> db
       \<Rightarrow> ingress_exception + turn \<times> db" where
  "ensureTurnForMessage now sc turn_id input_id m deadline d =
     createTurnForMessage now sc turn_id input_id m deadline None d"

section \<open>The boundary of an absorbing turn\<close>

fun seq_min :: "nat option list \<Rightarrow> nat option" where
  "seq_min [] = None"
| "seq_min (s # ss) = least_null s (seq_min ss)"

fun seq_max :: "nat option list \<Rightarrow> nat option" where
  "seq_max [] = None"
| "seq_max (s # ss) = greatest_null s (seq_max ss)"

definition boundary_seqs :: "db \<Rightarrow> scope \<Rightarrow> uuid list \<Rightarrow> turn \<Rightarrow> nat option list" where
  "boundary_seqs d sc mids t =
     map m_seq (filter (\<lambda>m. m_tenant m = fst sc \<and> m_agent m = snd sc \<and> m_id m \<in> set mids
                          \<and> eq_null (m_stream m) (t_stream t)) (messages d))"

definition extendTurnStreamBoundaryTx ::
    "instant \<Rightarrow> scope \<Rightarrow> uuid \<Rightarrow> uuid list \<Rightarrow> db \<Rightarrow> bool \<times> db" where
  "extendTurnStreamBoundaryTx now sc turn_id mids d =
     (if mids = [] then (False, d)
      else
        (let cond = (\<lambda>t. is_turn sc turn_id t \<and> t_stream t \<noteq> None \<and> t_first_seq t \<noteq> None)
         in (length (filter cond (turns d)) = 1,
             d\<lparr>turns := update_where cond
                (\<lambda>t. t\<lparr>t_first_seq :=
                         least_null (t_first_seq t) (seq_min (boundary_seqs d sc mids t)),
                       t_last_seq :=
                         greatest_null (t_last_seq t) (seq_max (boundary_seqs d sc mids t)),
                       t_updated_at := now\<rparr>) (turns d)\<rparr>)))"

section \<open>Closing a due batch\<close>

datatype close_refusal =
    Stream_Locked | No_Window | Not_Due | Lost_Race | Close_Human_Control

record batch_closed =
  bc_head :: stream_promotion
  bc_size :: nat
  bc_absorbed_turns :: "uuid list"
  bc_absorbed_messages :: "uuid list"

text \<open>
  \<open>debounceBatchPrefix\<close>: the open members in sequence order, up to the first gap between the last
  sequence of a member and the first of the next.
\<close>

fun contiguous_prefix :: "turn list \<Rightarrow> turn list" where
  "contiguous_prefix [] = []"
| "contiguous_prefix [r] = [r]"
| "contiguous_prefix (r # q # rest) =
     (if t_last_seq r \<noteq> None \<and> the (t_first_seq q) \<noteq> the (t_last_seq r) + 1 then [r]
      else r # contiguous_prefix (q # rest))"

definition debounceBatchPrefix :: "scope \<Rightarrow> string \<Rightarrow> db \<Rightarrow> turn list" where
  "debounceBatchPrefix sc stream d =
     contiguous_prefix
       (sort_key (\<lambda>r. the (t_first_seq r))
         (filter (openDebounceWindowMembers sc stream) (turns d)))"

text \<open>The inputs of the absorbed turns in the order \<open>ROW_NUMBER() OVER (ORDER BY m.ingress_seq)\<close>.\<close>

definition message_of :: "db \<Rightarrow> scope \<Rightarrow> turn_input \<Rightarrow> message option" where
  "message_of d sc i =
     List.find (\<lambda>m. m_id m = i_message i \<and> m_tenant m = fst sc \<and> m_agent m = snd sc) (messages d)"

definition absorbed_inputs :: "db \<Rightarrow> scope \<Rightarrow> uuid list \<Rightarrow> turn_input list" where
  "absorbed_inputs d sc absorbed =
     (let mine = filter (\<lambda>i. i_tenant i = fst sc \<and> i_agent i = snd sc \<and> i_turn i \<in> set absorbed
                            \<and> message_of d sc i \<noteq> None) (inputs d);
          seq = (\<lambda>i. m_seq (the (message_of d sc i)))
      in sort_key (\<lambda>i. the (seq i)) (filter (\<lambda>i. seq i \<noteq> None) mine)
         @ filter (\<lambda>i. seq i = None) mine)"

fun rank_from :: "nat \<Rightarrow> uuid \<Rightarrow> turn_input list \<Rightarrow> nat option" where
  "rank_from n iid [] = None"
| "rank_from n iid (i # rest) = (if i_id i = iid then Some n else rank_from (Suc n) iid rest)"

definition repoint_inputs :: "scope \<Rightarrow> uuid \<Rightarrow> turn_input list \<Rightarrow> turn_input list \<Rightarrow> turn_input list" where
  "repoint_inputs sc head ranked is =
     map (\<lambda>i. if i_tenant i = fst sc \<and> i_agent i = snd sc
               then (case rank_from 1 (i_id i) ranked of
                       None \<Rightarrow> i
                     | Some n \<Rightarrow> i\<lparr>i_turn := head, i_seq := n\<rparr>)
               else i) is"

definition batch_last_seq :: "turn \<Rightarrow> turn list \<Rightarrow> nat" where
  "batch_last_seq head members =
     fold (\<lambda>m acc. max acc (coalesce (t_last_seq m) 0)) members (coalesce (t_last_seq head) 0)"

definition close_head_cond :: "db \<Rightarrow> scope \<Rightarrow> turn \<Rightarrow> turn \<Rightarrow> bool" where
  "close_head_cond d sc head u =
     (is_turn sc (t_id head) u \<and> t_version u = t_version head \<and> t_window_closed u = None
      \<and> t_status u \<in> set CLAIMABLE_STATUSES \<and> streamNotHumanControlled d sc u)"

definition closed_head_row :: "instant \<Rightarrow> nat \<Rightarrow> nat \<Rightarrow> turn \<Rightarrow> turn" where
  "closed_head_row now last_seq batch u = u\<lparr>
     t_status := Queued,
     t_queued_at := Some (coalesce (t_queued_at u) now),
     t_last_seq := greatest_null (t_last_seq u) (Some last_seq),
     t_window_closed := Some now,
     t_batch_size := Some batch,
     t_promoted_at := Some now,
     t_next_attempt := None,
     t_version := t_version u + (if t_status u = Queued then 0 else 1),
     t_updated_at := now\<rparr>"

definition sibling_cond :: "scope \<Rightarrow> turn list \<Rightarrow> turn \<Rightarrow> bool" where
  "sibling_cond sc siblings u =
     (t_id u \<in> t_id ` set siblings \<and> in_scope sc u \<and> t_window_closed u = None
      \<and> t_status u \<notin> set TERMINAL_TURN_STATUSES)"

definition superseded_row :: "instant \<Rightarrow> uuid \<Rightarrow> turn \<Rightarrow> turn" where
  "superseded_row now head u = u\<lparr>
     t_status := Superseded,
     t_outcome := Some Merged_Into_Turn,
     t_superseded_by := Some head,
     t_window_closed := Some now,
     t_version := t_version u + 1,
     t_updated_at := now\<rparr>"

text \<open>The clean-up that comes first: windows of turns that already ended are closed.\<close>

definition close_ended_windows :: "instant \<Rightarrow> scope \<Rightarrow> string \<Rightarrow> db \<Rightarrow> db" where
  "close_ended_windows now sc stream d =
     d\<lparr>turns := update_where
        (\<lambda>u. in_scope sc u \<and> t_stream u = Some stream \<and> t_window_opened u \<noteq> None
           \<and> t_window_closed u = None \<and> t_status u \<in> set TERMINAL_TURN_STATUSES)
        (\<lambda>u. u\<lparr>t_window_closed := Some now, t_updated_at := now\<rparr>) (turns d)\<rparr>"

definition absorb_siblings ::
    "instant \<Rightarrow> scope \<Rightarrow> uuid \<Rightarrow> turn list \<Rightarrow> db \<Rightarrow> (uuid list \<times> uuid list) \<times> db" where
  "absorb_siblings now sc head siblings d =
     (let absorbed = map t_id (filter (sibling_cond sc siblings) (turns d));
          d1 = d\<lparr>turns := update_where (sibling_cond sc siblings) (superseded_row now head)
                            (turns d)\<rparr>;
          ranked = absorbed_inputs d1 sc absorbed
      in if siblings = [] \<or> absorbed = [] then ((absorbed, []), d1)
         else ((absorbed, map i_message ranked),
               d1\<lparr>inputs := repoint_inputs sc head ranked (inputs d1)\<rparr>))"

text \<open>
  \<open>closeDueDebounceBatchTx\<close>. \<open>lock_free\<close> says whether no other transaction holds the row lock of
  the stream's sequence (\<open>FOR UPDATE SKIP LOCKED\<close>).
\<close>

definition closeDueDebounceBatchTx ::
    "instant \<Rightarrow> scope \<Rightarrow> bool \<Rightarrow> string \<Rightarrow> db \<Rightarrow> (close_refusal + batch_closed) \<times> db" where
  "closeDueDebounceBatchTx now sc lock_free stream d =
     (if \<not> (lock_free \<and> list_ex (is_sequence sc stream) (sequences d))
      then (Inl Stream_Locked, d)
      else
        (let d1 = close_ended_windows now sc stream d;
             members = debounceBatchPrefix sc stream d1
         in case members of
              [] \<Rightarrow> (Inl No_Window, d1)
            | head # siblings \<Rightarrow>
                if humanControlProbe d1 sc (t_id head) \<noteq> None then (Inl Close_Human_Control, d1)
                else if \<not> list_ex (debounceWindowDue now) members then (Inl Not_Due, d1)
                else
                  (case List.find (close_head_cond d1 sc head) (turns d1) of
                     None \<Rightarrow> (Inl Lost_Race, d1)
                   | Some u \<Rightarrow>
                       (let d2 = d1\<lparr>turns := update_where (close_head_cond d1 sc head)
                              (closed_head_row now (batch_last_seq head members)
                                 (length members)) (turns d1)\<rparr>;
                            ((absorbed, absorbed_msgs), d3) =
                              absorb_siblings now sc (t_id head) siblings d2
                        in (Inr \<lparr>bc_head = \<lparr>sp_turn = t_id u, sp_message = t_message u,
                                    sp_conversa = t_conversa u, sp_before = t_status head,
                                    sp_after = Queued\<rparr>,
                                 bc_size = length members,
                                 bc_absorbed_turns = absorbed,
                                 bc_absorbed_messages = absorbed_msgs\<rparr>, d3)))))"

section \<open>Unblocking a stream (stream-block-repos.ts)\<close>

definition unblockTx ::
    "instant \<Rightarrow> scope \<Rightarrow> uuid \<Rightarrow> string \<Rightarrow> string \<Rightarrow> db
       \<Rightarrow> (stream_block \<times> (uuid \<times> uuid \<times> uuid option) option) option \<times> db" where
  "unblockTx now sc block_id actor reason d =
     (let cond = (\<lambda>b. b_tenant b = fst sc \<and> b_agent b = snd sc \<and> b_id b = block_id
                    \<and> b_unblocked_at b = None);
          upd = (\<lambda>b. b\<lparr>b_unblocked_at := Some now, b_unblocked_by := Some actor,
                       b_unblock_reason := Some reason\<rparr>)
      in case List.find cond (blocks d) of
           None \<Rightarrow> (None, d)
         | Some b \<Rightarrow>
             (Some (upd b,
                map_option (\<lambda>t. (t_id t, t_message t, t_conversa t))
                  (first_by (\<lambda>t. the (t_first_seq t))
                    (filter (\<lambda>t. in_scope sc t \<and> t_stream t = Some (b_stream b)
                               \<and> t_status t \<notin> set TERMINAL_TURN_STATUSES
                               \<and> t_first_seq t \<noteq> None) (turns d)))),
              d\<lparr>blocks := update_where cond upd (blocks d)\<rparr>))"

section \<open>The ingress keeps the contract of the table\<close>

lemma allocateIngressSeq_turns [simp]: "turns (snd (allocateIngressSeq sc s d)) = turns d"
  by (simp add: allocateIngressSeq_def split: option.splits)

lemma insert_input_turns [simp]: "turns (snd (insert_input iid sc tid mid n d)) = turns d"
  by (simp add: insert_input_def)

lemma insert_message_turns: "insert_message m d = Inr d' \<Longrightarrow> turns d' = turns d"
  by (auto simp: insert_message_def split: if_splits)

lemma allocateIngressSeq_confined [simp]:
  "foreign_tables sc (snd (allocateIngressSeq sc s d)) = foreign_tables sc d"
  by (simp add: allocateIngressSeq_def foreign_tables_def split: option.split)
    (intro allI impI, rule filter_update_where_same; simp add: is_sequence_def)

lemma insert_input_confined [simp]:
  "foreign_tables sc (snd (insert_input iid sc tid mid n d)) = foreign_tables sc d"
  by (simp add: insert_input_def foreign_tables_def)

lemma insert_message_confined:
  "insert_message m d = Inr d' \<Longrightarrow> (m_tenant m, m_agent m) = sc \<Longrightarrow>
     foreign_tables sc d' = foreign_tables sc d"
  by (auto simp: insert_message_def foreign_tables_def split: if_splits)

lemma received_turn_simps [simp]:
  "t_id (received_turn now sc tid m dl st) = tid" "t_status (received_turn now sc tid m dl st) = Received"
  "t_outcome (received_turn now sc tid m dl st) = None"
  "t_superseded_by (received_turn now sc tid m dl st) = None"
  "t_token (received_turn now sc tid m dl st) = None"
  "t_stream (received_turn now sc tid m dl st) = map_option fst st"
  "t_first_seq (received_turn now sc tid m dl st) = map_option (snd \<circ> snd) st"
  "in_scope sc (received_turn now sc tid m dl st)"
  by (simp_all add: received_turn_def in_scope_def)

lemma received_new_row: "new_row sc fresh (received_turn now sc tid m dl st)"
  by (simp add: new_row_def row_checks_def agent_turns_superseded_by_chk_def)

lemma createTurnForMessage_cases:
  assumes "createTurnForMessage now sc tid iid m dl st d = Inr (t, d')"
  obtains (present) "turns d' = turns d" and "t \<in> set (turns d)"
  | (created) "turns d' = turns d @ [received_turn now sc tid m dl st]"
      and "t = received_turn now sc tid m dl st" and "\<forall>q \<in> set (turns d). t_id q \<noteq> tid"
proof (cases "list_ex (\<lambda>q. t_message q = m_id m) (turns d)")
  case True
  with assms obtain q where q: "List.find (\<lambda>q. in_scope sc q \<and> t_message q = m_id m) (turns d) = Some q"
    by (cases "List.find (\<lambda>q. in_scope sc q \<and> t_message q = m_id m) (turns d)")
      (simp_all add: createTurnForMessage_def)
  with assms True have t: "t = q" "d' = snd (insert_input iid sc (t_id q) (m_id m) 0 d)"
    by (simp_all add: createTurnForMessage_def) blast
  show ?thesis by (rule present) (simp_all add: t find_SomeD [OF q])
next
  case False
  with assms have fresh: "\<not> list_ex (\<lambda>q. t_id q = tid) (turns d)"
    by (simp add: createTurnForMessage_def split: if_splits)
  with assms False have t: "t = received_turn now sc tid m dl st"
    "d' = snd (insert_input iid sc tid (m_id m) 0
                 (d\<lparr>turns := turns d @ [received_turn now sc tid m dl st]\<rparr>))"
    by (simp_all add: createTurnForMessage_def Let_def) blast
  show ?thesis by (rule created) (use fresh in \<open>simp_all add: t list_ex_iff\<close>)
qed

lemma createTurnForMessage_evolves:
  assumes "createTurnForMessage now sc tid iid m dl st d = Inr (t, d')"
  shows "db_evolves by_hand sc fresh d d'"
  using assms
proof (cases rule: createTurnForMessage_cases)
  case present
  then show ?thesis by auto
next
  case created
  show ?thesis
    by (rule db_evolvesI [where rs = "turns d" and new = "[received_turn now sc tid m dl st]"])
      (use created received_new_row in \<open>auto simp: list.rel_refl\<close>)
qed

lemma createTurnForMessage_uq:
  assumes "createTurnForMessage now sc tid iid m dl st d = Inr (t, d')"
    and "agent_turns_stream_active_uq (turns d)"
  shows "agent_turns_stream_active_uq (turns d')"
  using assms(1)
proof (cases rule: createTurnForMessage_cases)
  case present
  with assms(2) show ?thesis by simp
next
  case created
  then show ?thesis using assms(2) by (simp add: uq_append occupies_def status_simps)
qed

lemma createTurnForMessage_confined:
  "createTurnForMessage now sc tid iid m dl st d = Inr (t, d') \<Longrightarrow>
     foreign_tables sc d' = foreign_tables sc d"
proof -
  assume "createTurnForMessage now sc tid iid m dl st d = Inr (t, d')"
  then have "d' = snd (insert_input iid sc (t_id t) (m_id m) 0 d) \<or>
      (\<exists>ts. d' = snd (insert_input iid sc (t_id t) (m_id m) 0 (d\<lparr>turns := ts\<rparr>)))"
    by (auto simp: createTurnForMessage_def Let_def split: if_splits option.splits
        simp del: received_turn_simps)
  then show ?thesis by auto
qed

text \<open>Arming a window touches its own columns only.\<close>

lemma arm_confined [simp]:
  "foreign_tables sc (armDebounceWindowTx cfg now sc tid stream d) = foreign_tables sc d"
  by (simp add: armDebounceWindowTx_def Let_def)

lemma arm_turns:
  "turns (armDebounceWindowTx cfg now sc tid stream d) =
     (let ts = update_where (\<lambda>r. is_turn sc tid r \<and> t_window_opened r = None)
                 (\<lambda>r. r\<lparr>t_window_opened := Some now, t_updated_at := now\<rparr>) (turns d)
      in update_where (openDebounceWindowMembers sc stream)
           (\<lambda>r. r\<lparr>t_window_deadline := Some (debounceDeadlineExpression cfg now
                    (min_opened (filter (openDebounceWindowMembers sc stream) ts))),
                  t_updated_at := now\<rparr>) ts)"
  by (simp add: armDebounceWindowTx_def Let_def)

lemma armDebounceWindowTx_evolves:
  "db_evolves by_hand sc fresh d (armDebounceWindowTx cfg now sc tid stream d)"
proof (rule db_evolves_trans)
  let ?e = "d\<lparr>turns := update_where (\<lambda>r. is_turn sc tid r \<and> t_window_opened r = None)
              (\<lambda>r. r\<lparr>t_window_opened := Some now, t_updated_at := now\<rparr>) (turns d)\<rparr>"
  show "db_evolves by_hand sc fresh d ?e"
    by (rule quiet_update_evolves [where p = "\<lambda>r. is_turn sc tid r \<and> t_window_opened r = None"
          and f = "\<lambda>r. r\<lparr>t_window_opened := Some now, t_updated_at := now\<rparr>"])
      (auto simp: quiet_def)
  show "db_evolves by_hand sc fresh ?e (armDebounceWindowTx cfg now sc tid stream d)"
    by (rule quiet_update_evolves [where p = "openDebounceWindowMembers sc stream"
          and f = "\<lambda>r. r\<lparr>t_window_deadline := Some (debounceDeadlineExpression cfg now
                    (min_opened (filter (openDebounceWindowMembers sc stream) (turns ?e)))),
                  t_updated_at := now\<rparr>"])
      (auto simp: arm_turns Let_def quiet_def openDebounceWindowMembers_def)
qed

lemma armDebounceWindowTx_uq:
  assumes "agent_turns_stream_active_uq (turns d)"
  shows "agent_turns_stream_active_uq (turns (armDebounceWindowTx cfg now sc tid stream d))"
  unfolding arm_turns Let_def
  by (intro quiet_update_uq) (simp_all add: assms quiet_def)

text \<open>The committed ingress: sequence, guard and message leave the turns alone.\<close>

lemma createReceivedTurnTx_Inr:
  assumes "createReceivedTurnTx cfg now sc m channel dl stream tid iid d = Inr ((row, t, seq), d')"
  obtains d1 d2 d3 where
    "(seq, d1) = (case stream of None \<Rightarrow> (None, d)
                   | Some s \<Rightarrow> map_prod Some id (allocateIngressSeq sc s d))"
    and "applyTenantGuard sc (m_tenant m) (m_agent m) = Inr sc"
    and "row = inbound_row sc m channel stream seq" and "insert_message row d1 = Inr d2"
    and "createTurnForMessage now sc tid iid row dl (ingress_stream stream seq) d2 = Inr (t, d3)"
    and "turns d2 = turns d"
    and "d' = d3 \<or> (\<exists>s. stream = Some s \<and> debouncePersistidoAtivo cfg \<and> m_tipo m = ''texto''
           \<and> d' = armDebounceWindowTx cfg now sc (t_id t) (fst s) d3)"
proof -
  obtain sq d1 where alloc: "(case stream of None \<Rightarrow> (None, d)
      | Some s \<Rightarrow> map_prod Some id (allocateIngressSeq sc s d)) = (sq, d1)" by fastforce
  have d1: "turns d1 = turns d"
  proof (cases stream)
    case None
    with alloc show ?thesis by simp
  next
    case (Some s)
    with alloc have "d1 = snd (allocateIngressSeq sc s d)" by (cases "allocateIngressSeq sc s d") simp
    then show ?thesis by simp
  qed
  from assms alloc have guard: "applyTenantGuard sc (m_tenant m) (m_agent m) = Inr sc"
    by (auto simp: createReceivedTurnTx_def applyTenantGuard_def split: if_splits)
  let ?row = "inbound_row sc m channel stream sq"
  from assms alloc guard obtain d2 where d2: "insert_message ?row d1 = Inr d2"
    by (cases "insert_message ?row d1") (simp_all add: createReceivedTurnTx_def)
  let ?st = "ingress_stream stream sq"
  from assms alloc guard d2 obtain u d3 where
    d3: "createTurnForMessage now sc tid iid ?row dl ?st d2 = Inr (u, d3)"
    by (cases "createTurnForMessage now sc tid iid ?row dl ?st d2")
      (auto simp: createReceivedTurnTx_def)
  let ?fin = "case (stream, sq) of
      (Some s, Some q) \<Rightarrow> if debouncePersistidoAtivo cfg \<and> m_tipo m = ''texto''
         then armDebounceWindowTx cfg now sc (t_id u) (fst s) d3 else d3
    | _ \<Rightarrow> d3"
  have "createReceivedTurnTx cfg now sc m channel dl stream tid iid d = Inr ((?row, u, sq), ?fin)"
    by (simp add: createReceivedTurnTx_def alloc guard d2 d3)
  then have res: "row = ?row" "t = u" "seq = sq" and d': "d' = ?fin"
    unfolding assms sum.inject prod.inject by blast+
  show ?thesis
    by (rule that [of d1 d2 d3])
      (use alloc guard d2 d3 res d' d1 insert_message_turns [OF d2] in
        \<open>auto split: option.splits if_splits\<close>)
qed

interpretation ingress:
  automatic_operation sc None
    "\<lambda>d. committed (createReceivedTurnTx cfg now sc m channel dl stream tid iid d) d"
  for sc cfg now m channel dl stream tid iid
proof
  fix d
  let ?res = "createReceivedTurnTx cfg now sc m channel dl stream tid iid d"
  have shape: "?res = Inr x \<Longrightarrow> \<exists>row t seq d'. ?res = Inr ((row, t, seq), d')" for x
    by (cases x) (auto simp: split_paired_all)
  show "db_evolves False sc None d (committed ?res d)"
  proof (cases ?res)
    case (Inl e)
    then show ?thesis by auto
  next
    case (Inr x)
    then obtain row t seq d' where res: "?res = Inr ((row, t, seq), d')" using shape by blast
    then show ?thesis
    proof (rule createReceivedTurnTx_Inr)
      fix d2 d3
      assume 2: "turns d2 = turns d"
        and 3: "createTurnForMessage now sc tid iid row dl (ingress_stream stream seq) d2 = Inr (t, d3)"
        and d': "d' = d3 \<or> (\<exists>s. stream = Some s \<and> debouncePersistidoAtivo cfg \<and> m_tipo m = ''texto''
           \<and> d' = armDebounceWindowTx cfg now sc (t_id t) (fst s) d3)"
      have "db_evolves False sc None d d2" using 2 by (rule db_evolves_same)
      also have "db_evolves False sc None d2 d3" using 3 by (rule createTurnForMessage_evolves)
      also have "db_evolves False sc None d3 d'" using d' by (auto intro: armDebounceWindowTx_evolves)
      finally show ?thesis by (simp add: res)
    qed
  qed
  show "agent_turns_stream_active_uq (turns (committed ?res d))"
    if uq: "agent_turns_stream_active_uq (turns d)"
  proof (cases ?res)
    case (Inl e)
    with uq show ?thesis by simp
  next
    case (Inr x)
    then obtain row t seq d' where res: "?res = Inr ((row, t, seq), d')" using shape by blast
    then show ?thesis
    proof (rule createReceivedTurnTx_Inr)
      fix d2 d3
      assume 2: "turns d2 = turns d"
        and 3: "createTurnForMessage now sc tid iid row dl (ingress_stream stream seq) d2 = Inr (t, d3)"
        and d': "d' = d3 \<or> (\<exists>s. stream = Some s \<and> debouncePersistidoAtivo cfg \<and> m_tipo m = ''texto''
           \<and> d' = armDebounceWindowTx cfg now sc (t_id t) (fst s) d3)"
      have "agent_turns_stream_active_uq (turns d3)"
        using 3 uq by (rule createTurnForMessage_uq [where d = d2, unfolded 2])
      with d' show ?thesis by (auto simp: res armDebounceWindowTx_uq)
    qed
  qed
  show "foreign_tables sc (committed ?res d) = foreign_tables sc d"
  proof (cases ?res)
    case (Inl e)
    then show ?thesis by simp
  next
    case (Inr x)
    then obtain row t seq d' where res: "?res = Inr ((row, t, seq), d')" using shape by blast
    then show ?thesis
    proof (rule createReceivedTurnTx_Inr)
      fix d1 d2 d3
      assume 1: "(seq, d1) = (case stream of None \<Rightarrow> (None, d)
                   | Some s \<Rightarrow> map_prod Some id (allocateIngressSeq sc s d))"
        and row: "row = inbound_row sc m channel stream seq"
        and 2: "insert_message row d1 = Inr d2"
        and 3: "createTurnForMessage now sc tid iid row dl (ingress_stream stream seq) d2 = Inr (t, d3)"
        and d': "d' = d3 \<or> (\<exists>s. stream = Some s \<and> debouncePersistidoAtivo cfg \<and> m_tipo m = ''texto''
           \<and> d' = armDebounceWindowTx cfg now sc (t_id t) (fst s) d3)"
      have "foreign_tables sc d1 = foreign_tables sc d"
      proof (cases stream)
        case None
        with 1 show ?thesis by simp
      next
        case (Some s)
        with 1 have "d1 = snd (allocateIngressSeq sc s d)" by (cases "allocateIngressSeq sc s d") simp
        then show ?thesis by simp
      qed
      moreover have "foreign_tables sc d2 = foreign_tables sc d1"
        using 2 by (rule insert_message_confined) (simp add: row inbound_row_def)
      moreover have "foreign_tables sc d3 = foreign_tables sc d2"
        using 3 by (rule createTurnForMessage_confined)
      ultimately show ?thesis using d' by (auto simp: res)
    qed
  qed
qed

interpretation ensure_turn:
  automatic_operation sc None "\<lambda>d. committed (ensureTurnForMessage now sc tid iid m dl d) d"
  for sc now tid iid m dl
proof
  fix d
  let ?res = "createTurnForMessage now sc tid iid m dl None d"
  show "db_evolves False sc None d (committed (ensureTurnForMessage now sc tid iid m dl d) d)"
    by (cases ?res) (auto simp: ensureTurnForMessage_def intro: createTurnForMessage_evolves)
  show "agent_turns_stream_active_uq (turns d) \<Longrightarrow> agent_turns_stream_active_uq
      (turns (committed (ensureTurnForMessage now sc tid iid m dl d) d))"
    by (cases ?res) (auto simp: ensureTurnForMessage_def intro: createTurnForMessage_uq)
  show "foreign_tables sc (committed (ensureTurnForMessage now sc tid iid m dl d) d) =
      foreign_tables sc d"
    by (cases ?res) (auto simp: ensureTurnForMessage_def dest: createTurnForMessage_confined)
qed

lemma extend_boundary_turns:
  "mids \<noteq> [] \<Longrightarrow> turns (snd (extendTurnStreamBoundaryTx now sc tid mids d)) =
     update_where (\<lambda>t. is_turn sc tid t \<and> t_stream t \<noteq> None \<and> t_first_seq t \<noteq> None)
        (\<lambda>t. t\<lparr>t_first_seq := least_null (t_first_seq t) (seq_min (boundary_seqs d sc mids t)),
               t_last_seq := greatest_null (t_last_seq t) (seq_max (boundary_seqs d sc mids t)),
               t_updated_at := now\<rparr>) (turns d)"
  by (simp add: extendTurnStreamBoundaryTx_def Let_def)

interpretation boundary:
  automatic_operation sc None "\<lambda>d. snd (extendTurnStreamBoundaryTx now sc tid mids d)"
  for sc now tid mids
proof
  fix d
  show "db_evolves False sc None d (snd (extendTurnStreamBoundaryTx now sc tid mids d))"
  proof (cases "mids = []")
    case True
    then show ?thesis by (intro db_evolves_same) (simp add: extendTurnStreamBoundaryTx_def)
  next
    case False
    show ?thesis
      by (rule quiet_update_evolves [OF extend_boundary_turns [OF False]])
        (auto simp: quiet_def)
  qed
  show "agent_turns_stream_active_uq (turns d) \<Longrightarrow> agent_turns_stream_active_uq
      (turns (snd (extendTurnStreamBoundaryTx now sc tid mids d)))"
    by (cases "mids = []")
      (simp_all add: extendTurnStreamBoundaryTx_def Let_def quiet_def quiet_update_uq)
  show "foreign_tables sc (snd (extendTurnStreamBoundaryTx now sc tid mids d)) = foreign_tables sc d"
    by (simp add: extendTurnStreamBoundaryTx_def Let_def)
qed

interpretation unblock:
  automatic_operation sc None "\<lambda>d. snd (unblockTx now sc bid actor reason d)"
  for sc now bid actor reason
proof
  fix d
  have same: "turns (snd (unblockTx now sc bid actor reason d)) = turns d"
    by (simp add: unblockTx_def Let_def split: option.split)
  show "db_evolves False sc None d (snd (unblockTx now sc bid actor reason d))"
    using same by (rule db_evolves_same)
  show "agent_turns_stream_active_uq (turns d) \<Longrightarrow> agent_turns_stream_active_uq
      (turns (snd (unblockTx now sc bid actor reason d)))"
    by (simp add: same)
  show "foreign_tables sc (snd (unblockTx now sc bid actor reason d)) = foreign_tables sc d"
    by (simp add: unblockTx_def Let_def foreign_tables_def split: option.split)
      (intro allI impI, rule filter_update_where_same; simp)
qed

section \<open>Closing a batch keeps the contract of the table\<close>

lemma contiguous_prefix_take: "\<exists>n. contiguous_prefix rs = take n rs"
proof (induction rs rule: contiguous_prefix.induct)
  case (3 r q rest)
  then obtain n where "contiguous_prefix (q # rest) = take n (q # rest) \<or>
      (t_last_seq r \<noteq> None \<and> the (t_first_seq q) \<noteq> the (t_last_seq r) + 1)" by blast
  then show ?case
    by (cases "t_last_seq r \<noteq> None \<and> the (t_first_seq q) \<noteq> the (t_last_seq r) + 1")
      (auto intro: exI [of _ "Suc 0"] exI [of _ "Suc n"])
qed (auto intro: exI [of _ 0] exI [of _ "Suc 0"])

lemma debounceBatchPrefix_member:
  "r \<in> set (debounceBatchPrefix sc stream d) \<Longrightarrow>
     r \<in> set (turns d) \<and> openDebounceWindowMembers sc stream r"
  using contiguous_prefix_take [of "sort_key (\<lambda>r. the (t_first_seq r))
      (filter (openDebounceWindowMembers sc stream) (turns d))"]
  by (auto simp: debounceBatchPrefix_def dest!: in_set_takeD)

lemma distinct_map_sort_key: "distinct (map k rs) \<Longrightarrow> distinct (map k (sort_key f rs))"
  by (metis distinct_map distinct_sort inj_on_def set_sort)

lemma debounceBatchPrefix_distinct:
  assumes "distinct (map t_id (turns d))"
  shows "distinct (map t_id (debounceBatchPrefix sc stream d))"
proof -
  let ?rs = "sort_key (\<lambda>r. the (t_first_seq r)) (filter (openDebounceWindowMembers sc stream) (turns d))"
  have "distinct (map t_id ?rs)"
    using assms by (intro distinct_map_sort_key distinct_map_filter)
  moreover obtain n where "contiguous_prefix ?rs = take n ?rs" using contiguous_prefix_take by blast
  ultimately show ?thesis by (simp add: debounceBatchPrefix_def take_map [symmetric])
qed

lemma absorb_siblings_turns [simp]:
  "turns (snd (absorb_siblings now sc head siblings d)) =
     update_where (sibling_cond sc siblings) (superseded_row now head) (turns d)"
  by (simp add: absorb_siblings_def Let_def)

lemma repoint_foreign:
  "filter (\<lambda>i. (i_tenant i, i_agent i) \<noteq> sc) (repoint_inputs sc h ranked is) =
     filter (\<lambda>i. (i_tenant i, i_agent i) \<noteq> sc) is"
  by (induction "is") (auto simp: repoint_inputs_def split: option.split)

lemma absorb_siblings_confined [simp]:
  "foreign_tables sc (snd (absorb_siblings now sc head siblings d)) = foreign_tables sc d"
  by (simp add: absorb_siblings_def Let_def foreign_tables_def repoint_foreign)

lemma close_ended_windows_confined [simp]:
  "foreign_tables sc (close_ended_windows now sc stream d) = foreign_tables sc d"
  by (simp add: close_ended_windows_def)

lemma closed_head_row_simps [simp]:
  "t_id (closed_head_row now l b r) = t_id r" "t_tenant (closed_head_row now l b r) = t_tenant r"
  "t_agent (closed_head_row now l b r) = t_agent r"
  "t_message (closed_head_row now l b r) = t_message r"
  "t_status (closed_head_row now l b r) = Queued"
  "t_outcome (closed_head_row now l b r) = t_outcome r"
  "t_superseded_by (closed_head_row now l b r) = t_superseded_by r"
  "t_stream (closed_head_row now l b r) = t_stream r"
  "t_first_seq (closed_head_row now l b r) = t_first_seq r"
  "t_token (closed_head_row now l b r) = t_token r"
  "t_version r \<le> t_version (closed_head_row now l b r)"
  "t_version (closed_head_row now l b r) = t_version r \<longleftrightarrow> t_status r = Queued"
  by (simp_all add: closed_head_row_def)

lemma superseded_row_simps [simp]:
  "t_id (superseded_row now h r) = t_id r" "t_tenant (superseded_row now h r) = t_tenant r"
  "t_agent (superseded_row now h r) = t_agent r" "t_message (superseded_row now h r) = t_message r"
  "t_status (superseded_row now h r) = Superseded"
  "t_outcome (superseded_row now h r) = Some Merged_Into_Turn"
  "t_superseded_by (superseded_row now h r) = Some h"
  "t_stream (superseded_row now h r) = t_stream r"
  "t_first_seq (superseded_row now h r) = t_first_seq r"
  "t_token (superseded_row now h r) = t_token r"
  "t_version (superseded_row now h r) = t_version r + 1"
  by (simp_all add: superseded_row_def)

lemma closed_head_row_evolves:
  assumes "close_head_cond d sc head r"
  shows "row_evolves by_hand sc fresh r (closed_head_row now l b r)"
proof (rule row_changesI)
  from assms have live: "\<not> isTerminalTurnStatus (t_status r)"
    by (simp add: close_head_cond_def claimable_live)
  then show "row_checks r \<Longrightarrow> row_checks (closed_head_row now l b r)"
    by (auto intro: row_checks_live_change)
  show "t_version r \<le> t_version (closed_head_row now l b r)" by simp
  show "t_version (closed_head_row now l b r) = t_version r \<Longrightarrow>
      t_status (closed_head_row now l b r) = t_status r \<and>
      t_outcome (closed_head_row now l b r) = t_outcome r \<and>
      t_token (closed_head_row now l b r) = t_token r" by simp
  from live show "isTerminalTurnStatus (t_status r) \<Longrightarrow>
      t_status (closed_head_row now l b r) = t_status r \<and>
      t_outcome (closed_head_row now l b r) = t_outcome r \<and>
      t_version (closed_head_row now l b r) = t_version r \<or> by_hand \<and> t_status r = Dead_Letter"
    by simp
qed (use assms in \<open>auto simp: close_head_cond_def\<close>)

lemma superseded_row_evolves:
  assumes "sibling_cond sc siblings r" and "h \<notin> t_id ` set siblings"
  shows "row_evolves by_hand sc fresh r (superseded_row now h r)"
proof (rule row_changesI)
  show "row_checks (superseded_row now h r)"
    using assms by (auto simp: row_checks_def agent_turns_superseded_by_chk_def sibling_cond_def)
qed (use assms in \<open>auto simp: sibling_cond_def isTerminalTurnStatus_def\<close>)

lemma close_ended_windows_evolves:
  "db_evolves by_hand sc fresh d (close_ended_windows now sc stream d)"
  by (rule quiet_update_evolves
      [where p = "\<lambda>u. in_scope sc u \<and> t_stream u = Some stream \<and> t_window_opened u \<noteq> None
         \<and> t_window_closed u = None \<and> t_status u \<in> set TERMINAL_TURN_STATUSES"
       and f = "\<lambda>u. u\<lparr>t_window_closed := Some now, t_updated_at := now\<rparr>"])
    (simp_all add: close_ended_windows_def quiet_def)

lemma close_ended_windows_uq:
  "agent_turns_stream_active_uq (turns d) \<Longrightarrow>
     agent_turns_stream_active_uq (turns (close_ended_windows now sc stream d))"
  by (simp add: close_ended_windows_def quiet_update_uq quiet_def)

text \<open>The outcomes of a close: nothing, the clean-up alone, or the batch.\<close>

lemma closeDueDebounceBatchTx_cases:
  fixes d d1 now sc stream
  defines "d1 \<equiv> close_ended_windows now sc stream d"
  obtains (locked) "closeDueDebounceBatchTx now sc lf stream d = (Inl Stream_Locked, d)"
  | (refused) why where "closeDueDebounceBatchTx now sc lf stream d = (Inl why, d1)"
      and "why \<noteq> Stream_Locked"
  | (closed) head siblings u d2 where
      "debounceBatchPrefix sc stream d1 = head # siblings"
      and "humanControlProbe d1 sc (t_id head) = None"
      and "list_ex (debounceWindowDue now) (head # siblings)"
      and "List.find (close_head_cond d1 sc head) (turns d1) = Some u"
      and "d2 = d1\<lparr>turns := update_where (close_head_cond d1 sc head)
              (closed_head_row now (batch_last_seq head (head # siblings)) (length (head # siblings)))
              (turns d1)\<rparr>"
      and "closeDueDebounceBatchTx now sc lf stream d =
        (Inr \<lparr>bc_head = \<lparr>sp_turn = t_id u, sp_message = t_message u, sp_conversa = t_conversa u,
                          sp_before = t_status head, sp_after = Queued\<rparr>,
              bc_size = length (head # siblings),
              bc_absorbed_turns = fst (fst (absorb_siblings now sc (t_id head) siblings d2)),
              bc_absorbed_messages = snd (fst (absorb_siblings now sc (t_id head) siblings d2))\<rparr>,
         snd (absorb_siblings now sc (t_id head) siblings d2))"
proof (cases "lf \<and> list_ex (is_sequence sc stream) (sequences d)")
  case False
  then show ?thesis by (intro locked) (simp add: closeDueDebounceBatchTx_def)
next
  case free: True
  note def = closeDueDebounceBatchTx_def Let_def d1_def [symmetric]
  show ?thesis
  proof (cases "debounceBatchPrefix sc stream d1")
    case Nil
    show ?thesis by (rule refused [of No_Window]) (simp_all add: def free Nil)
  next
    case members: (Cons head siblings)
    show ?thesis
    proof (cases "humanControlProbe d1 sc (t_id head) = None \<and> list_ex (debounceWindowDue now) (head # siblings)")
      case False
      then show ?thesis
        by (cases "humanControlProbe d1 sc (t_id head)")
          (auto simp: def free members intro: refused [of Close_Human_Control] refused [of Not_Due])
    next
      case ready: True
      show ?thesis
      proof (cases "List.find (close_head_cond d1 sc head) (turns d1)")
        case None
        show ?thesis by (rule refused [of Lost_Race]) (use ready in \<open>auto simp: def free members None\<close>)
      next
        case u: (Some u)
        show ?thesis
          by (rule closed [OF members _ _ u refl])
            (use ready in \<open>auto simp: def free members u split: prod.split\<close>)
      qed
    qed
  qed
qed

interpretation close_batch:
  automatic_operation sc None "\<lambda>d. snd (closeDueDebounceBatchTx now sc lf stream d)"
  for sc now lf stream
proof
  fix d
  let ?d1 = "close_ended_windows now sc stream d"
  show "db_evolves False sc None d (snd (closeDueDebounceBatchTx now sc lf stream d))"
    if ids: "distinct (map t_id (turns d))"
  proof (cases rule: closeDueDebounceBatchTx_cases [of now sc lf stream d])
    case locked
    then show ?thesis by auto
  next
    case (refused why)
    then show ?thesis by (simp add: close_ended_windows_evolves)
  next
    case (closed head siblings u d2)
    have "db_evolves False sc None d ?d1" by (rule close_ended_windows_evolves)
    also have "db_evolves False sc None ?d1 d2"
      by (rule db_evolves_update [where p = "close_head_cond ?d1 sc head"
            and f = "closed_head_row now (batch_last_seq head (head # siblings)) (length (head # siblings))"])
        (simp_all add: closed(5) closed_head_row_evolves)
    also have "db_evolves False sc None d2 (snd (absorb_siblings now sc (t_id head) siblings d2))"
      using absorb_siblings_turns
    proof (rule db_evolves_update)
      have "distinct (map t_id (head # siblings))"
        using debounceBatchPrefix_distinct [of ?d1 sc stream] closed(1)
          db_evolves_ids [OF close_ended_windows_evolves ids] by simp
      then show "row_evolves False sc None r (superseded_row now (t_id head) r)"
        if "sibling_cond sc siblings r" for r
        using that by (intro superseded_row_evolves) auto
    qed
    finally show ?thesis by (simp add: closed(6))
  qed
  show "agent_turns_stream_active_uq (turns (snd (closeDueDebounceBatchTx now sc lf stream d)))"
    if uq: "agent_turns_stream_active_uq (turns d)"
  proof (cases rule: closeDueDebounceBatchTx_cases [of now sc lf stream d])
    case locked
    with uq show ?thesis by simp
  next
    case (refused why)
    with uq show ?thesis by (simp add: close_ended_windows_uq)
  next
    case (closed head siblings u d2)
    have "agent_turns_stream_active_uq (turns d2)"
      using uq_update [OF close_ended_windows_uq [OF uq]]
      by (simp add: closed(5) vacates_def stream_slot_def occupies_def status_simps)
    then have "agent_turns_stream_active_uq
        (turns (snd (absorb_siblings now sc (t_id head) siblings d2)))"
      unfolding absorb_siblings_turns
      by (rule uq_update) (simp add: vacates_def stream_slot_def occupies_def status_simps)
    then show ?thesis by (simp add: closed(6))
  qed
  show "foreign_tables sc (snd (closeDueDebounceBatchTx now sc lf stream d)) = foreign_tables sc d"
    by (cases rule: closeDueDebounceBatchTx_cases [of now sc lf stream d])
      (simp_all add: absorb_siblings_confined)
qed

interpretation attach_input:
  automatic_operation sc None "\<lambda>d. snd (attachInputTx iid sc tid mid n d)"
  for sc iid tid mid n
  by unfold_locales (auto simp: attachInputTx_def)

lemma createSequencedInboundTx_Inr:
  assumes "createSequencedInboundTx sc m channel stream d = Inr ((row, seq), d')"
  shows "turns d' = turns d" and "foreign_tables sc d' = foreign_tables sc d"
    and "seq = fst (allocateIngressSeq sc stream d)"
    and "row = inbound_row sc m channel (Some stream) (Some seq)"
proof -
  obtain q d1 where q: "allocateIngressSeq sc stream d = (q, d1)" by fastforce
  with assms have guard: "applyTenantGuard sc (m_tenant m) (m_agent m) = Inr sc"
    by (auto simp: createSequencedInboundTx_def applyTenantGuard_def split: if_splits)
  let ?row = "inbound_row sc m channel (Some stream) (Some q)"
  from assms q guard obtain d2 where d2: "insert_message ?row d1 = Inr d2"
    by (cases "insert_message ?row d1") (simp_all add: createSequencedInboundTx_def)
  have "createSequencedInboundTx sc m channel stream d = Inr ((?row, q), d2)"
    by (simp add: createSequencedInboundTx_def q guard d2)
  then have res: "row = ?row" "seq = q" "d' = d2"
    unfolding assms sum.inject prod.inject by blast+
  have "(m_tenant ?row, m_agent ?row) = sc" by (simp add: inbound_row_def)
  then show "turns d' = turns d" and "foreign_tables sc d' = foreign_tables sc d"
    using allocateIngressSeq_turns [of sc stream d] allocateIngressSeq_confined [of sc stream d]
      insert_message_turns [OF d2] insert_message_confined [OF d2] by (simp_all add: res q)
  show "seq = fst (allocateIngressSeq sc stream d)"
    and "row = inbound_row sc m channel (Some stream) (Some seq)"
    by (simp_all add: res q)
qed

interpretation sequenced_inbound:
  automatic_operation sc None "\<lambda>d. committed (createSequencedInboundTx sc m channel stream d) d"
  for sc m channel stream
proof
  fix d
  let ?res = "createSequencedInboundTx sc m channel stream d"
  have same: "turns (committed ?res d) = turns d \<and> foreign_tables sc (committed ?res d) = foreign_tables sc d"
  proof (cases ?res)
    case (Inl e)
    then show ?thesis by simp
  next
    case (Inr x)
    then obtain row seq d' where res: "?res = Inr ((row, seq), d')" by (metis prod.collapse)
    with createSequencedInboundTx_Inr(1,2) [OF res] show ?thesis by simp
  qed
  then show "db_evolves False sc None d (committed ?res d)" by auto
  show "agent_turns_stream_active_uq (turns d) \<Longrightarrow> agent_turns_stream_active_uq (turns (committed ?res d))"
    using same by simp
  show "foreign_tables sc (committed ?res d) = foreign_tables sc d" using same by simp
qed

section \<open>Properties\<close>

text \<open>What the table of sequences stands for: the last number given in each stream.\<close>

definition seq_of :: "db \<Rightarrow> scope \<times> string \<Rightarrow> nat" where
  "seq_of d key =
     (case List.find (is_sequence (fst key) (snd key)) (sequences d) of
        None \<Rightarrow> 0 | Some s \<Rightarrow> s_last_seq s)"

lemma is_sequence_same:
  "is_sequence sc st s \<Longrightarrow> is_sequence sc' st' s \<longleftrightarrow> sc' = sc \<and> st' = st"
  by (auto simp: is_sequence_def prod_eq_iff)

lemma find_bump_other:
  assumes "(sc', st') \<noteq> (sc, st)"
  shows "List.find (is_sequence sc' st')
           (update_where (is_sequence sc st) (\<lambda>q. q\<lparr>s_last_seq := s_last_seq q + 1\<rparr>) ss) =
         List.find (is_sequence sc' st') ss"
  using assms by (induction ss) (auto simp: is_sequence_def prod_eq_iff)

lemma find_bump_same:
  "List.find (is_sequence sc st)
     (update_where (is_sequence sc st) (\<lambda>q. q\<lparr>s_last_seq := s_last_seq q + 1\<rparr>) ss) =
   map_option (\<lambda>q. q\<lparr>s_last_seq := s_last_seq q + 1\<rparr>) (List.find (is_sequence sc st) ss)"
  by (induction ss) (auto simp: is_sequence_def)

lemma find_append:
  "List.find p (xs @ ys) = (case List.find p xs of None \<Rightarrow> List.find p ys | Some x \<Rightarrow> Some x)"
  by (induction xs) auto

text \<open>
  The sequence of a stream refines a counter for each (tenant, agent, stream): the number
  given is one more than the last one given in that stream, it becomes the last, and the
  counter of every other stream, tenant or agent is untouched.
\<close>

lemma allocate_refines_counter:
  "fst (allocateIngressSeq sc st d) = seq_of d (sc, fst st) + 1
   \<and> seq_of (snd (allocateIngressSeq sc st d)) =
       (seq_of d)((sc, fst st) := seq_of d (sc, fst st) + 1)"
proof (cases "List.find (is_sequence sc (fst st)) (sequences d)")
  case None
  have "seq_of (snd (allocateIngressSeq sc st d)) key =
      ((seq_of d)((sc, fst st) := seq_of d (sc, fst st) + 1)) key" for key
  proof (cases "key = (sc, fst st)")
    case True
    with None show ?thesis
      by (simp add: seq_of_def allocateIngressSeq_def find_append is_sequence_def)
  next
    case False
    then show ?thesis
      using None by (cases key)
        (auto simp: seq_of_def allocateIngressSeq_def find_append is_sequence_def prod_eq_iff
          split: option.split)
  qed
  with None show ?thesis by (auto simp: allocateIngressSeq_def seq_of_def)
next
  case (Some s)
  have "seq_of (snd (allocateIngressSeq sc st d)) key =
      ((seq_of d)((sc, fst st) := seq_of d (sc, fst st) + 1)) key" for key
  proof (cases "key = (sc, fst st)")
    case True
    with Some find_bump_same [of sc "fst st" "sequences d"] show ?thesis
      by (simp add: seq_of_def allocateIngressSeq_def)
  next
    case False
    then show ?thesis
      using Some find_bump_other [of "fst key" "snd key" sc "fst st" "sequences d"]
      by (simp add: seq_of_def allocateIngressSeq_def)
  qed
  with Some show ?thesis by (auto simp: allocateIngressSeq_def seq_of_def)
qed

lemma insert_input_sequences [simp]: "sequences (snd (insert_input iid sc tid mid n d)) = sequences d"
  by (simp add: insert_input_def)

lemma insert_input_messages [simp]: "messages (snd (insert_input iid sc tid mid n d)) = messages d"
  by (simp add: insert_input_def)

lemma createTurnForMessage_rest:
  assumes "createTurnForMessage now sc tid iid m dl st d = Inr (t, d')"
  shows "sequences d' = sequences d" and "messages d' = messages d"
proof -
  from assms have "d' = snd (insert_input iid sc (t_id t) (m_id m) 0 d) \<or>
      (\<exists>ts. d' = snd (insert_input iid sc (t_id t) (m_id m) 0 (d\<lparr>turns := ts\<rparr>)))"
    by (auto simp: createTurnForMessage_def Let_def split: if_splits option.splits
        simp del: received_turn_simps)
  then show "sequences d' = sequences d" and "messages d' = messages d" by auto
qed

lemma arm_rest [simp]:
  "sequences (armDebounceWindowTx cfg now sc tid stream d) = sequences d"
  "messages (armDebounceWindowTx cfg now sc tid stream d) = messages d"
  by (simp_all add: armDebounceWindowTx_def Let_def)

lemma insert_message_rest:
  "insert_message m d = Inr d' \<Longrightarrow> sequences d' = sequences d \<and> messages d' = messages d @ [m]"
  by (auto simp: insert_message_def split: if_splits)



text \<open>The window of a stream that opened first bounds the deadline of all of them.\<close>

lemma min_opened_le:
  "r \<in> set rs \<Longrightarrow> t_window_opened r = Some o_at \<Longrightarrow> \<exists>m. min_opened rs = Some m \<and> m \<le> o_at"
proof (induction rs)
  case Nil
  then show ?case by simp
next
  case (Cons q rs)
  show ?case
  proof (cases "r = q")
    case True
    with Cons.prems show ?thesis by (cases "min_opened rs") auto
  next
    case False
    with Cons obtain m where "min_opened rs = Some m" "m \<le> o_at" by auto
    then show ?thesis by (cases "t_window_opened q") (auto intro: le_max_iff_disj min.coboundedI2)
  qed
qed

text \<open>
  The debounce window slides but never runs away: after a message arms it, all open turns of
  the stream have one and the same deadline, at most the quiet time from now, and at most the maximal wait
  from the moment each of them was opened, so no message waits longer than that however many follow.
\<close>

lemma debounce_deadline_bounded:
  "\<exists>x. x \<le> now + MESSAGE_DEBOUNCE_MS cfg
     \<and> list_all (\<lambda>r. t_window_deadline r = Some x
          \<and> le_null (Some x) (map_option (\<lambda>o_at. o_at + MESSAGE_DEBOUNCE_MAX_MS cfg) (t_window_opened r)))
         (filter (openDebounceWindowMembers sc stream)
            (turns (armDebounceWindowTx cfg now sc tid stream d)))"
proof -
  let ?ts = "update_where (\<lambda>r. is_turn sc tid r \<and> t_window_opened r = None)
       (\<lambda>r. r\<lparr>t_window_opened := Some now, t_updated_at := now\<rparr>) (turns d)"
  let ?open = "openDebounceWindowMembers sc stream"
  let ?x = "debounceDeadlineExpression cfg now (min_opened (filter ?open ?ts))"
  have le: "?x \<le> now + MESSAGE_DEBOUNCE_MS cfg"
    by (simp add: debounceDeadlineExpression_def split: option.split)
  have "t_window_deadline r = Some ?x
      \<and> le_null (Some ?x) (map_option (\<lambda>o_at. o_at + MESSAGE_DEBOUNCE_MAX_MS cfg) (t_window_opened r))"
    if "r \<in> set (turns (armDebounceWindowTx cfg now sc tid stream d))" and o: "?open r" for r
  proof -
    from that obtain q where q: "q \<in> set ?ts" "?open q"
      "r = q\<lparr>t_window_deadline := Some ?x, t_updated_at := now\<rparr>"
      by (auto simp: arm_turns Let_def openDebounceWindowMembers_def in_scope_def
          elim!: update_where_memE [of _ ?open])
    then obtain o_at where opened: "t_window_opened q = Some o_at"
      by (auto simp: openDebounceWindowMembers_def)
    with q(1,2) min_opened_le [of q "filter ?open ?ts"] obtain m
      where "min_opened (filter ?open ?ts) = Some m" "m \<le> o_at" by auto
    with q(3) opened show ?thesis by (simp add: debounceDeadlineExpression_def)
  qed
  with le show ?thesis by (intro exI [of _ ?x]) (auto simp: list_all_iff)
qed

text \<open>A turn that begins right after another ends.\<close>

definition follows :: "turn \<Rightarrow> turn \<Rightarrow> bool" where
  "follows r q \<longleftrightarrow> t_last_seq r = None \<or> the (t_first_seq q) = the (t_last_seq r) + 1"

lemma contiguous_prefix_split:
  "\<exists>rest. rs = contiguous_prefix rs @ rest \<and> successively follows (contiguous_prefix rs)
     \<and> (case rest of [] \<Rightarrow> True
        | q # _ \<Rightarrow> contiguous_prefix rs \<noteq> [] \<and> \<not> follows (last (contiguous_prefix rs)) q)"
proof (induction rs rule: contiguous_prefix.induct)
  case (3 r q rest)
  show ?case
  proof (cases "follows r q")
    case False
    then show ?thesis by (intro exI [of _ "q # rest"]) (simp add: follows_def)
  next
    case True
    with 3 obtain tl where tl: "q # rest = contiguous_prefix (q # rest) @ tl"
      "successively follows (contiguous_prefix (q # rest))"
      "case tl of [] \<Rightarrow> True | p # _ \<Rightarrow> contiguous_prefix (q # rest) \<noteq> []
         \<and> \<not> follows (last (contiguous_prefix (q # rest))) p"
      by (auto simp: follows_def)
    have hd: "contiguous_prefix (q # rest) \<noteq> []" "hd (contiguous_prefix (q # rest)) = q"
      by (cases rest; simp)+
    have "contiguous_prefix (r # q # rest) = r # contiguous_prefix (q # rest)"
      using True by (auto simp: follows_def)
    with tl hd True show ?thesis
      by (intro exI [of _ tl]) (auto simp: successively_Cons split: list.split)
  qed
qed auto

text \<open>
  The batch the sweeper closes is the longest run without a gap from the first open turn of the
  stream: in sequence order the open turns are the batch followed by the rest, each turn of the
  batch begins right after the one before it ends, and where there is a rest, it begins beyond a gap.
\<close>

lemma batch_is_maximal_run:
  "\<exists>rest. sort_key (\<lambda>r. the (t_first_seq r)) (filter (openDebounceWindowMembers sc stream) (turns d))
       = debounceBatchPrefix sc stream d @ rest
     \<and> successively (\<lambda>r q. t_last_seq r = None \<or> the (t_first_seq q) = the (t_last_seq r) + 1)
         (debounceBatchPrefix sc stream d)
     \<and> (case rest of [] \<Rightarrow> True
        | q # _ \<Rightarrow> debounceBatchPrefix sc stream d \<noteq> []
            \<and> t_last_seq (last (debounceBatchPrefix sc stream d)) \<noteq> None
            \<and> the (t_first_seq q) \<noteq> the (t_last_seq (last (debounceBatchPrefix sc stream d))) + 1)"
  using contiguous_prefix_split [of "sort_key (\<lambda>r. the (t_first_seq r))
      (filter (openDebounceWindowMembers sc stream) (turns d))"]
  by (simp add: debounceBatchPrefix_def follows_def [abs_def] cong: list.case_cong)

text \<open>The absorption of the siblings, on the inputs.\<close>

lemma rank_from_None: "rank_from n iid is = None \<longleftrightarrow> iid \<notin> i_id ` set is"
  by (induction "is" arbitrary: n) auto

lemma repoint_messages: "map i_message (repoint_inputs sc h ranked is) = map i_message is"
  by (induction "is") (auto simp: repoint_inputs_def split: option.split)

lemma repoint_input_cases:
  assumes "j \<in> set (repoint_inputs sc h ranked is)"
  obtains (same) "j \<in> set is" and "(i_tenant j, i_agent j) \<noteq> sc \<or> i_id j \<notin> i_id ` set ranked"
  | (moved) "i_turn j = h"
proof -
  from assms obtain i where i: "i \<in> set is" and j: "j =
      (if i_tenant i = fst sc \<and> i_agent i = snd sc
       then (case rank_from 1 (i_id i) ranked of
               None \<Rightarrow> i | Some n \<Rightarrow> i\<lparr>i_turn := h, i_seq := n\<rparr>) else i)"
    by (auto simp: repoint_inputs_def)
  show ?thesis
  proof (cases "i_tenant i = fst sc \<and> i_agent i = snd sc \<and> rank_from 1 (i_id i) ranked \<noteq> None")
    case True
    with j show ?thesis by (intro moved) auto
  next
    case False
    have "j = i" using False j by (auto split: option.split)
    moreover have "(i_tenant i, i_agent i) \<noteq> sc \<or> i_id i \<notin> i_id ` set ranked"
      using False unfolding not_None_eq rank_from_None [of 1, symmetric] by (cases sc) auto
    ultimately show ?thesis using i by (intro same) simp_all
  qed
qed

lemma absorbed_inputs_mem:
  "i \<in> set (absorbed_inputs d sc absorbed) \<longleftrightarrow>
     i \<in> set (inputs d) \<and> i_tenant i = fst sc \<and> i_agent i = snd sc \<and> i_turn i \<in> set absorbed
     \<and> message_of d sc i \<noteq> None"
  by (auto simp: absorbed_inputs_def Let_def)

lemma absorb_siblings_rest:
  "messages (snd (absorb_siblings now sc head siblings d)) = messages d"
  "map i_message (inputs (snd (absorb_siblings now sc head siblings d))) = map i_message (inputs d)"
  by (simp_all add: absorb_siblings_def Let_def repoint_messages)

lemma absorb_siblings_inputs:
  assumes "head \<notin> t_id ` set siblings"
    and "j \<in> set (inputs (snd (absorb_siblings now sc head siblings d)))"
    and "(i_tenant j, i_agent j) = sc" and "message_of d sc j \<noteq> None"
  shows "i_turn j \<notin> set (fst (fst (absorb_siblings now sc head siblings d)))"
proof -
  let ?absorbed = "map t_id (filter (sibling_cond sc siblings) (turns d))"
  let ?d1 = "d\<lparr>turns := update_where (sibling_cond sc siblings) (superseded_row now head) (turns d)\<rparr>"
  let ?ranked = "absorbed_inputs ?d1 sc ?absorbed"
  have fstfst: "fst (fst (absorb_siblings now sc head siblings d)) = ?absorbed"
    by (simp add: absorb_siblings_def Let_def)
  have sub: "set ?absorbed \<subseteq> t_id ` set siblings" by (auto simp: sibling_cond_def)
  show ?thesis
  proof (cases "siblings = [] \<or> ?absorbed = []")
    case True
    then show ?thesis by (auto simp: fstfst filter_empty_conv sibling_cond_def)
  next
    case False
    with assms(2) have "j \<in> set (repoint_inputs sc head ?ranked (inputs d))"
      by (simp add: absorb_siblings_def Let_def)
    then show ?thesis
    proof (cases rule: repoint_input_cases)
      case same
      then have "j \<notin> set ?ranked" using assms(3) by auto
      with same(1) assms(3,4) show ?thesis
        by (auto simp: fstfst absorbed_inputs_mem message_of_def)
    next
      case moved
      with assms(1) sub show ?thesis by (auto simp: fstfst)
    qed
  qed
qed

lemma absorbed_all:
  assumes ids: "distinct (map t_id (turns d))" and sub: "set siblings \<subseteq> set (turns d)"
    and siblings: "\<forall>q \<in> set siblings. openDebounceWindowMembers sc stream q"
  shows "set (fst (fst (absorb_siblings now sc head siblings d))) = t_id ` set siblings"
proof -
  have "sibling_cond sc siblings q" if "q \<in> set siblings" for q
    using that siblings by (auto simp: sibling_cond_def openDebounceWindowMembers_def)
  then show ?thesis
    using sub by (auto simp: absorb_siblings_def Let_def sibling_cond_def)
qed

lemma close_ended_windows_rest [simp]:
  "messages (close_ended_windows now sc stream d) = messages d"
  "inputs (close_ended_windows now sc stream d) = inputs d"
  by (simp_all add: close_ended_windows_def)

text \<open>The head and its siblings when a batch closes: where their rows are, before and after.\<close>

lemma closed_rows:
  assumes ids: "distinct (map t_id (turns d1))"
    and members: "debounceBatchPrefix sc stream d1 = head # siblings"
    and u: "List.find (close_head_cond d1 sc head) (turns d1) = Some u"
    and d2: "d2 = d1\<lparr>turns := update_where (close_head_cond d1 sc head) (closed_head_row now l b) (turns d1)\<rparr>"
  shows "t_id u = t_id head" and "t_id head \<notin> t_id ` set siblings"
    and "distinct (map t_id (turns d2))" and "set siblings \<subseteq> set (turns d2)"
    and "\<forall>q \<in> set siblings. openDebounceWindowMembers sc stream q"
    and "closed_head_row now l b u \<in> set (turns d2)"
proof -
  have mem: "q \<in> set (turns d1) \<and> openDebounceWindowMembers sc stream q" if "q \<in> set (head # siblings)" for q
    using that debounceBatchPrefix_member [of q sc stream d1] members by simp
  have dist: "distinct (map t_id (head # siblings))"
    using debounceBatchPrefix_distinct [OF ids, of sc stream] members by simp
  show "t_id u = t_id head" and fresh: "t_id head \<notin> t_id ` set siblings"
    using find_SomeD [OF u] dist by (auto simp: close_head_cond_def)
  have "map t_id (turns d2) = map t_id (turns d1)"
    by (simp add: d2 map_update_where_same)
  with ids show "distinct (map t_id (turns d2))" by simp
  have "\<not> close_head_cond d1 sc head q" if "q \<in> set siblings" for q
    using that fresh by (auto simp: close_head_cond_def is_turn_def image_iff)
  with mem show "set siblings \<subseteq> set (turns d2)"
    by (fastforce simp: d2 set_update_where image_iff)
  show "\<forall>q \<in> set siblings. openDebounceWindowMembers sc stream q" using mem by simp
  show "closed_head_row now l b u \<in> set (turns d2)"
    using find_SomeD [OF u] by (auto simp: d2 set_update_where intro: image_eqI [of _ _ u])
qed

lemma absorb_siblings_rows:
  assumes "set siblings \<subseteq> set (turns d)" and "\<forall>q \<in> set siblings. openDebounceWindowMembers sc stream q"
    and "h \<notin> t_id ` set siblings"
  shows "r \<in> set (turns d) \<Longrightarrow> t_id r = h \<Longrightarrow> r \<in> set (turns (snd (absorb_siblings now sc h siblings d)))"
    and "q \<in> set siblings \<Longrightarrow>
           superseded_row now h q \<in> set (turns (snd (absorb_siblings now sc h siblings d)))"
proof -
  show "r \<in> set (turns (snd (absorb_siblings now sc h siblings d)))"
    if "r \<in> set (turns d)" "t_id r = h"
    using that assms(3)
    by (auto simp: set_update_where sibling_cond_def intro!: image_eqI [of _ _ r])
  show "superseded_row now h q \<in> set (turns (snd (absorb_siblings now sc h siblings d)))"
    if "q \<in> set siblings"
    using that assms(1,2)
    by (auto simp: set_update_where sibling_cond_def openDebounceWindowMembers_def
        intro!: image_eqI [of _ _ q])
qed

text \<open>
  C9. Closing a batch loses nothing: the set of input messages and the messages themselves are
  the same before and after; the batch is the head with its siblings in sequence order; the head
  is queued with its window closed and counts the whole batch, and owns the inputs: every sibling is
  reported absorbed and superseded by the head, and no input of a known message points to an absorbed
  turn any more.
\<close>

theorem close_batch_conserves:
  assumes "closeDueDebounceBatchTx now sc lf stream d = (Inr b, d')" and "store_ok d"
  shows "messages d' = messages d \<and> map i_message (inputs d') = map i_message (inputs d)
    \<and> (\<exists>head siblings. debounceBatchPrefix sc stream (close_ended_windows now sc stream d) = head # siblings
         \<and> bc_size b = length siblings + 1 \<and> sp_turn (bc_head b) = t_id head
         \<and> set (bc_absorbed_turns b) = t_id ` set siblings
         \<and> (\<exists>u \<in> set (turns d'). t_id u = t_id head \<and> t_status u = Queued
              \<and> t_window_closed u = Some now \<and> t_batch_size u = Some (bc_size b))
         \<and> list_all (\<lambda>q. \<exists>u \<in> set (turns d'). t_id u = t_id q \<and> t_status u = Superseded
              \<and> t_outcome u = Some Merged_Into_Turn \<and> t_superseded_by u = Some (t_id head)) siblings)
    \<and> list_all (\<lambda>j. i_turn j \<notin> set (bc_absorbed_turns b))
        (filter (\<lambda>j. (i_tenant j, i_agent j) = sc \<and> message_of d' sc j \<noteq> None) (inputs d'))"
proof (cases rule: closeDueDebounceBatchTx_cases [of now sc lf stream d])
  case (closed head siblings u d2)
  let ?d1 = "close_ended_windows now sc stream d"
  let ?run = "absorb_siblings now sc (t_id head) siblings d2"
  have ids: "distinct (map t_id (turns ?d1))"
    using db_evolves_ids [OF close_ended_windows_evolves store_ok_ids [OF assms(2)]] .
  note rows = closed_rows [OF ids closed(1,4,5)]
  have b: "bc_size b = length siblings + 1" "sp_turn (bc_head b) = t_id head"
    "bc_absorbed_turns b = fst (fst ?run)" and d': "d' = snd ?run"
    using assms(1) closed(6) rows(1) by auto
  have all: "set (bc_absorbed_turns b) = t_id ` set siblings"
    unfolding b by (rule absorbed_all [OF rows(3,4,5)])
  have kept: "messages d' = messages d" "map i_message (inputs d') = map i_message (inputs d)"
    by (simp_all add: d' absorb_siblings_rest closed(5))
  have head: "\<exists>u \<in> set (turns d'). t_id u = t_id head \<and> t_status u = Queued
      \<and> t_window_closed u = Some now \<and> t_batch_size u = Some (bc_size b)"
    using absorb_siblings_rows(1) [OF rows(4,5,2,6), of now] rows(1)
    by (auto simp: d' b(1) closed_head_row_def intro: bexI [rotated])
  have gone: "\<exists>u \<in> set (turns d'). t_id u = t_id q \<and> t_status u = Superseded
      \<and> t_outcome u = Some Merged_Into_Turn \<and> t_superseded_by u = Some (t_id head)"
    if "q \<in> set siblings" for q
    using absorb_siblings_rows(2) [OF rows(4,5,2) that, of now]
    by (intro bexI [of _ "superseded_row now (t_id head) q"]) (simp_all add: d')
  have free: "i_turn j \<notin> set (bc_absorbed_turns b)"
    if "j \<in> set (inputs d')" "(i_tenant j, i_agent j) = sc" "message_of d' sc j \<noteq> None" for j
    using absorb_siblings_inputs [OF rows(2), of j now sc d2] that
    by (simp add: d' b message_of_def absorb_siblings_rest)
  show ?thesis
    using kept b(1,2) all head gone free closed(1) by (auto simp: list_all_iff)
qed (use assms(1) in simp_all)

theorem close_batch_conserves_witness:
  "case closeDueDebounceBatchTx 30 demo_scope True ''s'' (demo_db [demo_open 1 1, demo_open 2 2]) of
     (Inr b, d') \<Rightarrow> bc_size b = 2 \<and> map i_message (inputs d') = [101, 102]
   | _ \<Rightarrow> False"
proof -
  let ?d = "demo_db [demo_open 1 1, demo_open 2 2]"
  let ?run = "closeDueDebounceBatchTx 30 demo_scope True ''s'' ?d"
  have "(case fst ?run of Inr b \<Rightarrow> bc_size b = 2 | _ \<Rightarrow> False)" by code_simp
  then obtain b where b: "fst ?run = Inr b" "bc_size b = 2" by (auto split: sum.splits)
  then have run: "?run = (Inr b, snd ?run)" by (metis prod.collapse)
  have "store_ok ?d"
    by (simp add: store_ok_def demo_simps row_checks_def agent_turns_superseded_by_chk_def
        agent_turns_stream_active_uq_def occupies_def status_simps)
  moreover have "map i_message (inputs ?d) = [101, 102]" by (simp add: demo_simps)
  ultimately have "map i_message (inputs (snd ?run)) = [101, 102]"
    using close_batch_conserves [OF run] by simp
  with b(2) show ?thesis by (subst run) simp
qed

end
