(* ===== verification/Turn_System.thy ===== *)
theory Turn_System
  imports Turn_Methods Turn_Claim Turn_Ingress
begin

text \<open>
  The turn store as a system: every public operation of the repository is one step on the database,
  in any order, for any tenant, clock and configuration, since each of them runs in one
  transaction. The state also remembers the claim tokens issued so far, because
  \<open>gen_random_uuid()\<close> never gives one twice; that is the only thing assumed of it. A step is
  labelled with the scope it runs in and with whether it is a manual transition. The table of
  conversation controls belongs to another component, so a step may put anything of the scope there.
\<close>

type_synonym system = "db \<times> uuid set"

inductive turn_step :: "bool \<Rightarrow> scope \<Rightarrow> system \<Rightarrow> system \<Rightarrow> bool" where
  step_transition:
    "turn_step (ti_manual i) sc (d, ks) (committed (transitionTurn cfg now bid sc i d) d, ks)"
| step_recovered_outbound:
    "turn_step False sc (d, ks)
       (committed (completeRecoveredOutboundTurnInTx cfg now bid sc tid v oc d) d, ks)"
| step_cancel_backlog:
    "turn_step False sc (d, ks) (committed (cancelHeldBacklogTurnInTx cfg now bid sc tid v d) d, ks)"
| step_claim:
    "k \<notin> ks \<Longrightarrow>
     turn_step False sc (d, ks) (snd (claimNextEligibleTurn cfg now sc tid w ms k d), insert k ks)"
| step_renew:
    "turn_step False sc (d, ks) (snd (renewTurnLease now sc tid k ms d), ks)"
| step_release:
    "turn_step False sc (d, ks) (snd (releaseTurnClaim now sc tid k d), ks)"
| step_ingress:
    "turn_step False sc (d, ks)
       (committed (createReceivedTurnTx cfg now sc m channel dl stream tid iid d) d, ks)"
| step_sequenced_inbound:
    "turn_step False sc (d, ks) (committed (createSequencedInboundTx sc m channel stream d) d, ks)"
| step_ensure:
    "turn_step False sc (d, ks) (committed (ensureTurnForMessage now sc tid iid m dl d) d, ks)"
| step_attach:
    "turn_step False sc (d, ks) (snd (attachInputTx iid sc tid mid n d), ks)"
| step_boundary:
    "turn_step False sc (d, ks) (snd (extendTurnStreamBoundaryTx now sc tid mids d), ks)"
| step_close_batch:
    "turn_step False sc (d, ks) (snd (closeDueDebounceBatchTx now sc lf st d), ks)"
| step_unblock:
    "turn_step False sc (d, ks) (snd (unblockTx now sc bid actor reason d), ks)"
| step_control:
    "filter (\<lambda>c. (c_tenant c, c_agent c) \<noteq> sc) cs =
       filter (\<lambda>c. (c_tenant c, c_agent c) \<noteq> sc) (controls d) \<Longrightarrow>
     turn_step False sc (d, ks) (d\<lparr>controls := cs\<rparr>, ks)"

inductive_simps turn_step_simps: "turn_step by_hand sc (d, ks) (d', ks')"
inductive_cases turn_stepE: "turn_step by_hand sc (d, ks) (d', ks')"

text \<open>The store starts empty.\<close>

definition empty_db :: db where
  "empty_db = \<lparr>turns = [], sequences = [], blocks = [], controls = [], inputs = [], messages = []\<rparr>"

inductive reachable :: "system \<Rightarrow> bool" where
  reachable_init: "reachable (empty_db, {})"
| reachable_step: "reachable s \<Longrightarrow> turn_step by_hand sc s s' \<Longrightarrow> reachable s'"

text \<open>A run of the system, and one in which every step is automatic.\<close>

inductive turn_run :: "bool \<Rightarrow> system \<Rightarrow> system \<Rightarrow> bool" for by_hand :: bool where
  run_refl: "turn_run by_hand s s"
| run_step: "turn_run by_hand s s' \<Longrightarrow> turn_step m sc s' s'' \<Longrightarrow> m \<longrightarrow> by_hand \<Longrightarrow> turn_run by_hand s s''"

section \<open>One step\<close>

lemma control_operation:
  assumes "filter (\<lambda>c. (c_tenant c, c_agent c) \<noteq> sc) cs =
             filter (\<lambda>c. (c_tenant c, c_agent c) \<noteq> sc) (controls d)"
  shows "foreign_tables sc (d\<lparr>controls := cs\<rparr>) = foreign_tables sc d"
  using assms by (simp add: foreign_tables_def)

text \<open>Every step keeps the contract; only a claim adds a token, and it is a new one.\<close>

lemmas operation_laws =
  transition.evolves recovered_outbound.evolves backlog_cancel.evolves claim.evolves renew.evolves
  release.evolves ingress.evolves sequenced_inbound.evolves ensure_turn.evolves
  attach_input.evolves boundary.evolves close_batch.evolves unblock.evolves

lemmas operation_exclusive =
  transition.exclusive recovered_outbound.exclusive backlog_cancel.exclusive claim.exclusive
  renew.exclusive release.exclusive ingress.exclusive sequenced_inbound.exclusive
  ensure_turn.exclusive attach_input.exclusive boundary.exclusive close_batch.exclusive
  unblock.exclusive

lemmas operation_confined =
  transition.confined recovered_outbound.confined backlog_cancel.confined claim.confined
  renew.confined release.confined ingress.confined sequenced_inbound.confined
  ensure_turn.confined attach_input.confined boundary.confined close_batch.confined
  unblock.confined control_operation

lemma step_evolves:
  assumes "turn_step by_hand sc (d, ks) (d', ks')" and "distinct (map t_id (turns d))"
  obtains (quiet) "db_evolves by_hand sc None d d'" and "ks' = ks"
  | (claim) k where "db_evolves by_hand sc (Some k) d d'" and "k \<notin> ks" and "ks' = insert k ks"
  using assms(1)
proof (cases rule: turn_step.cases)
  case (step_claim k cfg now tid w ms)
  with assms(2) show ?thesis by (intro claim [of k]) (simp_all add: claim.evolves)
next
  case (step_control cs)
  then show ?thesis by (intro quiet) auto
qed (use assms(2) operation_laws in \<open>auto intro!: quiet\<close>)

lemma step_uq:
  "turn_step by_hand sc (d, ks) (d', ks') \<Longrightarrow> agent_turns_stream_active_uq (turns d) \<Longrightarrow>
     agent_turns_stream_active_uq (turns d')"
  by (erule turn_stepE) (simp_all add: operation_exclusive)

lemma step_confined:
  "turn_step by_hand sc (d, ks) (d', ks') \<Longrightarrow> foreign_tables sc d' = foreign_tables sc d"
  by (erule turn_stepE) (simp_all add: operation_confined)

lemma step_preserves:
  assumes "turn_step by_hand sc (d, ks) (d', ks')" and "store_ok d"
  shows "store_ok d'"
proof -
  have ids: "distinct (map t_id (turns d))" and chk: "\<forall>r \<in> set (turns d). row_checks r"
    and uq: "agent_turns_stream_active_uq (turns d)"
    using assms(2) by (simp_all add: store_ok_def)
  from assms(1) ids obtain fresh where "db_evolves by_hand sc fresh d d'" by (rule step_evolves)
  with ids chk uq step_uq [OF assms(1)] show ?thesis
    using db_evolves_ids db_evolves_checks unfolding store_ok_def by blast
qed

section \<open>Reachable states and runs\<close>

lemma step_preserves_sys: "turn_step m sc s s' \<Longrightarrow> store_ok (fst s) \<Longrightarrow> store_ok (fst s')"
  by (cases s; cases s') (auto intro: step_preserves)

lemma reachable_store_ok: "reachable s \<Longrightarrow> store_ok (fst s)"
proof (induction rule: reachable.induct)
  case reachable_init
  show ?case by (simp add: empty_db_def store_ok_def agent_turns_stream_active_uq_def)
next
  case (reachable_step s m sc s')
  then show ?case by (blast intro: step_preserves_sys)
qed

lemma run_preserves: "turn_run b s s' \<Longrightarrow> store_ok (fst s) \<Longrightarrow> store_ok (fst s')"
  by (induction rule: turn_run.induct) (auto intro: step_preserves_sys)

lemma run_reachable: "turn_run b s s' \<Longrightarrow> reachable s \<Longrightarrow> reachable s'"
  by (induction rule: turn_run.induct) (auto intro: reachable_step)

lemma step_tokens_grow: "turn_step m sc (d, ks) (d', ks') \<Longrightarrow> ks \<subseteq> ks'"
  by (erule turn_stepE) auto

text \<open>The tokens written in the rows are tokens that were issued.\<close>

definition tokens_issued :: "system \<Rightarrow> bool" where
  "tokens_issued s \<longleftrightarrow> (\<forall>r \<in> set (turns (fst s)). \<forall>k. t_token r = Some k \<longrightarrow> k \<in> snd s)"

lemma evolves_tokens:
  assumes "db_evolves m sc fresh d d'" and "r' \<in> set (turns d')" and "t_token r' = Some k"
  shows "fresh = Some k \<or> (\<exists>r \<in> set (turns d). t_id r = t_id r' \<and> t_token r = Some k)"
  using assms(1,2)
proof (cases rule: db_evolves_backward)
  case (old r)
  with assms(3) show ?thesis by (auto simp: row_evolution)
next
  case added
  with assms(3) show ?thesis by (auto simp: new_row_def)
qed

lemma step_tokens:
  assumes "turn_step m sc (d, ks) (d', ks')" and "store_ok d" and "tokens_issued (d, ks)"
  shows "tokens_issued (d', ks')"
  using assms(1) store_ok_ids [OF assms(2)]
proof (cases rule: step_evolves)
  case quiet
  with assms(3) show ?thesis
    unfolding tokens_issued_def by (auto dest: evolves_tokens)
next
  case (claim k)
  with assms(3) show ?thesis
    unfolding tokens_issued_def by (auto dest: evolves_tokens)
qed

lemma reachable_tokens: "reachable s \<Longrightarrow> tokens_issued s"
proof (induction rule: reachable.induct)
  case reachable_init
  show ?case by (simp add: empty_db_def tokens_issued_def)
next
  case (reachable_step s m sc s')
  from reachable_store_ok [OF reachable_step.hyps(1)] reachable_step show ?case
    using step_tokens [of m sc "fst s" "snd s" "fst s'" "snd s'"] by simp
qed

text \<open>What a run may have done to one row.\<close>

definition row_history :: "bool \<Rightarrow> turn \<Rightarrow> turn \<Rightarrow> bool" where
  "row_history by_hand r q \<longleftrightarrow>
     t_id q = t_id r \<and> t_tenant q = t_tenant r \<and> t_agent q = t_agent r \<and> t_stream q = t_stream r
     \<and> t_version r \<le> t_version q
     \<and> (t_version q = t_version r \<longrightarrow>
          t_status q = t_status r \<and> t_outcome q = t_outcome r \<and> t_token q = t_token r)
     \<and> (isTerminalTurnStatus (t_status r) \<longrightarrow>
          t_status q = t_status r \<and> t_outcome q = t_outcome r \<and> t_version q = t_version r
          \<or> by_hand \<and> t_status r = Dead_Letter)"

lemma row_history_refl [simp]: "row_history b r r"
  by (simp add: row_history_def)

lemma row_evolves_history: "row_evolves m sc fresh r q \<Longrightarrow> m \<longrightarrow> b \<Longrightarrow> row_history b r q"
  by (auto simp: row_evolution row_history_def)

lemma row_history_trans:
  assumes "row_history b r q" and "row_history b q p"
  shows "row_history b r p"
proof -
  from assms have ver: "t_version r \<le> t_version q" "t_version q \<le> t_version p"
    by (simp_all add: row_history_def)
  have same: "t_status p = t_status r \<and> t_outcome p = t_outcome r \<and> t_token p = t_token r"
    if "t_version p = t_version r"
    using that ver assms by (simp add: row_history_def)
  have ended: "t_status p = t_status r \<and> t_outcome p = t_outcome r \<and> t_version p = t_version r
      \<or> b \<and> t_status r = Dead_Letter" if "isTerminalTurnStatus (t_status r)"
    using that assms by (auto simp: row_history_def)
  from assms ver same ended show ?thesis by (simp add: row_history_def)
qed

lemma step_row:
  assumes "turn_step m sc (d, ks) (d', ks')" and "store_ok d" and "r \<in> set (turns d)" and "m \<longrightarrow> b"
  obtains q where "q \<in> set (turns d')" and "row_history b r q"
    and "\<And>k. k \<in> ks \<Longrightarrow> t_token r \<noteq> Some k \<Longrightarrow> t_token q \<noteq> Some k"
  using assms(1) store_ok_ids [OF assms(2)]
proof (cases rule: step_evolves)
  case quiet
  from db_evolves_forward [OF quiet(1) assms(3)] obtain q
    where "q \<in> set (turns d')" "row_evolves m sc None r q" .
  with assms(4) show ?thesis
    by (intro that [of q]) (auto intro: row_evolves_history simp: row_evolution)
next
  case (claim k)
  from db_evolves_forward [OF claim(1) assms(3)] obtain q
    where "q \<in> set (turns d')" "row_evolves m sc (Some k) r q" .
  with assms(4) claim(2) show ?thesis
    by (intro that [of q]) (auto intro: row_evolves_history simp: row_evolution)
qed

lemma run_row:
  assumes "turn_run b s s'" and "store_ok (fst s)" and "r \<in> set (turns (fst s))"
  shows "\<exists>q \<in> set (turns (fst s')). row_history b r q
           \<and> (\<forall>k \<in> snd s. t_token r \<noteq> Some k \<longrightarrow> t_token q \<noteq> Some k) \<and> snd s \<subseteq> snd s'"
  using assms
proof (induction rule: turn_run.induct)
  case (run_refl s)
  then show ?case by (intro bexI [of _ r]) auto
next
  case (run_step s s' m sc s'')
  then obtain q where q: "q \<in> set (turns (fst s'))" "row_history b r q"
    "\<forall>k \<in> snd s. t_token r \<noteq> Some k \<longrightarrow> t_token q \<noteq> Some k" "snd s \<subseteq> snd s'" by blast
  obtain e ks e' ks' where es: "s' = (e, ks)" "s'' = (e', ks')" by (cases s'; cases s'')
  have "store_ok e" using run_preserves [OF run_step.hyps(1) run_step.prems(1)] es by simp
  have st: "turn_step m sc (e, ks) (e', ks')" using run_step.hyps(2) es by simp
  have "q \<in> set (turns e)" using q(1) es by simp
  from step_row [OF st \<open>store_ok e\<close> this run_step.hyps(3)] obtain p
    where p: "p \<in> set (turns e')" "row_history b q p"
    "\<And>k. k \<in> ks \<Longrightarrow> t_token q \<noteq> Some k \<Longrightarrow> t_token p \<noteq> Some k" by blast
  show ?case
  proof (rule bexI [of _ p])
    show "p \<in> set (turns (fst s''))" using p(1) es by simp
    show "row_history b r p \<and> (\<forall>k \<in> snd s. t_token r \<noteq> Some k \<longrightarrow> t_token p \<noteq> Some k) \<and> snd s \<subseteq> snd s''"
      using row_history_trans [OF q(2) p(2)] q(3,4) p(3) es step_tokens_grow [OF st] by auto
  qed
qed

text \<open>The same for the row that has the id now.\<close>

lemma run_row_of:
  assumes "turn_run b s s'" and "store_ok (fst s)" and "r \<in> set (turns (fst s))"
    and "r' \<in> set (turns (fst s'))" and "t_id r' = t_id r"
  shows "row_history b r r'"
    and "k \<in> snd s \<Longrightarrow> t_token r \<noteq> Some k \<Longrightarrow> t_token r' \<noteq> Some k"
proof -
  from run_row [OF assms(1-3)] obtain q where q: "q \<in> set (turns (fst s'))" "row_history b r q"
    "\<forall>k \<in> snd s. t_token r \<noteq> Some k \<longrightarrow> t_token q \<noteq> Some k" by blast
  have "distinct (map t_id (turns (fst s')))"
    using run_preserves [OF assms(1,2)] by (rule store_ok_ids)
  moreover have "t_id q = t_id r" using q(2) by (simp add: row_history_def)
  ultimately have "r' = q" using q(1) assms(4,5) by (metis distinct_map_eqD)
  with q(2,3) show "row_history b r r'"
    and "k \<in> snd s \<Longrightarrow> t_token r \<noteq> Some k \<Longrightarrow> t_token r' \<noteq> Some k" by blast+
qed

end
