(* ===== verification/Poison_Policy.thy ===== *)
theory Poison_Policy
  imports Turn_Contract
begin

text \<open>
  The poison policy of a stream (src/runtime/turns/poison-policy.ts): the category of a dead
  letter read from its normalised error code, whether a category blocks the stream, and the
  parser of the operator's list of blocking categories, which fails closed.
\<close>

section \<open>Categories\<close>

datatype poison_category =
    Effect_Committed | Model_Failure | Transport | Infrastructure | Operator | Unknown_Cause

datatype poison_disposition = Release | Block_Stream

definition POISON_CATEGORIES :: "poison_category list" where
  "POISON_CATEGORIES =
     [Effect_Committed, Model_Failure, Transport, Infrastructure, Operator, Unknown_Cause]"

fun category_name :: "poison_category \<Rightarrow> string" where
  "category_name Effect_Committed = ''effect_committed''"
| "category_name Model_Failure = ''model''"
| "category_name Transport = ''transport''"
| "category_name Infrastructure = ''infrastructure''"
| "category_name Operator = ''operator''"
| "category_name Unknown_Cause = ''unknown''"

definition DEFAULT_POISON_BLOCK_CATEGORIES :: "poison_category list" where
  "DEFAULT_POISON_BLOCK_CATEGORIES = [Effect_Committed]"

definition CLASSIFICACAO :: "(poison_category \<times> string list) list" where
  "CLASSIFICACAO =
     [(Effect_Committed, [''side_effect'', ''effect_committed'', ''unsafe_to_retry'', ''irreversible'']),
      (Model_Failure, [''reasoner_failed'', ''llm_'', ''model_'', ''anthropic_'',
         ''empty_final_text'', ''iteration_cap'', ''prompt_'']),
      (Transport, [''outbound_'', ''send_'', ''delivery_'', ''baileys_'', ''whatsapp_'']),
      (Infrastructure, [''db_'', ''database_'', ''postgres_'', ''redis_'', ''queue_'', ''lease_'',
         ''stale_claim'', ''timeout'', ''econn'', ''network_'']),
      (Operator, [''operator_'', ''cancelled_by_operator''])]"

section \<open>Classification\<close>

fun startsWith :: "string \<Rightarrow> string \<Rightarrow> bool" where
  "startsWith cs [] = True"
| "startsWith [] (p # ps) = False"
| "startsWith (c # cs) (p # ps) = (c = p \<and> startsWith cs ps)"

fun first_category :: "string \<Rightarrow> (poison_category \<times> string list) list \<Rightarrow> poison_category" where
  "first_category code [] = Unknown_Cause"
| "first_category code ((categoria, prefixos) # rest) =
     (if list_ex (\<lambda>prefixo. code = prefixo \<or> startsWith code prefixo) prefixos then categoria
      else first_category code rest)"

definition classifyPoison :: "string option \<Rightarrow> turn_outcome option \<Rightarrow> poison_category" where
  "classifyPoison error_code outcome =
     (if outcome = Some Unsafe_To_Retry then Effect_Committed
      else if outcome = Some Operator_Cancelled then Operator
      else
        (let code = (case error_code of None \<Rightarrow> [] | Some c \<Rightarrow> map js_lower (js_trim c))
         in if length code = 0 then Unknown_Cause else first_category code CLASSIFICACAO))"

definition poisonDisposition :: "poison_category \<Rightarrow> poison_category set \<Rightarrow> poison_disposition" where
  "poisonDisposition category blockCategories =
     (if category \<in> blockCategories then Block_Stream else Release)"

section \<open>The operator's list\<close>

text \<open>\<open>raw.split(',')\<close>: the separators go, and there is one part more than separators.\<close>

fun split_on :: "char \<Rightarrow> string \<Rightarrow> string list" where
  "split_on sep [] = [[]]"
| "split_on sep (c # cs) =
     (if c = sep then [] # split_on sep cs
      else (case split_on sep cs of p # ps \<Rightarrow> (c # p) # ps | [] \<Rightarrow> [[c]]))"

fun parse_parts :: "string list \<Rightarrow> poison_category set \<Rightarrow> string + poison_category set" where
  "parse_parts [] acc = Inr acc"
| "parse_parts (parte # rest) acc =
     (let nome = map js_lower (js_trim parte)
      in if length nome = 0 then parse_parts rest acc
         else (case List.find (\<lambda>c. category_name c = nome) POISON_CATEGORIES of
                 None \<Rightarrow> Inl nome
               | Some c \<Rightarrow> parse_parts rest (insert c acc)))"

definition parsePoisonBlockCategories :: "string option \<Rightarrow> string + poison_category set" where
  "parsePoisonBlockCategories raw =
     (case raw of None \<Rightarrow> Inr {} | Some r \<Rightarrow> parse_parts (split_on (CHR '','') r) {})"

section \<open>Lemmas\<close>

lemma POISON_CATEGORIES_all [simp]: "c \<in> set POISON_CATEGORIES"
  by (cases c) (simp_all add: POISON_CATEGORIES_def)

lemma startsWith_iff: "startsWith cs ps \<longleftrightarrow> (\<exists>rest. cs = ps @ rest)"
  by (induction cs ps rule: startsWith.induct) auto

lemma prefix_match [simp]: "code = p \<or> startsWith code p \<longleftrightarrow> startsWith code p"
  by (auto simp: startsWith_iff)

lemma first_category_SomeD:
  "first_category code table = c \<Longrightarrow> c \<noteq> Unknown_Cause \<Longrightarrow>
     \<exists>ps. (c, ps) \<in> set table \<and> (\<exists>p \<in> set ps. startsWith code p)"
  by (induction code table rule: first_category.induct)
    (auto simp: list_ex_iff split: if_splits)

text \<open>Two strings that both begin another one begin one the other.\<close>

lemma startsWith_comparable:
  "startsWith code p \<Longrightarrow> startsWith code q \<Longrightarrow> startsWith p q \<or> startsWith q p"
  by (auto simp: startsWith_iff append_eq_append_conv2)

definition disjoint_table :: "(poison_category \<times> string list) list \<Rightarrow> bool" where
  "disjoint_table table =
     list_all (\<lambda>(c, ps). list_all (\<lambda>(c', qs). c = c' \<or>
        list_all (\<lambda>p. list_all (\<lambda>q. \<not> startsWith p q \<and> \<not> startsWith q p) qs) ps) table) table"

lemma CLASSIFICACAO_disjoint: "disjoint_table CLASSIFICACAO"
  by code_simp

lemma table_match_unique:
  assumes "(c, ps) \<in> set CLASSIFICACAO" and "p \<in> set ps" and "startsWith code p"
    and "(c', qs) \<in> set CLASSIFICACAO" and "q \<in> set qs" and "startsWith code q"
  shows "c = c'"
proof -
  have "\<forall>e \<in> set CLASSIFICACAO. \<forall>e' \<in> set CLASSIFICACAO. fst e = fst e' \<or>
      (\<forall>p \<in> set (snd e). \<forall>q \<in> set (snd e'). \<not> startsWith p q \<and> \<not> startsWith q p)"
    using CLASSIFICACAO_disjoint unfolding disjoint_table_def list_all_iff split_beta .
  from bspec [OF bspec [OF this assms(1)] assms(4), unfolded fst_conv snd_conv]
    assms(2,5) startsWith_comparable [OF assms(3,6)] show ?thesis by blast
qed

lemma first_category_match:
  assumes "(c, ps) \<in> set table" and "p \<in> set ps" and "startsWith code p"
    and "\<And>c' qs q. (c', qs) \<in> set table \<Longrightarrow> q \<in> set qs \<Longrightarrow> startsWith code q \<Longrightarrow> c' = c"
  shows "first_category code table = c"
  using assms
proof (induction code table rule: first_category.induct)
  case (2 code c1 ps1 rest)
  show ?case
  proof (cases "list_ex (\<lambda>q. code = q \<or> startsWith code q) ps1")
    case True
    then obtain q where "q \<in> set ps1" "startsWith code q"
      by (auto simp: list_ex_iff)
    with 2(5) [of c1 ps1 q] True show ?thesis by simp
  next
    case False
    with 2(2-4) have mem: "(c, ps) \<in> set rest" by (auto simp: list_ex_iff)
    have "first_category code rest = c"
    proof (rule 2(1) [OF False mem 2(3,4)])
      fix c' qs q
      assume "(c', qs) \<in> set rest" "q \<in> set qs" "startsWith code q"
      then show "c' = c" using 2(5) [of c' qs q] by simp
    qed
    with False show ?thesis by simp
  qed
qed simp

section \<open>Properties\<close>

text \<open>
  The classification does not depend on the order of its table: a code that begins with a
  prefix of a category is given this category, whatever comes before it, and a code that begins
  with none is of unknown cause, so an unclassified failure is never taken for a known one. The
  outcomes that decide alone do so whatever the code says.
\<close>

lemma classification_by_prefix:
  "classifyPoison code (Some Unsafe_To_Retry) = Effect_Committed
   \<and> classifyPoison code (Some Operator_Cancelled) = Operator
   \<and> (classifyPoison (Some c) None = cat \<longleftrightarrow>
        (let low = map js_lower (js_trim c);
             hit = (\<lambda>entry. list_ex (startsWith low) (snd entry))
         in if list_ex hit CLASSIFICACAO
            then list_ex (\<lambda>entry. fst entry = cat \<and> hit entry) CLASSIFICACAO
            else cat = Unknown_Cause))"
proof -
  let ?low = "map js_lower (js_trim c)"
  have empty: "\<not> startsWith [] p" if "(k, ps) \<in> set CLASSIFICACAO" "p \<in> set ps" for k ps p
  proof -
    have "list_all (\<lambda>(k, ps). list_all (\<lambda>p. \<not> startsWith [] p) ps) CLASSIFICACAO" by code_simp
    with that show ?thesis by (fastforce simp: list_all_iff)
  qed
  have step: "classifyPoison (Some c) None = first_category ?low CLASSIFICACAO"
  proof (cases "?low = []")
    case True
    have "first_category [] CLASSIFICACAO = Unknown_Cause" by code_simp
    with True show ?thesis by (simp add: classifyPoison_def)
  next
    case False
    then show ?thesis by (simp add: classifyPoison_def Let_def)
  qed
  have none: "first_category ?low CLASSIFICACAO = Unknown_Cause"
    if "\<not> list_ex (\<lambda>entry. list_ex (startsWith ?low) (snd entry)) CLASSIFICACAO"
    using first_category_SomeD [of ?low CLASSIFICACAO, OF refl] that by (fastforce simp: list_ex_iff)
  have some: "first_category ?low CLASSIFICACAO = k"
    if "(k, ps) \<in> set CLASSIFICACAO" "p \<in> set ps" "startsWith ?low p" for k ps p
    using that table_match_unique by (blast intro: first_category_match)
  have "first_category ?low CLASSIFICACAO = cat \<longleftrightarrow>
      (if list_ex (\<lambda>entry. list_ex (startsWith ?low) (snd entry)) CLASSIFICACAO
       then list_ex (\<lambda>entry. fst entry = cat \<and> list_ex (startsWith ?low) (snd entry)) CLASSIFICACAO
       else cat = Unknown_Cause)"
    using none some by (auto simp: list_ex_iff) (metis fst_conv snd_conv)+
  then show ?thesis by (simp add: step Let_def) (simp add: classifyPoison_def)
qed

lemma category_name_inj: "category_name c = category_name c' \<Longrightarrow> c = c'"
  by (cases c; cases c') simp_all

lemma category_name_nonempty [simp]: "category_name c \<noteq> []"
  by (cases c) simp_all

definition unknown_name :: "string \<Rightarrow> bool" where
  "unknown_name n \<longleftrightarrow> n \<noteq> [] \<and> \<not> list_ex (\<lambda>c. category_name c = n) POISON_CATEGORIES"

lemma parse_parts_char:
  "parse_parts parts acc =
     (let names = map (\<lambda>p. map js_lower (js_trim p)) parts
      in case List.find unknown_name names of
           Some bad \<Rightarrow> Inl bad
         | None \<Rightarrow> Inr (acc \<union> {c. category_name c \<in> set names}))"
proof (induction parts acc rule: parse_parts.induct)
  case (1 acc)
  then show ?case by simp
next
  case (2 parte rest acc)
  let ?n = "map js_lower (js_trim parte)"
  show ?case
  proof (cases "?n = []")
    case True
    with 2(1) [OF refl] show ?thesis by (simp add: Let_def unknown_name_def split: option.split)
  next
    case False
    show ?thesis
    proof (cases "List.find (\<lambda>c. category_name c = ?n) POISON_CATEGORIES")
      case None
      have "parse_parts (parte # rest) acc = Inl ?n" using False by (simp add: Let_def None)
      moreover have "unknown_name ?n"
        using False None by (auto simp: unknown_name_def list_ex_iff find_None_iff_all)
      ultimately show ?thesis by simp
    next
      case (Some c)
      then have c: "category_name c = ?n" by (auto dest: find_SomeD)
      then have same: "insert c acc \<union> {x. category_name x \<in> S}
          = acc \<union> {x. category_name x \<in> insert ?n S}" for S
        using category_name_inj by (auto simp: c [symmetric])
      have "\<not> unknown_name ?n" using c by (auto simp: unknown_name_def list_ex_iff)
      moreover have "parse_parts (parte # rest) acc = parse_parts rest (insert c acc)"
        using False Some by (simp add: Let_def)
      ultimately show ?thesis
        using 2(2) [OF refl _ Some] False same by (simp add: Let_def split: option.split)
    qed
  qed
qed

text \<open>
  The operator's list is read without guessing: an absent list blocks nothing; otherwise the
  first part that is neither empty nor the name of a category, up to case and surrounding space, makes the whole
  reading fail and is reported, and a list without such a part gives exactly the categories it names.
\<close>

lemma parse_block_categories:
  "parsePoisonBlockCategories None = Inr {}
   \<and> parsePoisonBlockCategories (Some raw) =
       (let names = map (\<lambda>p. map js_lower (js_trim p)) (split_on (CHR '','') raw)
        in case List.find (\<lambda>n. n \<noteq> [] \<and> n \<notin> category_name ` UNIV) names of
             Some bad \<Rightarrow> Inl bad
           | None \<Rightarrow> Inr {c. category_name c \<in> set names})"
proof -
  have "unknown_name = (\<lambda>n. n \<noteq> [] \<and> n \<notin> category_name ` UNIV)"
    by (auto simp: unknown_name_def list_ex_iff fun_eq_iff)
  then show ?thesis
    by (simp add: parsePoisonBlockCategories_def parse_parts_char Let_def split: option.split)
qed

end
