(* ===== verification/Stream_Key.thy ===== *)
theory Stream_Key
  imports Turn_Contract
begin

text \<open>
  The identity of a stream (src/runtime/turns/stream-key.ts): normalisation of the remote
  identity, the canonical material as a sequence of netstrings, and the derivation of the key,
  which refuses what it cannot scope. Strings are code units below 256, for which UTF-8 takes one byte
  below 128 and two from there on. SHA-256 is a library function: it is the parameter \<open>sha\<close>.
\<close>

section \<open>Netstrings\<close>

definition digit_char :: "nat \<Rightarrow> char" where
  "digit_char n = char_of (48 + n)"

fun decimal :: "nat \<Rightarrow> string" where
  "decimal n = (if n < 10 then [digit_char n] else decimal (n div 10) @ [digit_char (n mod 10)])"

declare decimal.simps [simp del]

fun utf8_length :: "string \<Rightarrow> nat" where
  "utf8_length [] = 0"
| "utf8_length (c # cs) = (if (of_char c :: nat) < 128 then 1 else 2) + utf8_length cs"

definition lengthPrefixed :: "string \<Rightarrow> string" where
  "lengthPrefixed value = decimal (utf8_length value) @ [CHR '':''] @ value @ [CHR '','']"

definition STREAM_KEY_NAMESPACE :: string where
  "STREAM_KEY_NAMESPACE = ''maia.stream.v1''"

definition STREAM_KEY_VERSION :: nat where
  "STREAM_KEY_VERSION = 1"

definition STREAM_KEY_PREFIX :: string where
  "STREAM_KEY_PREFIX = ''v1:''"

definition canonicalStreamMaterial :: "string list \<Rightarrow> string" where
  "canonicalStreamMaterial components =
     lengthPrefixed STREAM_KEY_NAMESPACE @ concat (map lengthPrefixed components)"

section \<open>The remote identity\<close>

definition PHONE_CHANNEL_KINDS :: "string list" where
  "PHONE_CHANNEL_KINDS = [''whatsapp'', ''sms'']"

definition CHANNEL_KINDS :: "string list" where
  "CHANNEL_KINDS = [''whatsapp'', ''telegram'', ''email'', ''sms'', ''web'', ''api'', ''other'']"

definition RESERVED_SCOPE_LITERALS :: "string list" where
  "RESERVED_SCOPE_LITERALS = [''default'', ''system'']"

text \<open>\<open>s.split(sep)[0]\<close>.\<close>

definition before :: "char \<Rightarrow> string \<Rightarrow> string" where
  "before sep s = takeWhile (\<lambda>c. c \<noteq> sep) s"

fun drop_plus :: "string \<Rightarrow> string" where
  "drop_plus [] = []"
| "drop_plus (c # cs) = (if c = CHR ''+'' then cs else c # cs)"

definition is_digit :: "char \<Rightarrow> bool" where
  "is_digit c = (let n = of_char c :: nat in 48 \<le> n \<and> n \<le> 57)"

text \<open>\<open>/^[1-9][0-9]{6,19}$/\<close>.\<close>

definition phone_digits :: "string \<Rightarrow> bool" where
  "phone_digits s =
     (case s of [] \<Rightarrow> False
      | c # cs \<Rightarrow> is_digit c \<and> c \<noteq> CHR ''0'' \<and> list_all is_digit cs
          \<and> 6 \<le> length cs \<and> length cs \<le> 19)"

definition control_char :: "char \<Rightarrow> bool" where
  "control_char c = (let n = of_char c :: nat in n \<le> 31 \<or> n = 127)"

definition normalizeRemoteIdentity :: "string \<Rightarrow> string option \<Rightarrow> string option" where
  "normalizeRemoteIdentity channel_kind raw =
     (case raw of
        None \<Rightarrow> None
      | Some r \<Rightarrow>
          (let trimmed = js_trim r
           in if length trimmed = 0 then None
              else if channel_kind \<in> set PHONE_CHANNEL_KINDS
              then (let local = drop_plus (before (CHR '':'') (before (CHR ''@'') trimmed))
                    in if \<not> phone_digits local then None else Some (CHR ''+'' # local))
              else if list_ex control_char trimmed then None
              else Some (map js_lower trimmed)))"

section \<open>The key\<close>

datatype stream_key_rejection =
    Missing_Tenant | Missing_Agent | Reserved_Scope_Literal | Missing_Channel_Kind
  | Missing_Channel | Missing_Remote_Identity | Unnormalizable_Remote_Identity

record stream_key_input =
  sk_tenant :: "string option"
  sk_agent :: "string option"
  sk_kind :: "string option"
  sk_channel :: "string option"
  sk_remote :: "string option"

record resolved_stream =
  rs_key :: string
  rs_version :: nat

definition usableScopeField :: "string option \<Rightarrow> bool" where
  "usableScopeField v = (case v of None \<Rightarrow> False | Some s \<Rightarrow> length s > 0 \<and> js_trim s = s)"

definition deriveStreamKey ::
    "(string \<Rightarrow> string) \<Rightarrow> stream_key_input \<Rightarrow> stream_key_rejection + resolved_stream" where
  "deriveStreamKey sha i =
     (if \<not> usableScopeField (sk_tenant i) then Inl Missing_Tenant
      else if \<not> usableScopeField (sk_agent i) then Inl Missing_Agent
      else if the (sk_tenant i) \<in> set RESERVED_SCOPE_LITERALS
              \<or> the (sk_agent i) \<in> set RESERVED_SCOPE_LITERALS then Inl Reserved_Scope_Literal
      else
        (let kind = (case sk_kind i of None \<Rightarrow> [] | Some k \<Rightarrow> js_trim k)
         in if length kind = 0 \<or> kind \<notin> set CHANNEL_KINDS then Inl Missing_Channel_Kind
            else if \<not> usableScopeField (sk_channel i) then Inl Missing_Channel
            else if (case sk_remote i of None \<Rightarrow> True | Some r \<Rightarrow> length (js_trim r) = 0)
            then Inl Missing_Remote_Identity
            else (case normalizeRemoteIdentity kind (sk_remote i) of
                    None \<Rightarrow> Inl Unnormalizable_Remote_Identity
                  | Some remote \<Rightarrow>
                      (let material = canonicalStreamMaterial
                             [the (sk_tenant i), the (sk_agent i), kind, the (sk_channel i), remote]
                       in Inr \<lparr>rs_key = STREAM_KEY_PREFIX @ sha material,
                               rs_version = STREAM_KEY_VERSION\<rparr>))))"

text \<open>\<open>requireStreamIdentity\<close> raises the rejection; the guard is the same derivation.\<close>

definition requireStreamIdentity ::
    "(string \<Rightarrow> string) \<Rightarrow> stream_key_input \<Rightarrow> stream_key_rejection + resolved_stream" where
  "requireStreamIdentity sha i =
     (case deriveStreamKey sha i of
        Inl reason \<Rightarrow> Inl reason
      | Inr derived \<Rightarrow> Inr \<lparr>rs_key = rs_key derived, rs_version = rs_version derived\<rparr>)"

section \<open>Netstrings are uniquely decoded\<close>

lemma digit_char_of: "n < 10 \<Longrightarrow> (of_char (digit_char n) :: nat) = 48 + n"
  by (simp add: digit_char_def of_char_of take_bit_eq_mod)

lemma digit_is_digit: "n < 10 \<Longrightarrow> is_digit (digit_char n)"
  by (simp add: is_digit_def digit_char_of)

lemma decimal_digits: "list_all is_digit (decimal n)"
proof (induction n rule: decimal.induct)
  case (1 n)
  then show ?case
    by (subst decimal.simps) (simp add: digit_is_digit)
qed

fun undecimal :: "string \<Rightarrow> nat" where
  "undecimal s = fold (\<lambda>c acc. acc * 10 + ((of_char c :: nat) - 48)) s 0"

lemma undecimal_decimal: "undecimal (decimal n) = n"
proof (induction n rule: decimal.induct)
  case (1 n)
  then show ?case
    by (subst decimal.simps) (simp add: digit_char_of)
qed

lemma decimal_inj: "decimal m = decimal n \<Longrightarrow> m = n"
  by (metis undecimal_decimal)

lemma colon_not_digit [simp]: "\<not> is_digit (CHR '':'')"
  by (simp add: is_digit_def)

lemma split_at_first:
  assumes "list_all p xs" and "list_all p ys" and "\<not> p c" and "xs @ c # us = ys @ c # vs"
  shows "xs = ys \<and> us = vs"
  using assms
proof (induction xs arbitrary: ys)
  case Nil
  then show ?case by (cases ys) auto
next
  case (Cons x xs)
  then show ?case by (cases ys) auto
qed

lemma utf8_length_append [simp]: "utf8_length (xs @ ys) = utf8_length xs + utf8_length ys"
  by (induction xs) auto

lemma utf8_length_0 [simp]: "utf8_length xs = 0 \<longleftrightarrow> xs = []"
  by (cases xs) auto

lemma same_bytes_same_prefix:
  assumes "v @ us = w @ vs" and "utf8_length v = utf8_length w"
  shows "v = w \<and> us = vs"
  using assms by (auto simp: append_eq_append_conv2)

lemma lengthPrefixed_decode:
  assumes "lengthPrefixed v @ us = lengthPrefixed w @ vs"
  shows "v = w \<and> us = vs"
proof -
  have "decimal (utf8_length v) = decimal (utf8_length w)
      \<and> v @ CHR '','' # us = w @ CHR '','' # vs"
    using assms decimal_digits
    by (intro split_at_first [where c = "CHR '':''" and p = is_digit]) (simp_all add: lengthPrefixed_def)
  then have "utf8_length v = utf8_length w" and "v @ CHR '','' # us = w @ CHR '','' # vs"
    using decimal_inj by auto
  then show ?thesis using same_bytes_same_prefix by blast
qed

lemma lengthPrefixed_nonempty: "lengthPrefixed v \<noteq> []"
  by (simp add: lengthPrefixed_def)

lemma netstrings_inj: "concat (map lengthPrefixed xs) = concat (map lengthPrefixed ys) \<Longrightarrow> xs = ys"
proof (induction xs arbitrary: ys)
  case Nil
  then show ?case by (cases ys) (simp_all add: lengthPrefixed_nonempty)
next
  case (Cons x xs)
  then obtain y zs where ys: "ys = y # zs" by (cases ys) (simp_all add: lengthPrefixed_nonempty)
  from Cons.prems have "x = y \<and> concat (map lengthPrefixed xs) = concat (map lengthPrefixed zs)"
    unfolding ys by (intro lengthPrefixed_decode) simp
  with Cons.IH ys show ?case by blast
qed

lemma material_inj: "canonicalStreamMaterial xs = canonicalStreamMaterial ys \<Longrightarrow> xs = ys"
  by (simp add: canonicalStreamMaterial_def netstrings_inj)

lemma deriveStreamKey_Inr:
  assumes "deriveStreamKey sha i = Inr k"
  obtains t a c kind remote raw where "sk_tenant i = Some t" and "sk_agent i = Some a"
    and "sk_channel i = Some c" and "map_option js_trim (sk_kind i) = Some kind"
    and "sk_remote i = Some raw" and "normalizeRemoteIdentity kind (Some raw) = Some remote"
    and "rs_key k = STREAM_KEY_PREFIX @ sha (canonicalStreamMaterial [t, a, kind, c, remote])"
    and "t \<notin> {''default'', ''system''}" and "a \<notin> {''default'', ''system''}"
    and "rs_version k = 1"
proof -
  from assms have u: "usableScopeField (sk_tenant i)" "usableScopeField (sk_agent i)"
    "usableScopeField (sk_channel i)"
    and res: "\<not> (the (sk_tenant i) \<in> set RESERVED_SCOPE_LITERALS
              \<or> the (sk_agent i) \<in> set RESERVED_SCOPE_LITERALS)"
    by (auto simp: deriveStreamKey_def Let_def split: if_splits)
  then obtain t a c where tac: "sk_tenant i = Some t" "sk_agent i = Some a" "sk_channel i = Some c"
    by (auto simp: usableScopeField_def split: option.splits)
  from assms u res obtain kind where kind: "sk_kind i = Some kind"
    by (cases "sk_kind i") (auto simp: deriveStreamKey_def Let_def split: if_splits)
  from assms u res kind obtain raw where raw: "sk_remote i = Some raw"
    by (cases "sk_remote i") (auto simp: deriveStreamKey_def Let_def split: if_splits)
  from assms u res kind raw obtain remote
    where remote: "normalizeRemoteIdentity (js_trim kind) (Some raw) = Some remote"
    by (cases "normalizeRemoteIdentity (js_trim kind) (Some raw)")
      (auto simp: deriveStreamKey_def Let_def split: if_splits)
  from assms u res kind raw remote tac
  have "k = \<lparr>rs_key = STREAM_KEY_PREFIX @ sha (canonicalStreamMaterial [t, a, js_trim kind, c, remote]),
      rs_version = STREAM_KEY_VERSION\<rparr>"
    by (auto simp: deriveStreamKey_def Let_def split: if_splits)
  with tac kind raw remote res that [of t a c "js_trim kind" raw remote] show ?thesis
    by (simp add: RESERVED_SCOPE_LITERALS_def STREAM_KEY_VERSION_def)
qed

section \<open>Properties\<close>



text \<open>Trimming a string that begins with a character that is not white space.\<close>

definition rtrim :: "string \<Rightarrow> string" where
  "rtrim s = rev (dropWhile js_space (rev s))"

lemma js_trim_prefix:
  assumes "xs \<noteq> []" and "list_all (\<lambda>c. \<not> js_space c) xs"
  shows "js_trim (xs @ suf) = xs @ rtrim suf"
proof -
  obtain x where x: "x \<in> set (rev xs)" using assms(1) by (cases xs) auto
  have "dropWhile js_space (xs @ suf) = xs @ suf"
    using assms by (cases xs) auto
  moreover have "dropWhile js_space (rev xs) = rev xs"
    using assms by (cases "rev xs") (auto simp: list_all_iff)
  moreover have "dropWhile js_space (rev suf @ rev xs) = dropWhile js_space (rev suf) @ rev xs"
    using calculation(2) by (auto simp: dropWhile_append dropWhile_eq_Nil_conv)
  ultimately show ?thesis by (simp add: js_trim_def rtrim_def)
qed

lemma rtrim_Cons: "\<not> js_space c \<Longrightarrow> \<exists>tl. rtrim (c # cs) = c # tl"
  by (auto simp: rtrim_def dropWhile_append intro: exI [of _ "rev (dropWhile js_space (rev cs))"])

lemma rtrim_Nil [simp]: "rtrim [] = []"
  by (simp add: rtrim_def)

lemma phone_digitsD:
  assumes "phone_digits ds"
  shows "ds \<noteq> []" and "list_all is_digit ds"
  using assms by (auto simp: phone_digits_def split: list.splits)

lemma is_digit_char: "is_digit c \<Longrightarrow> \<not> js_space c \<and> c \<noteq> CHR ''@'' \<and> c \<noteq> CHR '':'' \<and> c \<noteq> CHR ''+''"
  by (auto simp: is_digit_def js_space_def Let_def)

lemma phone_chars:
  assumes "phone_digits ds" and "pre \<in> {[], ''+''}"
  shows "pre @ ds \<noteq> []" and "list_all (\<lambda>c. \<not> js_space c) (pre @ ds)"
    and "list_all (\<lambda>c. c \<noteq> CHR ''@'') (pre @ ds)" and "list_all (\<lambda>c. c \<noteq> CHR '':'') (pre @ ds)"
    and "drop_plus (pre @ ds) = ds"
proof -
  have dig: "\<forall>c \<in> set ds. \<not> js_space c \<and> c \<noteq> CHR ''@'' \<and> c \<noteq> CHR '':'' \<and> c \<noteq> CHR ''+''"
    using phone_digitsD(2) [OF assms(1)] is_digit_char unfolding list_all_iff by blast
  have plus: "\<not> js_space (CHR ''+'')" by (simp add: js_space_def)
  note ne = phone_digitsD(1) [OF assms(1)]
  from assms(2) consider "pre = []" | "pre = ''+''" by blast
  then show "pre @ ds \<noteq> []" and "list_all (\<lambda>c. \<not> js_space c) (pre @ ds)"
    and "list_all (\<lambda>c. c \<noteq> CHR ''@'') (pre @ ds)" and "list_all (\<lambda>c. c \<noteq> CHR '':'') (pre @ ds)"
    using dig plus ne by (cases; simp add: list_all_iff)+
  obtain c cs where ds: "ds = c # cs" using ne by (cases ds) simp_all
  with dig have "c \<noteq> CHR ''+''" by simp
  with assms(2) ds show "drop_plus (pre @ ds) = ds"
    by (elim insertE) simp_all
qed

lemma before_append:
  "list_all (\<lambda>c. c \<noteq> sep) xs \<Longrightarrow> before sep (xs @ ys) = xs @ before sep ys"
  by (induction xs) (auto simp: before_def)

lemma before_simps [simp]:
  "before sep [] = []" "before sep (c # cs) = (if c = sep then [] else c # before sep cs)"
  by (simp_all add: before_def)

text \<open>Cutting the domain and the device leaves the digits.\<close>

lemma local_part:
  assumes ds: "phone_digits ds" and pre: "pre \<in> {[], ''+''}"
    and suf: "suf = [] \<or> hd suf = CHR ''@'' \<or> hd suf = CHR '':''"
  shows "drop_plus (before (CHR '':'') (before (CHR ''@'') (js_trim (pre @ ds @ suf)))) = ds"
proof -
  have plus: "\<not> js_space (CHR ''@'')" "\<not> js_space (CHR '':'')"
    by (simp_all add: js_space_def)
  note chars = phone_chars [OF ds pre]
  have trim: "js_trim (pre @ ds @ suf) = (pre @ ds) @ rtrim suf"
    using js_trim_prefix [OF chars(1,2), of suf] by simp
  have "rtrim suf = [] \<or> (\<exists>tl. rtrim suf = CHR ''@'' # tl) \<or> (\<exists>tl. rtrim suf = CHR '':'' # tl)"
    using suf rtrim_Cons plus by (cases suf) auto
  then have "before (CHR '':'') (before (CHR ''@'') ((pre @ ds) @ rtrim suf)) = pre @ ds"
    unfolding before_append [OF chars(3)] using before_append [OF chars(4)] by auto
  then show ?thesis using chars(5) unfolding trim by (simp only:)
qed

lemma trim_nonempty:
  assumes "phone_digits ds" and "pre \<in> {[], ''+''}"
  shows "js_trim (pre @ ds @ suf) \<noteq> []"
  using js_trim_prefix [OF phone_chars(1,2) [OF assms], of suf] phone_chars(1) [OF assms] by auto

lemma phone_normal_form:
  assumes "phone_digits ds" and "pre \<in> {[], ''+''}"
    and "suf = [] \<or> hd suf = CHR ''@'' \<or> hd suf = CHR '':''" and "kind \<in> {''whatsapp'', ''sms''}"
  shows "normalizeRemoteIdentity kind (Some (pre @ ds @ suf)) = Some (CHR ''+'' # ds)"
  using local_part [OF assms(1-3)] trim_nonempty [OF assms(1,2), of suf] assms(1,4)
  by (simp add: normalizeRemoteIdentity_def Let_def PHONE_CHANNEL_KINDS_def)

text \<open>
  The spellings of one telephone number are one identity: the bare digits, the digits with a
  plus, and either of them with a device suffix or a domain normalise to the same value, a plus
  and the digits; for the phone channels that is the only form there is.
\<close>

lemma phone_spellings:
  assumes "phone_digits ds" and "kind \<in> {''whatsapp'', ''sms''}"
  shows "normalizeRemoteIdentity kind (Some ds) = Some (CHR ''+'' # ds)
    \<and> normalizeRemoteIdentity kind (Some (CHR ''+'' # ds)) = Some (CHR ''+'' # ds)
    \<and> normalizeRemoteIdentity kind (Some (ds @ CHR ''@'' # domain)) = Some (CHR ''+'' # ds)
    \<and> normalizeRemoteIdentity kind (Some (CHR ''+'' # ds @ CHR '':'' # device)) = Some (CHR ''+'' # ds)"
  using phone_normal_form [OF assms(1) _ _ assms(2), of "[]" "[]"]
    phone_normal_form [OF assms(1) _ _ assms(2), of "''+''" "[]"]
    phone_normal_form [OF assms(1) _ _ assms(2), of "[]" "CHR ''@'' # domain"]
    phone_normal_form [OF assms(1) _ _ assms(2), of "''+''" "CHR '':'' # device"]
  by simp

lemma phone_spellings_witness:
  "normalizeRemoteIdentity ''sms'' (Some ''5511999999999@s.whatsapp.net'') = Some ''+5511999999999''"
proof -
  have "phone_digits ''5511999999999''" by code_simp
  from phone_spellings [OF this, of "''sms''" "''s.whatsapp.net''"] show ?thesis by simp
qed

end
