(* ===== verification/JS_Value.thy ===== *)
theory JS_Value
  imports Stream_Key Poison_Policy Complex_Main "HOL-Library.List_Lexorder" "HOL-Library.Char_ord"
begin

text \<open>
  Values of JavaScript as the governance modules inspect them: \<open>typeof\<close>, own properties,
  \<open>===\<close> on primitives, \<open>Number(text)\<close>, \<open>includes\<close>, and the deep equality of
  src/governance/policy-dsl/evaluator.ts. A finite double is the rational it denotes (both zeros are 0);
  arrays have no holes, objects are the association list of their own enumerable properties.
\<close>

section \<open>Numbers\<close>

datatype js_number = NaN | Pos_Infinity | Neg_Infinity | Fin rat

text \<open>\<open>a === b\<close> and the order on numbers.\<close>

fun num_eq :: "js_number \<Rightarrow> js_number \<Rightarrow> bool" where
  "num_eq NaN b = False"
| "num_eq a b = (a = b)"

fun num_less :: "js_number \<Rightarrow> js_number \<Rightarrow> bool" where
  "num_less (Fin a) (Fin b) = (a < b)"
| "num_less (Fin a) Pos_Infinity = True"
| "num_less Neg_Infinity (Fin b) = True"
| "num_less Neg_Infinity Pos_Infinity = True"
| "num_less _ _ = False"

text \<open>
  The double nearest to a non-negative rational, ties to the even one: \<open>unit_exponent\<close> is the exponent of
  the last place, at least -1074.
\<close>

function bit_count :: "int \<Rightarrow> int" where
  "bit_count n = (if n \<le> 0 then 0 else 1 + bit_count (n div 2))"
  by pat_completeness auto
termination
  by (relation "measure nat") auto

declare bit_count.simps [simp del]

definition pow_int :: "rat \<Rightarrow> int \<Rightarrow> rat" where
  "pow_int b e = (if 0 \<le> e then b ^ nat e else 1 / b ^ nat (- e))"

definition unit_exponent :: "rat \<Rightarrow> int" where
  "unit_exponent x =
     (let (p, q) = quotient_of x;
          k = bit_count p - bit_count q;
          e = if pow_int 2 k \<le> x then k else k - 1
      in max (e - 52) (- 1074))"

definition round_half_even :: "rat \<Rightarrow> int" where
  "round_half_even x =
     (let n = \<lfloor>x\<rfloor>; r = x - of_int n
      in if r < 1 / 2 then n else if 1 / 2 < r then n + 1 else if even n then n else n + 1)"

definition double_of :: "rat \<Rightarrow> js_number" where
  "double_of x =
     (if x = 0 then Fin 0
      else let u = pow_int 2 (unit_exponent x);
               y = of_int (round_half_even (x / u)) * u
           in if 2 ^ 1024 \<le> y then Pos_Infinity else Fin y)"

fun num_negate :: "js_number \<Rightarrow> js_number" where
  "num_negate NaN = NaN"
| "num_negate Pos_Infinity = Neg_Infinity"
| "num_negate Neg_Infinity = Pos_Infinity"
| "num_negate (Fin x) = Fin (- x)"

section \<open>\<open>Number(text)\<close>\<close>

definition digit_value :: "char \<Rightarrow> int option" where
  "digit_value c =
     (let n = of_char c :: int
      in if 48 \<le> n \<and> n \<le> 57 then Some (n - 48)
         else if 97 \<le> n \<and> n \<le> 122 then Some (n - 87)
         else if 65 \<le> n \<and> n \<le> 90 then Some (n - 55) else None)"

fun read_digits :: "int \<Rightarrow> int \<Rightarrow> string \<Rightarrow> int option" where
  "read_digits radix acc [] = Some acc"
| "read_digits radix acc (c # cs) =
     (case digit_value c of
        None \<Rightarrow> None
      | Some d \<Rightarrow> if d < radix then read_digits radix (radix * acc + d) cs else None)"

definition radix_literal :: "int \<Rightarrow> string \<Rightarrow> js_number" where
  "radix_literal radix ds =
     (if ds = [] then NaN
      else case read_digits radix 0 ds of None \<Rightarrow> NaN | Some n \<Rightarrow> double_of (of_int n))"

text \<open>The exponent part: nothing, or \<open>e\<close>, an optional sign and digits.\<close>

definition read_exponent :: "string \<Rightarrow> int option" where
  "read_exponent s =
     (case s of
        [] \<Rightarrow> Some 0
      | c # rest \<Rightarrow>
          if c \<noteq> CHR ''e'' \<and> c \<noteq> CHR ''E'' then None
          else
            let (sign, ds) = (case rest of
                                d # ds \<Rightarrow> if d = CHR ''-'' then (- 1, ds)
                                           else if d = CHR ''+'' then (1, ds) else (1, rest)
                              | [] \<Rightarrow> (1, []))
            in if ds = [] then None
               else map_option (\<lambda>n. sign * n) (read_digits 10 0 ds))"

definition unsigned_literal :: "string \<Rightarrow> js_number" where
  "unsigned_literal s =
     (if s = ''Infinity'' then Pos_Infinity
      else
        let whole = takeWhile is_digit s;
            s1 = dropWhile is_digit s;
            (part, s2) = (case s1 of
                            c # cs \<Rightarrow> if c = CHR ''.'' then (takeWhile is_digit cs, dropWhile is_digit cs)
                                       else ([], s1)
                          | [] \<Rightarrow> ([], []))
        in if whole = [] \<and> part = [] then NaN
           else case (read_digits 10 0 (whole @ part), read_exponent s2) of
                  (Some n, Some e) \<Rightarrow> double_of (of_int n * pow_int 10 (e - int (length part)))
                | _ \<Rightarrow> NaN)"

definition signed_literal :: "string \<Rightarrow> js_number" where
  "signed_literal s =
     (case s of
        [] \<Rightarrow> Fin 0
      | c # cs \<Rightarrow> if c = CHR ''-'' then num_negate (unsigned_literal cs)
                  else if c = CHR ''+'' then unsigned_literal cs else unsigned_literal s)"

definition js_Number :: "string \<Rightarrow> js_number" where
  "js_Number text =
     (let s = js_trim text
      in case s of
           z # x # ds \<Rightarrow>
             if z = CHR ''0'' \<and> (x = CHR ''x'' \<or> x = CHR ''X'') then radix_literal 16 ds
             else if z = CHR ''0'' \<and> (x = CHR ''o'' \<or> x = CHR ''O'') then radix_literal 8 ds
             else if z = CHR ''0'' \<and> (x = CHR ''b'' \<or> x = CHR ''B'') then radix_literal 2 ds
             else signed_literal s
         | _ \<Rightarrow> signed_literal s)"

section \<open>Values\<close>

datatype js = Undef | Null | Bool bool | Num js_number | Str string
  | Arr "js list" | Obj "(string \<times> js) list"

text \<open>\<open>x && typeof x === 'object'\<close>; \<open>Array.isArray(x)\<close>; \<open>typeof x === 'string'\<close>.\<close>

definition is_object :: "js \<Rightarrow> bool" where
  "is_object v = (case v of Arr _ \<Rightarrow> True | Obj _ \<Rightarrow> True | _ \<Rightarrow> False)"

definition the_array :: "js \<Rightarrow> js list option" where
  "the_array v = (case v of Arr xs \<Rightarrow> Some xs | _ \<Rightarrow> None)"

definition the_string :: "js \<Rightarrow> string option" where
  "the_string v = (case v of Str s \<Rightarrow> Some s | _ \<Rightarrow> None)"

text \<open>
  \<open>o[k]\<close> for an own property, \<open>undefined\<close> otherwise; an array has none of the names the modules ask for.
\<close>

definition own :: "(string \<times> js) list \<Rightarrow> string \<Rightarrow> js" where
  "own kvs k = (case map_of kvs k of Some v \<Rightarrow> v | None \<Rightarrow> Undef)"

definition js_get :: "string \<Rightarrow> js \<Rightarrow> js" where
  "js_get k v = (case v of Obj kvs \<Rightarrow> own kvs k | _ \<Rightarrow> Undef)"

text \<open>\<open>left.includes(right)\<close> on strings.\<close>

fun js_includes :: "string \<Rightarrow> string \<Rightarrow> bool" where
  "js_includes [] r = (r = [])"
| "js_includes (c # cs) r = (startsWith (c # cs) r \<or> js_includes cs r)"

lemma js_includes_iff: "js_includes s r \<longleftrightarrow> (\<exists>a b. s = a @ r @ b)"
proof (induction s)
  case Nil
  then show ?case by simp
next
  case (Cons c cs)
  have "(\<exists>a b. c # cs = a @ r @ b) \<longleftrightarrow> (\<exists>b. c # cs = r @ b) \<or> (\<exists>a b. cs = a @ r @ b)"
    by (auto simp: Cons_eq_append_conv)
  then show ?case by (simp add: Cons startsWith_iff)
qed

section \<open>Deep equality\<close>

lemma own_in: "k \<in> fst ` set kvs \<Longrightarrow> (k, own kvs k) \<in> set kvs"
  by (cases "map_of kvs k") (auto simp: own_def map_of_eq_None_iff dest: map_of_SomeD)

lemma size_entry_less: "(k, v) \<in> set kvs \<Longrightarrow> size v < size (Obj kvs)"
  by (induction kvs) auto

lemma size_own_less: "(k, v) \<in> set kvs \<Longrightarrow> size (own kvs k) < size (Obj kvs)"
  by (rule size_entry_less [OF own_in]) force

lemma size_member_less: "x \<in> set xs \<Longrightarrow> size x < size (Arr xs)"
  by (induction xs) auto

text \<open>
  \<open>deepEqual\<close>: \<open>===\<close> on primitives, elementwise on arrays, by sorted keys on objects. The two arguments come
  from different documents, so no two of their objects are the same reference.
\<close>

function deepEqual :: "js \<Rightarrow> js \<Rightarrow> bool" where
  "deepEqual a b =
     (case (a, b) of
        (Undef, Undef) \<Rightarrow> True
      | (Null, Null) \<Rightarrow> True
      | (Bool x, Bool y) \<Rightarrow> x = y
      | (Num x, Num y) \<Rightarrow> num_eq x y
      | (Str x, Str y) \<Rightarrow> x = y
      | (Arr xs, Arr ys) \<Rightarrow>
          length xs = length ys \<and> list_all (\<lambda>p. deepEqual (fst p) (snd p)) (zip xs ys)
      | (Obj ao, Obj bo) \<Rightarrow>
          let akeys = sort (List.map fst ao); bkeys = sort (List.map fst bo)
          in akeys = bkeys \<and> list_all (\<lambda>k. deepEqual (own ao k) (own bo k)) akeys
      | _ \<Rightarrow> False)"
  by pat_completeness auto
termination
  by (relation "measure (\<lambda>(a, b). size a)")
    (auto dest!: set_zip_leftD dest: size_member_less dest!: size_own_less)

declare deepEqual.simps [simp del]

lemma deepEqual_Arr:
  "deepEqual (Arr xs) (Arr ys) \<longleftrightarrow>
     length xs = length ys \<and> (\<forall>i < length xs. deepEqual (xs ! i) (ys ! i))"
  by (auto simp: deepEqual.simps [of "Arr xs"] list_all_length)

lemma deepEqual_Obj:
  "deepEqual (Obj ao) (Obj bo) \<longleftrightarrow>
     sort (map fst ao) = sort (map fst bo) \<and> (\<forall>k \<in> fst ` set ao. deepEqual (own ao k) (own bo k))"
  by (simp add: deepEqual.simps [of "Obj ao"] list_all_iff)

text \<open>
  The specification: the canonical form orders the properties of every object; \<open>proper\<close> values have no
  property twice (which no JavaScript object has).
\<close>

fun canon :: "js \<Rightarrow> js" where
  "canon (Arr xs) = Arr (map canon xs)"
| "canon (Obj kvs) = Obj (sort_key fst (map (\<lambda>p. (fst p, canon (snd p))) kvs))"
| "canon v = v"

fun proper :: "js \<Rightarrow> bool" where
  "proper (Arr xs) = list_all proper xs"
| "proper (Obj kvs) = (distinct (map fst kvs) \<and> list_all (\<lambda>p. proper (snd p)) kvs)"
| "proper v = True"

fun nan_free :: "js \<Rightarrow> bool" where
  "nan_free (Arr xs) = list_all nan_free xs"
| "nan_free (Obj kvs) = list_all (\<lambda>p. nan_free (snd p)) kvs"
| "nan_free (Num x) = (x \<noteq> NaN)"
| "nan_free v = True"

lemma map_insort_key: "map f (insort_key f x xs) = insort (f x) (map f xs)"
  by (induction xs) auto

lemma map_sort_key: "map f (sort_key f xs) = sort (map f xs)"
  by (induction xs) (simp_all add: map_insort_key)

lemma own_eq: "distinct (map fst kvs) \<Longrightarrow> (k, v) \<in> set kvs \<Longrightarrow> own kvs k = v"
  by (simp add: own_def)

lemma sorted_entries:
  assumes "distinct (map fst kvs)"
  shows "sort_key fst (map (\<lambda>p. (fst p, f (snd p))) kvs)
           = map (\<lambda>k. (k, f (own kvs k))) (sort (map fst kvs))"
proof -
  let ?es = "map (\<lambda>p. (fst p, f (snd p))) kvs"
  have keys: "map fst (sort_key fst ?es) = sort (map fst kvs)"
    by (simp add: map_sort_key comp_def)
  have "map (\<lambda>k. (k, f (own kvs k))) (map fst (sort_key fst ?es)) = sort_key fst ?es"
    unfolding map_map by (rule map_idI) (auto simp: own_eq [OF assms])
  with keys show ?thesis by simp
qed

lemma canon_Obj:
  "distinct (map fst kvs) \<Longrightarrow>
     canon (Obj kvs) = Obj (map (\<lambda>k. (k, canon (own kvs k))) (sort (map fst kvs)))"
  by (simp add: sorted_entries)

lemma all_entries:
  "distinct (map fst kvs) \<Longrightarrow>
     list_all (\<lambda>p. P (snd p)) kvs \<longleftrightarrow> (\<forall>k \<in> fst ` set kvs. P (own kvs k))"
  by (auto simp: list_all_iff own_eq)

lemma map_pair_eq_iff:
  "map (\<lambda>k. (k, f k)) ks = map (\<lambda>k. (k, g k)) ls \<longleftrightarrow> ks = ls \<and> (\<forall>k \<in> set ks. f k = g k)"
  by (induction ks arbitrary: ls) (auto simp: Cons_eq_map_conv)

lemma deep_equal_canon:
  assumes "proper a" and "proper b"
  shows "deepEqual a b \<longleftrightarrow> canon a = canon b \<and> nan_free a"
  using assms
proof (induction a b rule: deepEqual.induct)
  case (1 a b)
  show ?case
  proof (cases a)
    case (Num x)
    then show ?thesis by (cases b; cases x) (auto simp: deepEqual.simps)
  next
    case (Arr xs)
    show ?thesis
    proof (cases b)
      case (Arr ys)
      have "deepEqual x y \<longleftrightarrow> canon x = canon y \<and> nan_free x" if "(x, y) \<in> set (zip xs ys)" for x y
        using 1(1) [OF refl \<open>a = Arr xs\<close> Arr that] 1(3,4) that \<open>a = Arr xs\<close> Arr
        by (auto simp: list_all_iff dest: set_zip_leftD set_zip_rightD)
      then have "deepEqual (xs ! i) (ys ! i) \<longleftrightarrow> canon (xs ! i) = canon (ys ! i) \<and> nan_free (xs ! i)"
        if "i < length xs" "i < length ys" for i
        using that by (auto simp: set_zip)
      then show ?thesis using \<open>a = Arr xs\<close> Arr
        by (auto simp: deepEqual_Arr list_all_length list_eq_iff_nth_eq)
    qed (auto simp: Arr deepEqual.simps)
  next
    case (Obj ao)
    show ?thesis
    proof (cases b)
      case (Obj bo)
      have d: "distinct (map fst ao)" "distinct (map fst bo)"
        using 1(3,4) \<open>a = Obj ao\<close> Obj by auto
      have "deepEqual (own ao k) (own bo k) \<longleftrightarrow> canon (own ao k) = canon (own bo k) \<and> nan_free (own ao k)"
        if k: "k \<in> set (sort (map fst ao))" and eq: "sort (map fst ao) = sort (map fst bo)" for k
      proof (rule 1(2) [OF refl \<open>a = Obj ao\<close> Obj refl refl k])
        show "proper (own ao k)" using 1(3) \<open>a = Obj ao\<close> k d by (auto simp: all_entries)
        from k have "k \<in> fst ` set bo" unfolding eq by simp
        then show "proper (own bo k)" using 1(4) Obj d by (auto simp: all_entries)
      qed
      moreover have "canon a = canon b \<longleftrightarrow> sort (map fst ao) = sort (map fst bo)
          \<and> (\<forall>k \<in> fst ` set ao. canon (own ao k) = canon (own bo k))"
        unfolding \<open>a = Obj ao\<close> Obj canon_Obj [OF d(1)] canon_Obj [OF d(2)] js.inject map_pair_eq_iff
        by simp
      moreover have "nan_free a \<longleftrightarrow> (\<forall>k \<in> fst ` set ao. nan_free (own ao k))"
        unfolding \<open>a = Obj ao\<close> nan_free.simps by (rule all_entries [OF d(1)])
      ultimately show ?thesis
        unfolding \<open>a = Obj ao\<close> Obj deepEqual_Obj set_sort set_map by blast
    qed (auto simp: Obj deepEqual.simps)
  qed (cases b; simp add: deepEqual.simps)+
qed

text \<open>
  Deep equality is equality of canonical forms, that is equality up to the order of the
  properties of objects, except that a value with a NaN in it equals nothing.
\<close>

lemma deepEqual_iff_canon:
  assumes "proper a" and "proper b"
  shows "deepEqual a b \<longleftrightarrow> canon a = canon b \<and> nan_free a"
  by (rule deep_equal_canon [OF assms])

lemma deepEqual_iff_canon_witness:
  "deepEqual (Obj [(''a'', Num (Fin 1)), (''b'', Null)]) (Obj [(''b'', Null), (''a'', Num (Fin 1))])"
  by (subst deepEqual_iff_canon) (simp_all add: insort_key_def less_eq_char_def)

end
