(* ===== verification/Regex_Cache.thy ===== *)
theory Regex_Cache
  imports Prelude
begin

text \<open>
  The cache of compiled patterns (src/governance/policy-dsl/regex-cache.ts): an insertion-ordered map
  bounded by \<open>REGEX_CACHE_MAX\<close> with eviction of the least recently used entry. The regular
  expression engine of the language and the analyser safe-regex2 are the parameter \<open>regex_engine\<close>.
\<close>

section \<open>The engine and the cache\<close>

text \<open>
  \<open>re_parses p\<close>: \<open>new RegExp(p)\<close> does not throw; \<open>re_safe p\<close>: the answer of safe-regex2, None when it throws;
  \<open>re_test p s\<close>: the answer of \<open>regex.test(s)\<close>, None when it throws.
\<close>

record regex_engine =
  re_parses :: "string \<Rightarrow> bool"
  re_safe :: "string \<Rightarrow> bool option"
  re_test :: "string \<Rightarrow> string \<Rightarrow> bool option"

datatype cache_entry = Compiled | Unsafe_Pattern | Invalid_Pattern

record cache_stats =
  hits :: nat
  misses :: nat
  compiled :: nat
  evicted :: nat

record regex_cache =
  entries :: "(string \<times> cache_entry) list"
  stats :: cache_stats

definition REGEX_CACHE_MAX :: nat where
  "REGEX_CACHE_MAX = 256"

text \<open>\<open>cache.delete(key)\<close> and \<open>cache.set(key, v)\<close>: an update keeps the position, a new key goes last.\<close>

definition map_delete :: "string \<Rightarrow> (string \<times> 'a) list \<Rightarrow> (string \<times> 'a) list" where
  "map_delete k es = filter (\<lambda>e. fst e \<noteq> k) es"

definition map_set :: "string \<Rightarrow> 'a \<Rightarrow> (string \<times> 'a) list \<Rightarrow> (string \<times> 'a) list" where
  "map_set k v es =
     (if k \<in> fst ` set es then map (\<lambda>e. if fst e = k then (k, v) else e) es else es @ [(k, v)])"

definition cache_insert :: "string \<Rightarrow> cache_entry \<Rightarrow> regex_cache \<Rightarrow> regex_cache" where
  "cache_insert pattern entry c =
     (let c1 = (if REGEX_CACHE_MAX \<le> length (entries c)
                then (case entries c of
                        oldest # _ \<Rightarrow>
                          c\<lparr>entries := map_delete (fst oldest) (entries c),
                            stats := (stats c)\<lparr>evicted := evicted (stats c) + 1\<rparr>\<rparr>
                      | [] \<Rightarrow> c)
                else c)
      in c1\<lparr>entries := map_set pattern entry (entries c1)\<rparr>)"

text \<open>The result is whether a RegExp is returned; the RegExp itself is the one of the pattern.\<close>

definition compileSafeRegex :: "regex_engine \<Rightarrow> string \<Rightarrow> regex_cache \<Rightarrow> bool \<times> regex_cache" where
  "compileSafeRegex E pattern c =
     (case map_of (entries c) pattern of
        Some cached \<Rightarrow>
          (cached = Compiled,
           c\<lparr>entries := map_set pattern cached (map_delete pattern (entries c)),
             stats := (stats c)\<lparr>hits := hits (stats c) + 1\<rparr>\<rparr>)
      | None \<Rightarrow>
          let c1 = c\<lparr>stats := (stats c)\<lparr>misses := misses (stats c) + 1\<rparr>\<rparr>
          in if \<not> re_parses E pattern then (False, cache_insert pattern Invalid_Pattern c1)
             else
               let safe = (case re_safe E pattern of Some b \<Rightarrow> b | None \<Rightarrow> False)
               in if \<not> safe then (False, cache_insert pattern Unsafe_Pattern c1)
                  else (True, cache_insert pattern Compiled
                          (c1\<lparr>stats := (stats c1)\<lparr>compiled := compiled (stats c1) + 1\<rparr>\<rparr>)))"

definition isPatternMarkedUnsafe :: "string \<Rightarrow> regex_cache \<Rightarrow> bool" where
  "isPatternMarkedUnsafe pattern c \<longleftrightarrow> map_of (entries c) pattern = Some Unsafe_Pattern"

definition isPatternMarkedInvalid :: "string \<Rightarrow> regex_cache \<Rightarrow> bool" where
  "isPatternMarkedInvalid pattern c \<longleftrightarrow> map_of (entries c) pattern = Some Invalid_Pattern"

definition resetRegexCache :: regex_cache where
  "resetRegexCache =
     \<lparr>entries = [], stats = \<lparr>hits = 0, misses = 0, compiled = 0, evicted = 0\<rparr>\<rparr>"

section \<open>What the cache promises\<close>

text \<open>What the engine says of a pattern, without a cache; a cache is sound when it only repeats it.\<close>

definition verdict :: "regex_engine \<Rightarrow> string \<Rightarrow> cache_entry" where
  "verdict E pattern =
     (if \<not> re_parses E pattern then Invalid_Pattern
      else if re_safe E pattern \<noteq> Some True then Unsafe_Pattern else Compiled)"

definition cache_ok :: "regex_engine \<Rightarrow> regex_cache \<Rightarrow> bool" where
  "cache_ok E c \<longleftrightarrow> distinct (map fst (entries c)) \<and> length (entries c) \<le> REGEX_CACHE_MAX
     \<and> list_all (\<lambda>e. snd e = verdict E (fst e)) (entries c)"

lemma map_set_fresh: "k \<notin> fst ` set es \<Longrightarrow> map_set k v es = es @ [(k, v)]"
  by (simp add: map_set_def)

lemma map_delete_keys: "fst ` set (map_delete k es) = fst ` set es - {k}"
  by (auto simp: map_delete_def)

lemma distinct_map_delete: "distinct (map fst es) \<Longrightarrow> distinct (map fst (map_delete k es))"
  by (simp add: map_delete_def distinct_map_filter)

lemma length_map_delete: "k \<in> fst ` set es \<Longrightarrow> length (map_delete k es) < length es"
  unfolding map_delete_def by (erule imageE, rule length_filter_less) auto

lemma map_delete_subset: "set (map_delete k es) \<subseteq> set es"
  by (auto simp: map_delete_def)

lemma cache_ok_entry: "cache_ok E c \<Longrightarrow> map_of (entries c) p = Some e \<Longrightarrow> e = verdict E p"
  by (auto simp: cache_ok_def list_all_iff dest!: map_of_SomeD)

lemma cache_ok_append:
  assumes "distinct (map fst es)" and "list_all (\<lambda>e. snd e = verdict E (fst e)) es"
    and "k \<notin> fst ` set es" and "length es < REGEX_CACHE_MAX" and "entries c = es @ [(k, verdict E k)]"
  shows "cache_ok E c"
  using assms by (simp add: cache_ok_def)

lemma cache_insert_ok:
  assumes "cache_ok E c" and "map_of (entries c) p = None"
  shows "cache_ok E (cache_insert p (verdict E p) c)
    \<and> map_of (entries (cache_insert p (verdict E p) c)) p = Some (verdict E p)"
proof -
  have fresh: "p \<notin> fst ` set (entries c)" using assms(2) by (simp add: map_of_eq_None_iff)
  obtain es where es: "entries (cache_insert p (verdict E p) c) = map_set p (verdict E p) es"
    "distinct (map fst es)" "set es \<subseteq> set (entries c)" "length es < REGEX_CACHE_MAX"
  proof (cases "REGEX_CACHE_MAX \<le> length (entries c)")
    case True
    then obtain o1 os where c: "entries c = o1 # os"
      by (cases "entries c") (auto simp: REGEX_CACHE_MAX_def)
    have "length (map_delete (fst o1) (entries c)) < length (entries c)"
      by (rule length_map_delete) (simp add: c)
    then show ?thesis
      using that [of "map_delete (fst o1) (entries c)"] True c assms(1)
        map_delete_subset [of "fst o1" "entries c"] distinct_map_delete [of "entries c" "fst o1"]
      by (simp add: cache_insert_def cache_ok_def)
  next
    case False
    then show ?thesis using that [of "entries c"] assms(1)
      by (auto simp: cache_insert_def cache_ok_def)
  qed
  have p: "p \<notin> fst ` set es" using es(3) fresh by auto
  have all: "list_all (\<lambda>e. snd e = verdict E (fst e)) es"
    using es(3) assms(1) by (auto simp: cache_ok_def list_all_iff)
  have entries: "entries (cache_insert p (verdict E p) c) = es @ [(p, verdict E p)]"
    using es(1) map_set_fresh [OF p] by simp
  have "map_of es p = None" using p by (simp add: map_of_eq_None_iff)
  then have "map_of (es @ [(p, verdict E p)]) p = Some (verdict E p)" by (simp add: map_add_def)
  with cache_ok_append [OF es(2) all p es(4) entries] show ?thesis unfolding entries by blast
qed

lemma compileSafeRegex_ok:
  assumes "cache_ok E c" and "compileSafeRegex E p c = (b, c')"
  shows "cache_ok E c' \<and> map_of (entries c') p = Some (verdict E p) \<and> b = (verdict E p = Compiled)"
proof (cases "map_of (entries c) p")
  case None
  let ?c1 = "c\<lparr>stats := (stats c)\<lparr>misses := misses (stats c) + 1\<rparr>\<rparr>"
  let ?c2 = "?c1\<lparr>stats := (stats ?c1)\<lparr>compiled := compiled (stats ?c1) + 1\<rparr>\<rparr>"
  have ok: "cache_ok E ?c1" "map_of (entries ?c1) p = None" "cache_ok E ?c2" "map_of (entries ?c2) p = None"
    using assms(1) None by (simp_all add: cache_ok_def)
  have "c' = cache_insert p (verdict E p) ?c1 \<or> c' = cache_insert p (verdict E p) ?c2"
    and "b = (verdict E p = Compiled)"
    using assms(2) None
    by (auto simp: compileSafeRegex_def verdict_def Let_def split: if_splits option.splits)
  with cache_insert_ok [OF ok(1,2)] cache_insert_ok [OF ok(3,4)] show ?thesis by auto
next
  case (Some e)
  let ?es = "map_delete p (entries c)"
  have e: "e = verdict E p" by (rule cache_ok_entry [OF assms(1) Some])
  have p: "p \<notin> fst ` set ?es" by (simp add: map_delete_keys)
  have "p \<in> fst ` set (entries c)" using Some by (force dest: map_of_SomeD)
  then have len: "length ?es < REGEX_CACHE_MAX"
    using length_map_delete assms(1) by (fastforce simp: cache_ok_def)
  have c': "entries c' = ?es @ [(p, verdict E p)]" and b: "b = (verdict E p = Compiled)"
    using assms(2) Some map_set_fresh [OF p] e by (auto simp: compileSafeRegex_def)
  have "distinct (map fst ?es)" "list_all (\<lambda>e. snd e = verdict E (fst e)) ?es"
    using assms(1) distinct_map_delete [of "entries c" p]
    by (simp_all add: cache_ok_def list_all_iff map_delete_def)
  moreover have "map_of ?es p = None" using p by (simp only: map_of_eq_None_iff not_False_eq_True)
  ultimately show ?thesis
    using cache_ok_append [OF _ _ p len c'] c' b by (simp add: map_add_def)
qed

text \<open>
  The contract of a cache: after a compilation the pattern is known, what is known is what the engine
  says, and a mark is only read back from there. Its clients rest on the verdict of the engine alone.
\<close>

locale pattern_cache =
  fixes ok :: "'c \<Rightarrow> bool"
    and compile :: "string \<Rightarrow> 'c \<Rightarrow> bool \<times> 'c"
    and marked_unsafe :: "string \<Rightarrow> 'c \<Rightarrow> bool"
    and marked_invalid :: "string \<Rightarrow> 'c \<Rightarrow> bool"
    and says :: "string \<Rightarrow> cache_entry"
  assumes compile_law: "ok c \<Longrightarrow> compile p c = (b, c') \<Longrightarrow>
      ok c' \<and> b = (says p = Compiled) \<and> marked_unsafe p c' = (says p = Unsafe_Pattern)
      \<and> marked_invalid p c' = (says p = Invalid_Pattern)"
    and unsafe_law: "ok c \<Longrightarrow> marked_unsafe p c \<Longrightarrow> says p = Unsafe_Pattern"
begin

lemma compile_ok: "ok c \<Longrightarrow> ok (snd (compile p c))"
  using compile_law [of c p "fst (compile p c)" "snd (compile p c)"] by simp

lemma compile_result: "ok c \<Longrightarrow> fst (compile p c) = (says p = Compiled)"
  using compile_law [of c p "fst (compile p c)" "snd (compile p c)"] by simp

lemma compile_marks:
  "ok c \<Longrightarrow> marked_unsafe p (snd (compile p c)) = (says p = Unsafe_Pattern)"
  "ok c \<Longrightarrow> marked_invalid p (snd (compile p c)) = (says p = Invalid_Pattern)"
  using compile_law [of c p "fst (compile p c)" "snd (compile p c)"] by simp_all

lemma diagnosis:
  assumes "ok c"
  shows "(if marked_unsafe p c then u
          else if fst (compile p c) then k
          else if marked_unsafe p (snd (compile p c)) then u
          else if marked_invalid p (snd (compile p c)) then i else f)
       = (case says p of Compiled \<Rightarrow> k | Unsafe_Pattern \<Rightarrow> u | Invalid_Pattern \<Rightarrow> i)"
  using unsafe_law [OF assms]
  by (cases "says p") (auto simp: compile_result [OF assms] compile_marks [OF assms])

end

interpretation rc: pattern_cache "cache_ok E" "compileSafeRegex E" isPatternMarkedUnsafe
  isPatternMarkedInvalid "verdict E" for E
proof
  show "cache_ok E c' \<and> b = (verdict E p = Compiled)
      \<and> isPatternMarkedUnsafe p c' = (verdict E p = Unsafe_Pattern)
      \<and> isPatternMarkedInvalid p c' = (verdict E p = Invalid_Pattern)"
    if "cache_ok E c" "compileSafeRegex E p c = (b, c')" for c p b c'
    using compileSafeRegex_ok [OF that] by (simp add: isPatternMarkedUnsafe_def isPatternMarkedInvalid_def)
  show "verdict E p = Unsafe_Pattern" if "cache_ok E c" "isPatternMarkedUnsafe p c" for c p
    using cache_ok_entry [OF that(1)] that(2) by (simp add: isPatternMarkedUnsafe_def)
qed

lemma resetRegexCache_ok: "cache_ok E resetRegexCache"
  by (simp add: cache_ok_def resetRegexCache_def)

end
