(* ===== verification/Policy_Evaluator.thy ===== *)
theory Policy_Evaluator
  imports JS_Value Regex_Cache
begin

text \<open>
  The evaluator of tenant policies (src/governance/policy-dsl: types.ts, constants.ts, field-path.ts,
  evaluator.ts) and the mapping of its decisions to enforcement (enforcement.ts). A rule body and a context
  are arbitrary values: rows can be corrupted. The texts of messages are left out; an error is its code and
  path. The recursion is bounded by the depth the code itself carries, so no shape of body can
  make it run away.
\<close>

section \<open>Bounds and vocabularies\<close>

definition MAX_PREDICATE_DEPTH :: nat where
  "MAX_PREDICATE_DEPTH = 16"

definition MAX_FIELD_PATH_DEPTH :: nat where
  "MAX_FIELD_PATH_DEPTH = 16"

definition MAX_REGEX_INPUT_LENGTH :: nat where
  "MAX_REGEX_INPUT_LENGTH = 4096"

definition MAX_TOTAL_PREDICATE_NODES :: nat where
  "MAX_TOTAL_PREDICATE_NODES = 1024"

definition MAX_BRANCH_FANOUT :: nat where
  "MAX_BRANCH_FANOUT = 64"

definition MAX_LITERAL_ARRAY :: nat where
  "MAX_LITERAL_ARRAY = 64"

definition MAX_LITERAL_STRING :: nat where
  "MAX_LITERAL_STRING = 512"

definition MAX_REGEX_PATTERN :: nat where
  "MAX_REGEX_PATTERN = 256"

definition ALLOWED_EFFECT_ACTIONS :: "string list" where
  "ALLOWED_EFFECT_ACTIONS = [''allow'', ''block'', ''require_dual_approval'', ''warn'', ''log'']"

datatype policy_operator = Op_Eq | Op_Neq | Op_In | Op_Not_In | Op_Gt | Op_Gte | Op_Lt | Op_Lte
  | Op_Contains | Op_Matches

definition ALLOWED_OPERATORS :: "(string \<times> policy_operator) list" where
  "ALLOWED_OPERATORS =
     [(''eq'', Op_Eq), (''neq'', Op_Neq), (''in'', Op_In), (''not_in'', Op_Not_In),
      (''gt'', Op_Gt), (''gte'', Op_Gte), (''lt'', Op_Lt), (''lte'', Op_Lte),
      (''contains'', Op_Contains), (''matches'', Op_Matches)]"

datatype eval_code = Predicate_Depth_Exceeded | Field_Path_Depth_Exceeded | Field_Path_Unresolvable
  | Missing_Field | Malformed_Branch_Child | Invalid_Effect | Regex_Input_Too_Long
  | Regex_Pattern_Unsafe | Regex_Evaluation_Failed | Malformed_Predicate | Literal_Too_Large
  | Branch_Fanout_Exceeded

record eval_error =
  ee_code :: eval_code
  ee_path :: string

record diagnostics =
  predicate_depth_visited :: nat
  field_lookups :: nat
  regex_cache_hits :: nat
  regex_compiled :: nat

datatype policy_outcome = Matched | Not_Matched | Not_Applicable | Evaluation_Error

text \<open>A property the decision does not have is \<open>Undef\<close>.\<close>

record policy_decision =
  pd_outcome :: policy_outcome
  pd_matched :: bool
  pd_rule_id :: js
  pd_effect :: js
  pd_errors :: "eval_error list"
  pd_diagnostics :: diagnostics

section \<open>Field paths\<close>

definition FORBIDDEN_KEYS :: "string list" where
  "FORBIDDEN_KEYS = [''__proto__'', ''constructor'', ''prototype'']"

definition splitFieldPath :: "string \<Rightarrow> string list" where
  "splitFieldPath path = (if path = [] then [] else split_on (CHR ''.'') path)"

definition isFieldPathTooDeep :: "string \<Rightarrow> bool" where
  "isFieldPathTooDeep path \<longleftrightarrow> MAX_FIELD_PATH_DEPTH < length (splitFieldPath path)"

text \<open>\<open>Number(segment)\<close> as an index of an array of this length.\<close>

definition array_index :: "string \<Rightarrow> nat \<Rightarrow> nat option" where
  "array_index segment len =
     (case js_Number segment of
        Fin x \<Rightarrow> if of_int \<lfloor>x\<rfloor> = x \<and> 0 \<le> x \<and> x < of_nat len then Some (nat \<lfloor>x\<rfloor>) else None
      | _ \<Rightarrow> None)"

fun walk_segments :: "js \<Rightarrow> string list \<Rightarrow> js" where
  "walk_segments cursor [] = cursor"
| "walk_segments cursor (segment # rest) =
     (case cursor of
        Arr xs \<Rightarrow> (case array_index segment (length xs) of
                     None \<Rightarrow> Undef
                   | Some idx \<Rightarrow> walk_segments (xs ! idx) rest)
      | Obj kvs \<Rightarrow>
          if segment \<in> set FORBIDDEN_KEYS then Undef
          else if segment \<notin> fst ` set kvs then Undef
          else walk_segments (own kvs segment) rest
      | _ \<Rightarrow> Undef)"

definition resolveFieldPath :: "js \<Rightarrow> string \<Rightarrow> js" where
  "resolveFieldPath context path =
     (let segments = splitFieldPath path
      in if segments = [] then context
         else if MAX_FIELD_PATH_DEPTH < length segments then Undef
         else walk_segments context segments)"

section \<open>The state of an evaluation\<close>

datatype leaf_tri = Tri_True | Tri_False | Tri_NA | Tri_Err

definition tri_of :: "bool \<Rightarrow> leaf_tri" where
  "tri_of b = (if b then Tri_True else Tri_False)"

text \<open>The cache of patterns is global to the process; it is threaded with the state.\<close>

record eval_state =
  es_errors :: "eval_error list"
  es_diagnostics :: diagnostics
  es_nodeCount :: nat
  es_cache :: regex_cache

definition push_error :: "eval_code \<Rightarrow> string \<Rightarrow> eval_state \<Rightarrow> eval_state" where
  "push_error code path st =
     st\<lparr>es_errors := es_errors st @ [\<lparr>ee_code = code, ee_path = path\<rparr>]\<rparr>"

definition fail_with :: "eval_code \<Rightarrow> string \<Rightarrow> eval_state \<Rightarrow> leaf_tri \<times> eval_state" where
  "fail_with code path st = (Tri_Err, push_error code path st)"

section \<open>Operators\<close>

definition numericCompare :: "js \<Rightarrow> js \<Rightarrow> (js_number \<Rightarrow> js_number \<Rightarrow> bool) \<Rightarrow> bool" where
  "numericCompare left right cmp =
     (case (left, right) of
        (Num a, Num b) \<Rightarrow> if a = NaN \<or> b = NaN then False else cmp a b
      | _ \<Rightarrow> False)"

definition containsOp :: "js \<Rightarrow> js \<Rightarrow> bool" where
  "containsOp left right =
     (case (left, right) of
        (Str a, Str b) \<Rightarrow> js_includes a b
      | (Arr xs, _) \<Rightarrow> list_ex (\<lambda>candidate. deepEqual candidate right) xs
      | _ \<Rightarrow> False)"

definition matchesOp ::
  "regex_engine \<Rightarrow> js \<Rightarrow> js \<Rightarrow> string \<Rightarrow> eval_state \<Rightarrow> leaf_tri \<times> eval_state" where
  "matchesOp E left right path st =
     (case right of
        Str pattern \<Rightarrow>
          if MAX_REGEX_PATTERN < length pattern then fail_with Literal_Too_Large (path @ ''.value'') st
          else (case left of
                  Str input \<Rightarrow>
                    if MAX_REGEX_INPUT_LENGTH < length input then fail_with Regex_Input_Too_Long path st
                    else if isPatternMarkedUnsafe pattern (es_cache st)
                      then fail_with Regex_Pattern_Unsafe path st
                    else
                      let (regex, c) = compileSafeRegex E pattern (es_cache st);
                          st1 = st\<lparr>es_cache := c\<rparr>
                      in if \<not> regex then
                           (if isPatternMarkedUnsafe pattern c then fail_with Regex_Pattern_Unsafe path st1
                            else if isPatternMarkedInvalid pattern c
                              then fail_with Regex_Evaluation_Failed path st1
                            else fail_with Regex_Evaluation_Failed path st1)
                         else (case re_test E pattern input of
                                 Some b \<Rightarrow> (tri_of b, st1)
                               | None \<Rightarrow> fail_with Regex_Evaluation_Failed path st1)
                | _ \<Rightarrow> (Tri_False, st))
      | _ \<Rightarrow> (Tri_False, st))"

definition membership :: "bool \<Rightarrow> js \<Rightarrow> js \<Rightarrow> string \<Rightarrow> eval_state \<Rightarrow> leaf_tri \<times> eval_state" where
  "membership negated left right path st =
     (case the_array right of
        None \<Rightarrow> (Tri_False, st)
      | Some xs \<Rightarrow>
          if MAX_LITERAL_ARRAY < length xs then fail_with Literal_Too_Large (path @ ''.value'') st
          else (let found = list_ex (\<lambda>candidate. deepEqual left candidate) xs
                in (tri_of (if negated then \<not> found else found), st)))"

definition applyOperator ::
  "regex_engine \<Rightarrow> string \<Rightarrow> js \<Rightarrow> js \<Rightarrow> string \<Rightarrow> eval_state \<Rightarrow> leaf_tri \<times> eval_state" where
  "applyOperator E op left right path st =
     (case map_of ALLOWED_OPERATORS op of
        Some Op_Eq \<Rightarrow> (tri_of (deepEqual left right), st)
      | Some Op_Neq \<Rightarrow> (tri_of (\<not> deepEqual left right), st)
      | Some Op_In \<Rightarrow> membership False left right path st
      | Some Op_Not_In \<Rightarrow> membership True left right path st
      | Some Op_Gt \<Rightarrow> (tri_of (numericCompare left right (\<lambda>a b. num_less b a)), st)
      | Some Op_Gte \<Rightarrow> (tri_of (numericCompare left right (\<lambda>a b. num_less b a \<or> num_eq a b)), st)
      | Some Op_Lt \<Rightarrow> (tri_of (numericCompare left right num_less), st)
      | Some Op_Lte \<Rightarrow> (tri_of (numericCompare left right (\<lambda>a b. num_less a b \<or> num_eq a b)), st)
      | Some Op_Contains \<Rightarrow> (tri_of (containsOp left right), st)
      | Some Op_Matches \<Rightarrow> matchesOp E left right path st
      | None \<Rightarrow> fail_with Malformed_Predicate path st)"

definition count_lookup :: "eval_state \<Rightarrow> eval_state" where
  "count_lookup st =
     st\<lparr>es_diagnostics := (es_diagnostics st)\<lparr>field_lookups := field_lookups (es_diagnostics st) + 1\<rparr>\<rparr>"

definition ordinal_operators :: "policy_operator list" where
  "ordinal_operators = [Op_Gt, Op_Gte, Op_Lt, Op_Lte]"

definition evalLeaf ::
  "regex_engine \<Rightarrow> js \<Rightarrow> js \<Rightarrow> string \<Rightarrow> eval_state \<Rightarrow> leaf_tri \<times> eval_state" where
  "evalLeaf E context leaf path st =
     (case the_string (js_get ''field'' leaf) of
        None \<Rightarrow> fail_with Malformed_Predicate path st
      | Some field \<Rightarrow>
          (case the_string (js_get ''op'' leaf) of
             None \<Rightarrow> fail_with Malformed_Predicate path st
           | Some op \<Rightarrow>
               if isFieldPathTooDeep field then fail_with Field_Path_Depth_Exceeded (path @ ''.field'') st
               else
                 let st1 = count_lookup st;
                     fieldValue = resolveFieldPath context field
                 in case (if fieldValue = Undef then map_of ALLOWED_OPERATORS op else None) of
                      Some known \<Rightarrow>
                        if known \<in> set ordinal_operators
                        then fail_with Missing_Field (path @ ''.field'') st1 else (Tri_NA, st1)
                    | None \<Rightarrow> applyOperator E op fieldValue (js_get ''value'' leaf) path st1))"

section \<open>Connectives\<close>

text \<open>
  The loop over the children of a branch: every child is evaluated; a child that is no object ends the loop.
  The evaluation of a child, one level deeper, is the argument \<open>ev\<close>.
\<close>

type_synonym child_evaluator = "js \<Rightarrow> string \<Rightarrow> eval_state \<Rightarrow> leaf_tri \<times> eval_state"

fun scan_children ::
  "child_evaluator \<Rightarrow> string \<Rightarrow> nat \<Rightarrow> js list \<Rightarrow> eval_state
     \<Rightarrow> eval_state + leaf_tri list \<times> eval_state" where
  "scan_children ev base i [] st = Inr ([], st)"
| "scan_children ev base i (child # rest) st =
     (let path = base @ ''['' @ decimal i @ '']''
      in if \<not> is_object child then Inl (push_error Malformed_Branch_Child path st)
         else let (r, st1) = ev child path st
              in case scan_children ev base (Suc i) rest st1 of
                   Inl st2 \<Rightarrow> Inl st2
                 | Inr (rs, st2) \<Rightarrow> Inr (r # rs, st2))"

definition evalAnd ::
  "child_evaluator \<Rightarrow> js \<Rightarrow> string \<Rightarrow> eval_state \<Rightarrow> leaf_tri \<times> eval_state" where
  "evalAnd ev preds path st =
     (case the_array preds of
        None \<Rightarrow> fail_with Malformed_Predicate path st
      | Some ps \<Rightarrow>
          if MAX_BRANCH_FANOUT < length ps then fail_with Branch_Fanout_Exceeded path st
          else (case scan_children ev (path @ ''.and'') 0 ps st of
                  Inl st1 \<Rightarrow> (Tri_Err, st1)
                | Inr (results, st1) \<Rightarrow>
                    if list_ex (\<lambda>r. r = Tri_Err) results then (Tri_Err, st1)
                    else if list_ex (\<lambda>r. r = Tri_False) results then (Tri_False, st1)
                    else if list_ex (\<lambda>r. r = Tri_NA) results then (Tri_NA, st1)
                    else (Tri_True, st1)))"

definition evalOr ::
  "child_evaluator \<Rightarrow> js \<Rightarrow> string \<Rightarrow> eval_state \<Rightarrow> leaf_tri \<times> eval_state" where
  "evalOr ev preds path st =
     (case the_array preds of
        None \<Rightarrow> fail_with Malformed_Predicate path st
      | Some ps \<Rightarrow>
          if MAX_BRANCH_FANOUT < length ps then fail_with Branch_Fanout_Exceeded path st
          else (case scan_children ev (path @ ''.or'') 0 ps st of
                  Inl st1 \<Rightarrow> (Tri_Err, st1)
                | Inr (results, st1) \<Rightarrow>
                    if list_ex (\<lambda>r. r = Tri_Err) results then (Tri_Err, st1)
                    else if list_ex (\<lambda>r. r = Tri_True) results then (Tri_True, st1)
                    else if list_ex (\<lambda>r. r = Tri_NA) results then (Tri_NA, st1)
                    else (Tri_False, st1)))"

definition evalNot ::
  "child_evaluator \<Rightarrow> js \<Rightarrow> string \<Rightarrow> eval_state \<Rightarrow> leaf_tri \<times> eval_state" where
  "evalNot ev inner path st =
     (if \<not> is_object inner then fail_with Malformed_Branch_Child (path @ ''.not'') st
      else (case ev inner (path @ ''.not'') st of
              (Tri_Err, st1) \<Rightarrow> (Tri_Err, st1)
            | (Tri_NA, st1) \<Rightarrow> (Tri_NA, st1)
            | (Tri_True, st1) \<Rightarrow> (Tri_False, st1)
            | (Tri_False, st1) \<Rightarrow> (Tri_True, st1)))"

definition enter_node :: "nat \<Rightarrow> eval_state \<Rightarrow> eval_state" where
  "enter_node depth st =
     st\<lparr>es_diagnostics := (es_diagnostics st)
          \<lparr>predicate_depth_visited := max (predicate_depth_visited (es_diagnostics st)) depth\<rparr>,
        es_nodeCount := es_nodeCount st + 1\<rparr>"

function evalPredicate ::
  "regex_engine \<Rightarrow> js \<Rightarrow> nat \<Rightarrow> js \<Rightarrow> string \<Rightarrow> eval_state \<Rightarrow> leaf_tri \<times> eval_state" where
  "evalPredicate E context depth pred path st0 =
     (let st = enter_node depth st0
      in if MAX_TOTAL_PREDICATE_NODES < es_nodeCount st then fail_with Branch_Fanout_Exceeded path st
         else if MAX_PREDICATE_DEPTH < depth then fail_with Predicate_Depth_Exceeded path st
         else if \<not> is_object pred then fail_with Malformed_Predicate path st
         else
           let kind = js_get ''kind'' pred;
               ev = (\<lambda>child cpath cst. evalPredicate E context (Suc depth) child cpath cst)
           in if kind = Str ''leaf'' then evalLeaf E context pred path st
              else if kind = Str ''and'' then evalAnd ev (js_get ''predicates'' pred) path st
              else if kind = Str ''or'' then evalOr ev (js_get ''predicates'' pred) path st
              else if kind = Str ''not'' then evalNot ev (js_get ''predicate'' pred) path st
              else fail_with Malformed_Predicate path st)"
  by pat_completeness auto
termination
  by (relation "measure (\<lambda>(E, context, depth, pred, path, st). Suc MAX_PREDICATE_DEPTH - depth)") auto

declare evalPredicate.simps [simp del]

section \<open>Evaluation of a rule body\<close>

definition initial_state :: "regex_cache \<Rightarrow> eval_state" where
  "initial_state c =
     \<lparr>es_errors = [],
      es_diagnostics = \<lparr>predicate_depth_visited = 0, field_lookups = 0, regex_cache_hits = 0,
                        regex_compiled = 0\<rparr>,
      es_nodeCount = 0, es_cache = c\<rparr>"

definition decision ::
  "policy_outcome \<Rightarrow> js \<Rightarrow> js \<Rightarrow> eval_state \<Rightarrow> policy_decision \<times> regex_cache" where
  "decision outcome rule_id effect st =
     (\<lparr>pd_outcome = outcome, pd_matched = (outcome = Matched), pd_rule_id = rule_id, pd_effect = effect,
       pd_errors = es_errors st, pd_diagnostics = es_diagnostics st\<rparr>, es_cache st)"

definition inert :: "eval_code \<Rightarrow> string \<Rightarrow> eval_state \<Rightarrow> policy_decision \<times> regex_cache" where
  "inert code path st = decision Evaluation_Error Undef Undef (push_error code path st)"

definition effect_valid :: "js \<Rightarrow> bool" where
  "effect_valid effect \<longleftrightarrow> is_object effect
     \<and> (case the_string (js_get ''action'' effect) of
          None \<Rightarrow> False | Some action \<Rightarrow> action \<in> set ALLOWED_EFFECT_ACTIONS)"

definition evaluate :: "regex_engine \<Rightarrow> js \<Rightarrow> js \<Rightarrow> regex_cache \<Rightarrow> policy_decision \<times> regex_cache" where
  "evaluate E rule_body context c =
     (let st = initial_state c
      in if \<not> is_object rule_body then inert Malformed_Predicate ''$'' st
         else if \<not> is_object (js_get ''predicate'' rule_body)
           then inert Malformed_Predicate ''$.predicate'' st
         else
           let (leafResult, st1) =
                 evalPredicate E context 0 (js_get ''predicate'' rule_body) ''$.predicate'' st;
               rule_id = js_get ''rule_id'' rule_body;
               effect = js_get ''effect'' rule_body
           in if 0 < length (es_errors st1) \<or> leafResult = Tri_Err
                then decision Evaluation_Error rule_id Undef st1
              else if leafResult = Tri_NA then decision Not_Applicable rule_id Undef st1
              else if leafResult = Tri_False then decision Not_Matched rule_id Undef st1
              else if \<not> effect_valid effect
                then decision Evaluation_Error rule_id Undef (push_error Invalid_Effect ''$.effect'' st1)
              else decision Matched rule_id effect st1)"

section \<open>Enforcement\<close>

datatype enforcement_action = Enf_Allow js | Enf_Block js | Enf_Observe js
  | Enf_Pass policy_outcome | Enf_Block_Error "eval_code list"

definition enforce :: "policy_decision \<Rightarrow> enforcement_action" where
  "enforce d =
     (case pd_outcome d of
        Matched \<Rightarrow>
          let effect = pd_effect d; action = js_get ''action'' effect
          in if \<not> is_object effect then Enf_Block_Error [Invalid_Effect]
             else if action = Str ''allow'' then Enf_Allow effect
             else if action = Str ''block'' \<or> action = Str ''require_dual_approval'' then Enf_Block effect
             else if action = Str ''warn'' \<or> action = Str ''log'' then Enf_Observe effect
             else Enf_Block_Error [Invalid_Effect]
      | Not_Matched \<Rightarrow> Enf_Pass Not_Matched
      | Not_Applicable \<Rightarrow> Enf_Pass Not_Applicable
      | Evaluation_Error \<Rightarrow> Enf_Block_Error (map ee_code (pd_errors d)))"

end
