(* ===== verification/Policy_Laws.thy ===== *)
theory Policy_Laws
  imports Policy_Evaluator
begin

text \<open>
  What the evaluator of policies promises: it only adds errors and keeps the cache sound, it reports an error
  exactly when its value is one, its work is bounded, its decision does not depend on the cache, and
  without errors it is the three-valued logic of the tree.
\<close>

section \<open>The cases of a node\<close>

text \<open>The guards of a node passed: it is counted, not too deep, and an object.\<close>

definition admitted :: "nat \<Rightarrow> js \<Rightarrow> eval_state \<Rightarrow> bool" where
  "admitted depth pred st0 \<longleftrightarrow> es_nodeCount st0 < MAX_TOTAL_PREDICATE_NODES
     \<and> depth \<le> MAX_PREDICATE_DEPTH \<and> is_object pred"

lemma evalPredicate_cases:
  obtains (fail) code where
      "evalPredicate E ctx depth pred path st0 = fail_with code path (enter_node depth st0)"
  | (leaf) "admitted depth pred st0" "js_get ''kind'' pred = Str ''leaf''"
      "evalPredicate E ctx depth pred path st0 = evalLeaf E ctx pred path (enter_node depth st0)"
  | (conj) "admitted depth pred st0" "js_get ''kind'' pred = Str ''and''"
      "evalPredicate E ctx depth pred path st0
         = evalAnd (evalPredicate E ctx (Suc depth)) (js_get ''predicates'' pred) path
             (enter_node depth st0)"
  | (disj) "admitted depth pred st0" "js_get ''kind'' pred = Str ''or''"
      "evalPredicate E ctx depth pred path st0
         = evalOr (evalPredicate E ctx (Suc depth)) (js_get ''predicates'' pred) path
             (enter_node depth st0)"
  | (neg) "admitted depth pred st0" "js_get ''kind'' pred = Str ''not''"
      "evalPredicate E ctx depth pred path st0
         = evalNot (evalPredicate E ctx (Suc depth)) (js_get ''predicate'' pred) path
             (enter_node depth st0)"
proof (cases "admitted depth pred st0")
  case True
  then have ok: "\<not> MAX_TOTAL_PREDICATE_NODES < es_nodeCount (enter_node depth st0)"
    "\<not> MAX_PREDICATE_DEPTH < depth" "is_object pred"
    by (simp_all add: admitted_def enter_node_def)
  show thesis
    using that evalPredicate.simps [of E ctx depth pred path st0] True ok
    by (auto simp: Let_def split: if_splits)
next
  case False
  then show thesis
    using that(1) evalPredicate.simps [of E ctx depth pred path st0]
    by (auto simp: Let_def admitted_def enter_node_def not_less split: if_splits)
qed

text \<open>Induction on the remaining depth.\<close>

lemma depth_induct [case_names deeper]:
  assumes "\<And>depth x y z. (\<And>x y z. depth \<le> MAX_PREDICATE_DEPTH \<Longrightarrow> P (Suc depth) x y z)
      \<Longrightarrow> P depth x y z"
  shows "P depth x y z"
proof (induction "Suc MAX_PREDICATE_DEPTH - depth" arbitrary: depth x y z rule: less_induct)
  case less
  show ?case by (rule assms) (rule less, simp)
qed

section \<open>Relations every step of an evaluation keeps\<close>

lemmas state_simps = push_error_def fail_with_def count_lookup_def enter_node_def

lemma matchesOp_states:
  obtains (same) "snd (matchesOp E left right path st) = st"
    | (push) code q where "snd (matchesOp E left right path st) = push_error code q st"
    | (compile) p where "snd (matchesOp E left right path st)
        = st\<lparr>es_cache := snd (compileSafeRegex E p (es_cache st))\<rparr>"
    | (both) code q p where "snd (matchesOp E left right path st)
        = push_error code q (st\<lparr>es_cache := snd (compileSafeRegex E p (es_cache st))\<rparr>)"
proof (cases "the_string left = None \<or> the_string right = None")
  case True
  then have "snd (matchesOp E left right path st) = st
      \<or> (\<exists>code q. snd (matchesOp E left right path st) = push_error code q st)"
    by (auto simp: matchesOp_def fail_with_def the_string_def split: js.splits)
  then show thesis using that(1,2) by blast
next
  case False
  then obtain pattern input where r: "right = Str pattern" "left = Str input"
    by (auto simp: the_string_def split: js.splits)
  obtain regex c where rc: "compileSafeRegex E pattern (es_cache st) = (regex, c)" by fastforce
  let ?st1 = "st\<lparr>es_cache := c\<rparr>"
  have "snd (matchesOp E left right path st) = ?st1
    \<or> (\<exists>code q. snd (matchesOp E left right path st) = push_error code q st)
    \<or> (\<exists>code q. snd (matchesOp E left right path st) = push_error code q ?st1)"
    by (auto simp: matchesOp_def fail_with_def r rc Let_def split: option.split)
  moreover have "c = snd (compileSafeRegex E pattern (es_cache st))" by (simp add: rc)
  ultimately show thesis using that(2-4) by blast
qed

locale evaluation_relation =
  fixes E :: regex_engine and R :: "eval_state \<Rightarrow> eval_state \<Rightarrow> bool"
  assumes R_refl: "R st st"
    and R_trans: "R st st1 \<Longrightarrow> R st1 st2 \<Longrightarrow> R st st2"
    and R_push: "R st (push_error code path st)"
    and R_lookup: "R st (count_lookup st)"
    and R_enter: "R st (enter_node depth st)"
    and R_compile: "R st (st\<lparr>es_cache := snd (compileSafeRegex E p (es_cache st))\<rparr>)"
begin

lemma R_fail: "R st (snd (fail_with code path st))"
  by (simp add: fail_with_def R_push)

lemma matchesOp_R: "R st (snd (matchesOp E left right path st))"
proof (rule matchesOp_states [of E left right path st])
  fix code q p
  assume "snd (matchesOp E left right path st)
      = push_error code q (st\<lparr>es_cache := snd (compileSafeRegex E p (es_cache st))\<rparr>)"
  then show ?thesis using R_trans [OF R_compile R_push] by simp
qed (simp_all add: R_refl R_push R_compile)

lemma applyOperator_R: "R st (snd (applyOperator E op left right path st))"
  by (auto simp: applyOperator_def membership_def Let_def R_refl R_fail matchesOp_R
      split: option.splits policy_operator.splits)

lemma evalLeaf_R: "R st (snd (evalLeaf E ctx leaf path st))"
  using R_trans [OF R_lookup applyOperator_R] R_trans [OF R_lookup R_fail] R_lookup
  by (auto simp: evalLeaf_def Let_def R_fail split: option.splits)

lemma scan_children_R:
  assumes "\<And>child cpath cst. R cst (snd (ev child cpath cst))"
  shows "case scan_children ev base i ps st of Inl st1 \<Rightarrow> R st st1 | Inr (rs, st1) \<Rightarrow> R st st1"
proof (induction ps arbitrary: i st)
  case Nil
  then show ?case by (simp add: R_refl)
next
  case (Cons child rest)
  let ?path = "base @ ''['' @ decimal i @ '']''"
  have "R st (snd (ev child ?path st))" by (rule assms)
  with Cons [of "snd (ev child ?path st)" "Suc i"] show ?case
    by (auto simp: Let_def R_push split: prod.splits sum.splits intro: R_trans)
qed

lemma branch_R:
  assumes "\<And>child cpath cst. R cst (snd (ev child cpath cst))"
  shows "R st (snd (evalAnd ev preds path st))" and "R st (snd (evalOr ev preds path st))"
    and "R st (snd (evalNot ev preds path st))"
proof -
  have scan: "scan_children ev base 0 ps st = Inl st1 \<Longrightarrow> R st st1"
    "scan_children ev base 0 ps st = Inr (rs, st1) \<Longrightarrow> R st st1" for base ps st1 rs
    using scan_children_R [where ev = ev and base = base and i = 0 and ps = ps and st = st, OF assms]
    by simp_all
  show "R st (snd (evalAnd ev preds path st))" "R st (snd (evalOr ev preds path st))"
    by (auto simp: evalAnd_def evalOr_def R_fail dest: scan split: option.splits sum.splits)
  show "R st (snd (evalNot ev preds path st))"
    using assms [of st preds "path @ ''.not''"]
    by (auto simp: evalNot_def R_fail split: prod.splits leaf_tri.splits)
qed

lemma evalPredicate_R: "R st (snd (evalPredicate E ctx depth pred path st))"
proof (induction depth pred path st rule: depth_induct)
  case (deeper depth pred path st)
  have enter: "R (enter_node depth st) st1 \<Longrightarrow> R st st1" for st1
    by (rule R_trans [OF R_enter])
  show ?case
  proof (cases rule: evalPredicate_cases [of E ctx depth pred path st])
    case fail
    then show ?thesis by (auto intro: enter R_fail)
  next
    case leaf
    then show ?thesis by (auto intro: enter evalLeaf_R)
  next
    case conj
    then show ?thesis using deeper.IH by (auto simp: admitted_def intro!: enter branch_R(1))
  next
    case disj
    then show ?thesis using deeper.IH by (auto simp: admitted_def intro!: enter branch_R(2))
  next
    case neg
    then show ?thesis using deeper.IH by (auto simp: admitted_def intro!: enter branch_R(3))
  qed
qed

end

text \<open>An evaluation only appends errors, keeps the cache sound and never counts hits or compilations.\<close>

interpretation ev_errors: evaluation_relation E
  "\<lambda>st st1. \<exists>es. es_errors st1 = es_errors st @ es" for E
  by unfold_locales (auto simp: state_simps)

interpretation ev_cache: evaluation_relation E
  "\<lambda>st st1. cache_ok E (es_cache st) \<longrightarrow> cache_ok E (es_cache st1)" for E
  by unfold_locales (auto simp: state_simps rc.compile_ok)

interpretation ev_counters: evaluation_relation E
  "\<lambda>st st1. regex_cache_hits (es_diagnostics st1) = regex_cache_hits (es_diagnostics st)
     \<and> regex_compiled (es_diagnostics st1) = regex_compiled (es_diagnostics st)" for E
  by unfold_locales (auto simp: state_simps)

section \<open>A value is an error exactly when an error was added\<close>

definition honest :: "eval_state \<Rightarrow> leaf_tri \<times> eval_state \<Rightarrow> bool" where
  "honest st res \<longleftrightarrow> (fst res = Tri_Err) = (length (es_errors st) < length (es_errors (snd res)))
     \<and> length (es_errors st) \<le> length (es_errors (snd res))"

lemma honest_fail [simp]: "honest st (fail_with code path st1) \<longleftrightarrow> length (es_errors st) \<le> length (es_errors st1)"
  by (auto simp: honest_def state_simps)

lemma honest_value: "r \<noteq> Tri_Err \<Longrightarrow> length (es_errors st1) = length (es_errors st) \<Longrightarrow> honest st (r, st1)"
  by (simp add: honest_def)

lemma tri_of_not_err [simp]: "tri_of b \<noteq> Tri_Err" "tri_of b \<noteq> Tri_NA"
  by (simp_all add: tri_of_def)

lemma honest_matchesOp: "honest st (matchesOp E left right path st)"
  by (auto simp: matchesOp_def Let_def honest_value split: js.split prod.split option.split)

lemma honest_evalLeaf: "honest st (evalLeaf E ctx leaf path st)"
proof -
  have "honest (count_lookup st) (applyOperator E op l r path (count_lookup st))" for op l r
    by (auto simp: applyOperator_def membership_def Let_def honest_value honest_matchesOp
        split: option.split policy_operator.split)
  then have "honest st (applyOperator E op l r path (count_lookup st))" for op l r
    by (simp add: honest_def count_lookup_def)
  then show ?thesis
    by (auto simp: evalLeaf_def Let_def honest_value state_simps honest_def split: option.split)
qed

lemma honest_scan:
  assumes "\<And>child cpath cst. honest cst (ev child cpath cst)"
  shows "case scan_children ev base i ps st of
      Inl st1 \<Rightarrow> length (es_errors st) < length (es_errors st1)
    | Inr (rs, st1) \<Rightarrow> (Tri_Err \<in> set rs) = (length (es_errors st) < length (es_errors st1))
        \<and> length (es_errors st) \<le> length (es_errors st1)"
proof (induction ps arbitrary: i st)
  case Nil
  then show ?case by simp
next
  case (Cons child rest)
  let ?path = "base @ ''['' @ decimal i @ '']''"
  have "honest st (ev child ?path st)" by (rule assms)
  with Cons [of "snd (ev child ?path st)" "Suc i"] show ?case
    by (auto simp: Let_def honest_def push_error_def split: prod.splits sum.splits)
qed

lemma honest_branch:
  assumes "\<And>child cpath cst. honest cst (ev child cpath cst)"
  shows "honest st (evalAnd ev preds path st)" and "honest st (evalOr ev preds path st)"
    and "honest st (evalNot ev preds path st)"
proof -
  note scan = honest_scan [where ev = ev and i = 0 and st = st, OF assms]
  show "honest st (evalAnd ev preds path st)"
    using scan [of "path @ ''.and''" "the (the_array preds)"]
    by (auto simp: evalAnd_def honest_def list_ex_iff state_simps split: option.split sum.splits prod.splits)
  show "honest st (evalOr ev preds path st)"
    using scan [of "path @ ''.or''" "the (the_array preds)"]
    by (auto simp: evalOr_def honest_def list_ex_iff state_simps split: option.split sum.splits prod.splits)
  show "honest st (evalNot ev preds path st)"
    using assms [of st preds "path @ ''.not''"]
    by (auto simp: evalNot_def honest_def state_simps split: prod.splits leaf_tri.splits)
qed

lemma errors_enter [simp]: "es_errors (enter_node depth st) = es_errors st"
  by (simp add: enter_node_def)

lemma honest_evalPredicate: "honest st (evalPredicate E ctx depth pred path st)"
proof (induction depth pred path st rule: depth_induct)
  case (deeper depth pred path st)
  have enter: "honest (enter_node depth st) res \<Longrightarrow> honest st res" for res
    by (simp add: honest_def enter_node_def)
  show ?case
    using deeper.IH
    by (cases rule: evalPredicate_cases [of E ctx depth pred path st])
      (auto simp: admitted_def intro!: enter honest_evalLeaf honest_branch)
qed

section \<open>The cache is transparent\<close>

text \<open>What is seen of a result: all but the cache.\<close>

definition strip :: "eval_state \<Rightarrow> eval_state" where
  "strip st = st\<lparr>es_cache := resetRegexCache\<rparr>"

definition observe :: "leaf_tri \<times> eval_state \<Rightarrow> leaf_tri \<times> eval_state" where
  "observe res = (fst res, strip (snd res))"

definition twins :: "regex_engine \<Rightarrow> eval_state \<Rightarrow> eval_state \<Rightarrow> bool" where
  "twins E st st' \<longleftrightarrow> strip st = strip st' \<and> cache_ok E (es_cache st) \<and> cache_ok E (es_cache st')"

lemma strip_simps [simp]:
  "strip (push_error code path st) = push_error code path (strip st)"
  "strip (st\<lparr>es_cache := c\<rparr>) = strip st"
  "strip (count_lookup st) = count_lookup (strip st)"
  "strip (enter_node depth st) = enter_node depth (strip st)"
  by (simp_all add: strip_def state_simps)

lemma observe_simps [simp]:
  "observe (fail_with code path st) = fail_with code path (strip st)"
  "observe (r, st) = (r, strip st)"
  by (simp_all add: observe_def fail_with_def)

lemma strip_nodeCount: "strip st = strip st' \<Longrightarrow> es_nodeCount st = es_nodeCount st'"
  by (simp add: strip_def) (metis eval_state.ext_inject eval_state.surjective eval_state.update_convs(4))

lemma twins_strip: "twins E st st' \<Longrightarrow> strip st = strip st'"
  by (simp add: twins_def)

lemma twins_steps [intro]:
  "twins E st st' \<Longrightarrow> twins E (count_lookup st) (count_lookup st')"
  "twins E st st' \<Longrightarrow> twins E (enter_node depth st) (enter_node depth st')"
  by (simp_all add: twins_def) (simp_all add: state_simps)

lemma observe_matchesOp:
  assumes "cache_ok E (es_cache st)"
  shows "observe (matchesOp E left right path st) =
    (case right of
       Str pattern \<Rightarrow>
         if MAX_REGEX_PATTERN < length pattern then fail_with Literal_Too_Large (path @ ''.value'') (strip st)
         else (case left of
                 Str input \<Rightarrow>
                   if MAX_REGEX_INPUT_LENGTH < length input
                     then fail_with Regex_Input_Too_Long path (strip st)
                   else (case verdict E pattern of
                           Compiled \<Rightarrow>
                             (case re_test E pattern input of
                                Some b \<Rightarrow> (tri_of b, strip st)
                              | None \<Rightarrow> fail_with Regex_Evaluation_Failed path (strip st))
                         | Unsafe_Pattern \<Rightarrow> fail_with Regex_Pattern_Unsafe path (strip st)
                         | Invalid_Pattern \<Rightarrow> fail_with Regex_Evaluation_Failed path (strip st))
               | _ \<Rightarrow> (Tri_False, strip st))
     | _ \<Rightarrow> (Tri_False, strip st))"
proof -
  have "observe (matchesOp E (Str input) (Str pattern) path st) = (case verdict E pattern of
      Compiled \<Rightarrow> (case re_test E pattern input of
                     Some b \<Rightarrow> (tri_of b, strip st)
                   | None \<Rightarrow> fail_with Regex_Evaluation_Failed path (strip st))
    | Unsafe_Pattern \<Rightarrow> fail_with Regex_Pattern_Unsafe path (strip st)
    | Invalid_Pattern \<Rightarrow> fail_with Regex_Evaluation_Failed path (strip st))"
    if "length pattern \<le> MAX_REGEX_PATTERN" "length input \<le> MAX_REGEX_INPUT_LENGTH" for pattern input
    unfolding rc.diagnosis [OF assms, of pattern, symmetric,
        where f = "fail_with Regex_Evaluation_Failed path (strip st)"]
    using that by (simp add: matchesOp_def Let_def case_prod_unfold not_less split: option.split)
  then show ?thesis
    by (auto simp: matchesOp_def split: js.split)
qed

lemma twins_matchesOp:
  assumes "twins E st st'"
  shows "observe (matchesOp E left right path st) = observe (matchesOp E left right path st')"
proof -
  have "cache_ok E (es_cache st)" "cache_ok E (es_cache st')" using assms by (simp_all add: twins_def)
  then show ?thesis by (simp only: observe_matchesOp twins_strip [OF assms])
qed

lemma twins_applyOperator:
  assumes "twins E st st'"
  shows "observe (applyOperator E op left right path st) = observe (applyOperator E op left right path st')"
  using twins_matchesOp [OF assms] twins_strip [OF assms]
  by (auto simp: applyOperator_def membership_def Let_def split: option.split policy_operator.split)

lemma twins_evalLeaf:
  assumes "twins E st st'"
  shows "observe (evalLeaf E ctx leaf path st) = observe (evalLeaf E ctx leaf path st')"
  using twins_applyOperator [OF twins_steps(1) [OF assms]] twins_strip [OF assms]
  by (auto simp: evalLeaf_def Let_def split: option.split)

lemma twins_result:
  assumes "\<And>child cpath cst. cache_ok E (es_cache cst) \<longrightarrow> cache_ok E (es_cache (snd (ev child cpath cst)))"
    and "\<And>child cpath cst cst'. twins E cst cst' \<Longrightarrow> observe (ev child cpath cst) = observe (ev child cpath cst')"
    and "twins E st st'"
  shows "fst (ev child cpath st) = fst (ev child cpath st')
    \<and> twins E (snd (ev child cpath st)) (snd (ev child cpath st'))"
  using assms(1) assms(2) [OF assms(3)] assms(3) by (simp add: observe_def twins_def)

lemma twins_scan:
  assumes "\<And>child cpath cst. cache_ok E (es_cache cst) \<longrightarrow> cache_ok E (es_cache (snd (ev child cpath cst)))"
    and "\<And>child cpath cst cst'. twins E cst cst' \<Longrightarrow> observe (ev child cpath cst) = observe (ev child cpath cst')"
    and "twins E st st'"
  shows "map_sum strip (map_prod id strip) (scan_children ev base i ps st)
       = map_sum strip (map_prod id strip) (scan_children ev base i ps st')"
  using assms(3)
proof (induction ps arbitrary: i st st')
  case Nil
  then show ?case by (simp add: twins_strip)
next
  case (Cons child rest)
  let ?path = "base @ ''['' @ decimal i @ '']''"
  obtain r st1 st1' where ev: "ev child ?path st = (r, st1)" "ev child ?path st' = (r, st1')"
    and tw: "twins E st1 st1'"
    using twins_result [where ev = ev, OF assms(1,2) Cons.prems, of child ?path]
    by (metis prod.collapse)
  show ?case
    unfolding scan_children.simps Let_def ev prod.case
    using Cons.IH [OF tw, of "Suc i"] twins_strip [OF Cons.prems]
    by (auto split: sum.splits)
qed

lemma twins_branch:
  assumes "\<And>child cpath cst. cache_ok E (es_cache cst) \<longrightarrow> cache_ok E (es_cache (snd (ev child cpath cst)))"
    and "\<And>child cpath cst cst'. twins E cst cst' \<Longrightarrow> observe (ev child cpath cst) = observe (ev child cpath cst')"
    and "twins E st st'"
  shows "observe (evalAnd ev preds path st) = observe (evalAnd ev preds path st')"
    and "observe (evalOr ev preds path st) = observe (evalOr ev preds path st')"
    and "observe (evalNot ev preds path st) = observe (evalNot ev preds path st')"
proof -
  note scan = twins_scan [where ev = ev and i = 0, OF assms]
  show "observe (evalAnd ev preds path st) = observe (evalAnd ev preds path st')"
    using scan [of "path @ ''.and''" "the (the_array preds)"] twins_strip [OF assms(3)]
    by (auto simp: evalAnd_def split: option.split sum.splits)
  show "observe (evalOr ev preds path st) = observe (evalOr ev preds path st')"
    using scan [of "path @ ''.or''" "the (the_array preds)"] twins_strip [OF assms(3)]
    by (auto simp: evalOr_def split: option.split sum.splits)
  show "observe (evalNot ev preds path st) = observe (evalNot ev preds path st')"
    using twins_result [where ev = ev, OF assms, of preds "path @ ''.not''"] twins_strip [OF assms(3)]
    by (auto simp: evalNot_def twins_strip split: prod.splits leaf_tri.split)
qed

lemma twins_evalPredicate:
  "twins E st st' \<Longrightarrow>
     observe (evalPredicate E ctx depth pred path st) = observe (evalPredicate E ctx depth pred path st')"
proof (induction depth pred path st arbitrary: st' rule: depth_induct)
  case (deeper depth pred path st)
  have tw: "twins E (enter_node depth st) (enter_node depth st')" using deeper.prems by blast
  have tw': "strip (enter_node depth st) = strip (enter_node depth st')" by (rule twins_strip [OF tw])
  have IH: "observe (evalPredicate E ctx (Suc depth) child cpath cst)
      = observe (evalPredicate E ctx (Suc depth) child cpath cst')"
    if "depth \<le> MAX_PREDICATE_DEPTH" "twins E cst cst'" for child cpath cst cst'
    using deeper.IH that by blast
  have count: "es_nodeCount (enter_node depth st) = es_nodeCount (enter_node depth st')"
    by (rule strip_nodeCount [OF tw'])
  show ?case
  proof (cases "MAX_PREDICATE_DEPTH < depth")
    case True
    then show ?thesis using tw'
      by (simp add: evalPredicate.simps [of E ctx depth] Let_def count)
  next
    case False
    have ok: "cache_ok E (es_cache cst) \<longrightarrow> cache_ok E (es_cache (snd (evalPredicate E ctx (Suc depth) child cpath cst)))"
      for child cpath cst by (rule ev_cache.evalPredicate_R)
    note branch = twins_branch [where ev = "evalPredicate E ctx (Suc depth)", OF ok IH tw]
    show ?thesis
      using False tw' twins_evalLeaf [OF tw] branch
      by (simp add: evalPredicate.simps [of E ctx depth] Let_def count)
  qed
qed

section \<open>The work of an evaluation is bounded\<close>

text \<open>
  Once the node limit is hit every further node ends at once, but the loops over the children
  already open still visit the rest of their lists: at most one list for each level.
\<close>

definition node_budget :: "nat \<Rightarrow> nat" where
  "node_budget depth =
     MAX_TOTAL_PREDICATE_NODES + MAX_BRANCH_FANOUT * (Suc MAX_PREDICATE_DEPTH - depth)"

definition frugal :: "eval_state \<Rightarrow> eval_state \<Rightarrow> bool" where
  "frugal st st1 \<longleftrightarrow> es_nodeCount st \<le> es_nodeCount st1
     \<and> (field_lookups (es_diagnostics st) \<le> min (es_nodeCount st) MAX_TOTAL_PREDICATE_NODES
         \<longrightarrow> field_lookups (es_diagnostics st1) \<le> min (es_nodeCount st1) MAX_TOTAL_PREDICATE_NODES)
     \<and> (predicate_depth_visited (es_diagnostics st) \<le> Suc MAX_PREDICATE_DEPTH
         \<longrightarrow> predicate_depth_visited (es_diagnostics st1) \<le> Suc MAX_PREDICATE_DEPTH)"

definition work :: "nat \<Rightarrow> eval_state \<Rightarrow> eval_state \<Rightarrow> bool" where
  "work depth st st1 \<longleftrightarrow> frugal st st1
     \<and> es_nodeCount st1 \<le> max (Suc (es_nodeCount st)) (node_budget depth)
     \<and> length (es_errors st1) + es_nodeCount st \<le> length (es_errors st) + es_nodeCount st1"

lemma frugal_refl [simp]: "frugal st st"
  by (simp add: frugal_def)

lemma frugal_trans: "frugal st st1 \<Longrightarrow> frugal st1 st2 \<Longrightarrow> frugal st st2"
  by (auto simp: frugal_def)

lemma frugal_push [simp]: "frugal st (push_error code path st1) = frugal st st1"
  by (simp add: frugal_def push_error_def)

lemma frugal_enter: "depth \<le> Suc MAX_PREDICATE_DEPTH \<Longrightarrow> frugal st (enter_node depth st)"
  by (auto simp: frugal_def enter_node_def)

text \<open>An operator leaves the counters alone and adds at most one error.\<close>

definition quiet :: "eval_state \<Rightarrow> eval_state \<Rightarrow> bool" where
  "quiet st st1 \<longleftrightarrow> es_nodeCount st1 = es_nodeCount st \<and> es_diagnostics st1 = es_diagnostics st
     \<and> length (es_errors st1) \<le> Suc (length (es_errors st))"

lemma quiet_simps [simp]: "quiet st st" "quiet st (snd (fail_with code path st))"
  by (simp_all add: quiet_def state_simps)

lemma quiet_applyOperator: "quiet st (snd (applyOperator E op left right path st))"
proof -
  have "quiet st (snd (matchesOp E left right path st))"
    by (rule matchesOp_states [of E left right path st]) (simp_all add: quiet_def push_error_def)
  then show ?thesis
    by (auto simp: applyOperator_def membership_def Let_def split: option.split policy_operator.split)
qed

lemma evalLeaf_quiet:
  "quiet st (snd (evalLeaf E ctx leaf path st)) \<or> quiet (count_lookup st) (snd (evalLeaf E ctx leaf path st))"
  using quiet_applyOperator by (auto simp: evalLeaf_def Let_def split: option.split)

lemma frugal_quiet:
  "quiet (enter_node depth st) st1 \<or> quiet (count_lookup (enter_node depth st)) st1 \<Longrightarrow>
     es_nodeCount st < MAX_TOTAL_PREDICATE_NODES \<Longrightarrow> depth \<le> Suc MAX_PREDICATE_DEPTH \<Longrightarrow> work depth st st1"
  by (auto simp: work_def quiet_def frugal_def state_simps)

lemma work_scan:
  assumes "\<And>child cpath cst. work depth cst (snd (ev child cpath cst))"
  shows "case scan_children ev base i ps st of
      Inl st1 \<Rightarrow> frugal st st1 \<and> es_nodeCount st1 \<le> max (es_nodeCount st) (node_budget depth) + length ps
        \<and> length (es_errors st1) + es_nodeCount st \<le> Suc (length (es_errors st) + es_nodeCount st1)
    | Inr (rs, st1) \<Rightarrow> frugal st st1
        \<and> es_nodeCount st1 \<le> max (es_nodeCount st) (node_budget depth) + length ps
        \<and> length (es_errors st1) + es_nodeCount st \<le> length (es_errors st) + es_nodeCount st1"
proof (induction ps arbitrary: i st)
  case Nil
  then show ?case by simp
next
  case (Cons child rest)
  let ?path = "base @ ''['' @ decimal i @ '']''"
  obtain r st1 where ev: "ev child ?path st = (r, st1)" by fastforce
  have w: "work depth st st1" using assms [of st child ?path] unfolding ev by simp
  show ?case
    unfolding scan_children.simps Let_def ev prod.case
    using Cons.IH [of st1 "Suc i"] w frugal_trans [of st st1]
    by (auto simp: work_def push_error_def frugal_def split: sum.splits)
qed

lemma work_branch:
  assumes "\<And>child cpath cst. work (Suc depth) cst (snd (ev child cpath cst))"
    and "es_nodeCount st < MAX_TOTAL_PREDICATE_NODES" and "depth \<le> MAX_PREDICATE_DEPTH"
  shows "work depth st (snd (evalAnd ev preds path (enter_node depth st)))"
    and "work depth st (snd (evalOr ev preds path (enter_node depth st)))"
    and "work depth st (snd (evalNot ev preds path (enter_node depth st)))"
proof -
  let ?st = "enter_node depth st"
  have fr: "frugal st ?st" using assms(3) by (intro frugal_enter) simp
  have n: "es_nodeCount ?st = Suc (es_nodeCount st)" "es_errors ?st = es_errors st"
    by (simp_all add: enter_node_def)
  have budget: "node_budget depth = node_budget (Suc depth) + MAX_BRANCH_FANOUT"
    "MAX_TOTAL_PREDICATE_NODES \<le> node_budget (Suc depth)" "0 < MAX_BRANCH_FANOUT"
    using assms(3) by (simp_all add: node_budget_def MAX_BRANCH_FANOUT_def)
  have fail: "work depth st (push_error code q ?st)" for code q
    using fr n assms(2) by (simp add: work_def push_error_def frugal_def)
  have inl: "work depth st st1" if "scan_children ev base 0 ps ?st = Inl st1"
    "length ps \<le> MAX_BRANCH_FANOUT" for base ps st1
    using work_scan [where ev = ev and base = base and i = 0 and ps = ps and st = ?st, OF assms(1)]
      that n assms(2) budget frugal_trans [OF fr] by (simp add: work_def)
  have inr: "work depth st st1" if "scan_children ev base 0 ps ?st = Inr (rs, st1)"
    "length ps \<le> MAX_BRANCH_FANOUT" for base ps rs st1
    using work_scan [where ev = ev and base = base and i = 0 and ps = ps and st = ?st, OF assms(1)]
      that n assms(2) budget frugal_trans [OF fr] by (simp add: work_def)
  show "work depth st (snd (evalAnd ev preds path ?st))" "work depth st (snd (evalOr ev preds path ?st))"
    by (auto simp: evalAnd_def evalOr_def fail_with_def fail not_less
        split: option.split sum.split intro: inl inr)
  have "work depth st (snd (ev preds (path @ ''.not'') ?st))"
    using assms(1) [of ?st preds "path @ ''.not''"] n assms(2) budget frugal_trans [OF fr]
    by (auto simp: work_def)
  then show "work depth st (snd (evalNot ev preds path ?st))"
    by (auto simp: evalNot_def fail_with_def fail split: prod.splits leaf_tri.splits)
qed

lemma work_evalPredicate:
  "depth \<le> Suc MAX_PREDICATE_DEPTH \<Longrightarrow> work depth st (snd (evalPredicate E ctx depth pred path st))"
proof (induction depth pred path st rule: depth_induct)
  case (deeper depth pred path st)
  have child: "depth \<le> MAX_PREDICATE_DEPTH \<Longrightarrow>
      work (Suc depth) cst (snd (evalPredicate E ctx (Suc depth) c cpath cst))" for c cpath cst
    by (rule deeper.IH) simp_all
  show ?case
  proof (cases rule: evalPredicate_cases [of E ctx depth pred path st])
    case fail
    then show ?thesis using frugal_enter [OF deeper.prems, of st]
      by (simp add: work_def fail_with_def) (simp add: state_simps)
  next
    case leaf
    then show ?thesis
      using frugal_quiet [OF evalLeaf_quiet] deeper.prems by (simp add: admitted_def)
  next
    case conj
    then show ?thesis using work_branch(1) [OF child] by (simp add: admitted_def)
  next
    case disj
    then show ?thesis using work_branch(2) [OF child] by (simp add: admitted_def)
  next
    case neg
    then show ?thesis using work_branch(3) [OF child] by (simp add: admitted_def)
  qed
qed

end
