(* ===== verification/Policy_Rules.thy ===== *)
theory Policy_Rules
  imports Policy_Laws
begin

text \<open>
  What a decision means: the specification of a predicate as a value of three-valued logic, read off the tree
  without state, path, cache or bounds, and the theorems that relate the evaluator and its enforcement to it.
\<close>

section \<open>Three-valued logic as an order\<close>

text \<open>False, unknown, true in this order: conjunction is the minimum, disjunction the maximum.\<close>

datatype kleene = KFalse | KUnknown | KTrue

fun rank :: "kleene \<Rightarrow> nat" where
  "rank KFalse = 0"
| "rank KUnknown = 1"
| "rank KTrue = 2"

instantiation kleene :: linorder
begin

definition less_eq_kleene :: "kleene \<Rightarrow> kleene \<Rightarrow> bool" where
  "a \<le> b \<longleftrightarrow> rank a \<le> rank b"

definition less_kleene :: "kleene \<Rightarrow> kleene \<Rightarrow> bool" where
  "a < b \<longleftrightarrow> rank a < rank b"

instance
proof
  fix x y z :: kleene
  show "x < y \<longleftrightarrow> x \<le> y \<and> \<not> y \<le> x" "x \<le> x" "x \<le> y \<or> y \<le> x"
    by (auto simp: less_eq_kleene_def less_kleene_def)
  show "x \<le> y \<Longrightarrow> y \<le> z \<Longrightarrow> x \<le> z" by (simp add: less_eq_kleene_def)
  show "x \<le> y \<Longrightarrow> y \<le> x \<Longrightarrow> x = y" by (cases x; cases y) (simp_all add: less_eq_kleene_def)
qed

end

fun k_not :: "kleene \<Rightarrow> kleene" where
  "k_not KFalse = KTrue"
| "k_not KUnknown = KUnknown"
| "k_not KTrue = KFalse"

definition k_all :: "kleene list \<Rightarrow> kleene" where
  "k_all ks = foldr min ks KTrue"

definition k_any :: "kleene list \<Rightarrow> kleene" where
  "k_any ks = foldr max ks KFalse"

section \<open>The truth of a predicate\<close>

definition holds :: "regex_engine \<Rightarrow> policy_operator \<Rightarrow> js \<Rightarrow> js \<Rightarrow> bool" where
  "holds E op left right =
     (case op of
        Op_Eq \<Rightarrow> deepEqual left right
      | Op_Neq \<Rightarrow> \<not> deepEqual left right
      | Op_In \<Rightarrow> (case right of Arr xs \<Rightarrow> \<exists>x \<in> set xs. deepEqual left x | _ \<Rightarrow> False)
      | Op_Not_In \<Rightarrow> (case right of Arr xs \<Rightarrow> \<forall>x \<in> set xs. \<not> deepEqual left x | _ \<Rightarrow> False)
      | Op_Gt \<Rightarrow> numericCompare left right (\<lambda>a b. num_less b a)
      | Op_Gte \<Rightarrow> numericCompare left right (\<lambda>a b. num_less b a \<or> num_eq a b)
      | Op_Lt \<Rightarrow> numericCompare left right num_less
      | Op_Lte \<Rightarrow> numericCompare left right (\<lambda>a b. num_less a b \<or> num_eq a b)
      | Op_Contains \<Rightarrow> containsOp left right
      | Op_Matches \<Rightarrow> (case (left, right) of (Str s, Str p) \<Rightarrow> re_test E p s = Some True | _ \<Rightarrow> False))"

definition leaf_truth :: "regex_engine \<Rightarrow> js \<Rightarrow> js \<Rightarrow> kleene" where
  "leaf_truth E ctx leaf =
     (case (js_get ''field'' leaf, js_get ''op'' leaf) of
        (Str field, Str name) \<Rightarrow>
          (let v = resolveFieldPath ctx field
           in case map_of ALLOWED_OPERATORS name of
                None \<Rightarrow> KUnknown
              | Some op \<Rightarrow> if v = Undef then KUnknown
                           else if holds E op v (js_get ''value'' leaf) then KTrue else KFalse)
      | _ \<Rightarrow> KUnknown)"

lemma size_js_get: "js_get k v = w \<Longrightarrow> w \<noteq> Undef \<Longrightarrow> size w < size v"
  by (cases v) (auto simp: js_get_def own_def dest!: map_of_SomeD size_entry_less split: option.splits)

lemma size_child:
  assumes "the_array (js_get k v) = Some ps" and "p \<in> set ps"
  shows "size p < size v"
proof -
  have "js_get k v = Arr ps" using assms(1) by (auto simp: the_array_def split: js.splits)
  then show ?thesis using size_js_get [of k v "Arr ps"] size_member_less [OF assms(2)] by simp
qed

function truth :: "regex_engine \<Rightarrow> js \<Rightarrow> js \<Rightarrow> kleene" where
  "truth E ctx pred =
     (let kind = js_get ''kind'' pred
      in if kind = Str ''leaf'' then leaf_truth E ctx pred
         else if kind = Str ''and'' then
           (case the_array (js_get ''predicates'' pred) of
              Some ps \<Rightarrow> k_all (map (truth E ctx) ps) | None \<Rightarrow> KUnknown)
         else if kind = Str ''or'' then
           (case the_array (js_get ''predicates'' pred) of
              Some ps \<Rightarrow> k_any (map (truth E ctx) ps) | None \<Rightarrow> KUnknown)
         else if kind = Str ''not'' then
           (let inner = js_get ''predicate'' pred
            in if inner = Undef then KUnknown else k_not (truth E ctx inner))
         else KUnknown)"
  by pat_completeness auto
termination
  by (relation "measure (\<lambda>(E, ctx, pred). size pred)") (auto intro: size_child size_js_get)

declare truth.simps [simp del]

lemma k_all_eq:
  "k_all ks = (if KFalse \<in> set ks then KFalse else if KUnknown \<in> set ks then KUnknown else KTrue)"
proof (induction ks)
  case (Cons k ks)
  then show ?case by (cases k) (auto simp: k_all_def min_def less_eq_kleene_def)
qed (simp add: k_all_def)

lemma k_any_eq:
  "k_any ks = (if KTrue \<in> set ks then KTrue else if KUnknown \<in> set ks then KUnknown else KFalse)"
proof (induction ks)
  case (Cons k ks)
  then show ?case by (cases k) (auto simp: k_any_def max_def less_eq_kleene_def)
qed (simp add: k_any_def)

section \<open>The evaluator computes the truth\<close>

fun kleene_of :: "leaf_tri \<Rightarrow> kleene" where
  "kleene_of Tri_True = KTrue"
| "kleene_of Tri_False = KFalse"
| "kleene_of Tri_NA = KUnknown"
| "kleene_of Tri_Err = KUnknown"

lemma kleene_of_tri [simp]: "kleene_of (tri_of b) = (if b then KTrue else KFalse)"
  by (simp add: tri_of_def)

lemma matchesOp_holds:
  assumes "fst (matchesOp E left right path st) \<noteq> Tri_Err"
  shows "kleene_of (fst (matchesOp E left right path st)) = (if holds E Op_Matches left right then KTrue else KFalse)"
proof (cases "the_string left = None \<or> the_string right = None")
  case True
  then show ?thesis using assms
    by (auto simp: matchesOp_def holds_def the_string_def fail_with_def split: js.splits)
next
  case False
  then obtain s p where v: "left = Str s" "right = Str p" by (auto simp: the_string_def split: js.splits)
  obtain b c where rc: "compileSafeRegex E p (es_cache st) = (b, c)" by fastforce
  show ?thesis using assms
    by (auto simp: matchesOp_def holds_def v rc Let_def fail_with_def split: if_splits option.splits)
qed

lemma applyOperator_holds:
  assumes "fst (applyOperator E name left right path st) \<noteq> Tri_Err"
  obtains op where "map_of ALLOWED_OPERATORS name = Some op"
    "kleene_of (fst (applyOperator E name left right path st)) = (if holds E op left right then KTrue else KFalse)"
proof (cases "map_of ALLOWED_OPERATORS name")
  case None
  with assms show thesis by (simp add: applyOperator_def fail_with_def)
next
  case (Some op)
  have "kleene_of (fst (applyOperator E name left right path st)) = (if holds E op left right then KTrue else KFalse)"
    using assms Some matchesOp_holds
    by (cases op) (auto simp: applyOperator_def holds_def membership_def the_array_def fail_with_def
        list_ex_iff Let_def split: js.splits if_splits)
  with Some that show thesis by blast
qed

lemma evalLeaf_truth:
  assumes "fst (evalLeaf E ctx leaf path st) \<noteq> Tri_Err"
  shows "leaf_truth E ctx leaf = kleene_of (fst (evalLeaf E ctx leaf path st))"
proof -
  obtain field name where leaf: "js_get ''field'' leaf = Str field" "js_get ''op'' leaf = Str name"
    "\<not> isFieldPathTooDeep field"
    using assms by (auto simp: evalLeaf_def the_string_def fail_with_def split: js.splits option.splits if_splits)
  show ?thesis
  proof (cases "resolveFieldPath ctx field = Undef \<and> map_of ALLOWED_OPERATORS name \<noteq> None")
    case True
    then show ?thesis using assms leaf
      by (auto simp: evalLeaf_def leaf_truth_def the_string_def Let_def fail_with_def split: if_splits)
  next
    case False
    let ?res = "applyOperator E name (resolveFieldPath ctx field) (js_get ''value'' leaf) path (count_lookup st)"
    have res: "evalLeaf E ctx leaf path st = ?res"
      using False leaf by (auto simp: evalLeaf_def the_string_def Let_def)
    with assms obtain op where "map_of ALLOWED_OPERATORS name = Some op"
      "kleene_of (fst ?res) = (if holds E op (resolveFieldPath ctx field) (js_get ''value'' leaf) then KTrue else KFalse)"
      using applyOperator_holds [of E name "resolveFieldPath ctx field" "js_get ''value'' leaf" path "count_lookup st"]
      by metis
    then show ?thesis using False leaf res by (auto simp: leaf_truth_def Let_def)
  qed
qed

lemma scan_truth:
  assumes "\<And>child cpath cst. fst (ev child cpath cst) \<noteq> Tri_Err \<Longrightarrow> f child = kleene_of (fst (ev child cpath cst))"
    and "scan_children ev base i ps st = Inr (rs, st1)" and "Tri_Err \<notin> set rs"
  shows "map kleene_of rs = map f ps"
  using assms(2,3)
proof (induction ps arbitrary: i st rs)
  case Nil
  then show ?case by simp
next
  case (Cons child rest)
  let ?path = "base @ ''['' @ decimal i @ '']''"
  obtain r st2 where ev: "ev child ?path st = (r, st2)" by fastforce
  from Cons.prems(1) obtain rs' where rs: "rs = r # rs'"
    "scan_children ev base (Suc i) rest st2 = Inr (rs', st1)"
    unfolding scan_children.simps Let_def ev prod.case by (auto split: if_splits sum.splits)
  have "r \<noteq> Tri_Err" using Cons.prems(2) rs(1) by auto
  then have "f child = kleene_of r" using assms(1) [of child ?path st] unfolding ev by simp
  with Cons.IH [OF rs(2)] Cons.prems(2) rs(1) show ?case by simp
qed

lemma branch_truth:
  assumes "\<And>child cpath cst. fst (ev child cpath cst) \<noteq> Tri_Err \<Longrightarrow> f child = kleene_of (fst (ev child cpath cst))"
  shows "fst (evalAnd ev v path st) \<noteq> Tri_Err \<Longrightarrow>
      \<exists>ps. the_array v = Some ps \<and> kleene_of (fst (evalAnd ev v path st)) = k_all (map f ps)"
    and "fst (evalOr ev v path st) \<noteq> Tri_Err \<Longrightarrow>
      \<exists>ps. the_array v = Some ps \<and> kleene_of (fst (evalOr ev v path st)) = k_any (map f ps)"
proof -
  have k: "KFalse \<in> kleene_of ` set rs \<longleftrightarrow> Tri_False \<in> set rs" "KTrue \<in> kleene_of ` set rs \<longleftrightarrow> Tri_True \<in> set rs"
    "Tri_Err \<notin> set rs \<Longrightarrow> KUnknown \<in> kleene_of ` set rs \<longleftrightarrow> Tri_NA \<in> set rs" for rs
  proof -
    have kl: "kleene_of r = KFalse \<longleftrightarrow> r = Tri_False" "kleene_of r = KTrue \<longleftrightarrow> r = Tri_True"
      "kleene_of r = KUnknown \<longleftrightarrow> r = Tri_NA \<or> r = Tri_Err" for r by (cases r; simp)+
    show "KFalse \<in> kleene_of ` set rs \<longleftrightarrow> Tri_False \<in> set rs" "KTrue \<in> kleene_of ` set rs \<longleftrightarrow> Tri_True \<in> set rs"
      "Tri_Err \<notin> set rs \<Longrightarrow> KUnknown \<in> kleene_of ` set rs \<longleftrightarrow> Tri_NA \<in> set rs"
      by (auto simp: kl image_iff eq_commute [of _ "kleene_of _"])
  qed
  have scan: "map f ps = map kleene_of rs"
    if "scan_children ev base 0 ps st = Inr (rs, st1)" "Tri_Err \<notin> set rs" for base ps rs st1
    using scan_truth [where ev = ev and f = f] assms that by metis
  show "\<exists>ps. the_array v = Some ps \<and> kleene_of (fst (evalAnd ev v path st)) = k_all (map f ps)"
    if "fst (evalAnd ev v path st) \<noteq> Tri_Err"
  proof -
    from that obtain ps rs st1 where "the_array v = Some ps" and Inr: "scan_children ev (path @ ''.and'') 0 ps st = Inr (rs, st1)"
      "Tri_Err \<notin> set rs" "\<not> MAX_BRANCH_FANOUT < length ps"
      by (auto simp: evalAnd_def fail_with_def list_ex_iff split: option.splits if_splits sum.splits)
    then show ?thesis
      using arg_cong [where f = set, OF scan [OF Inr(1,2)]] by (simp add: evalAnd_def k_all_eq k list_ex_iff)
  qed
  show "\<exists>ps. the_array v = Some ps \<and> kleene_of (fst (evalOr ev v path st)) = k_any (map f ps)"
    if "fst (evalOr ev v path st) \<noteq> Tri_Err"
  proof -
    from that obtain ps rs st1 where "the_array v = Some ps" and Inr: "scan_children ev (path @ ''.or'') 0 ps st = Inr (rs, st1)"
      "Tri_Err \<notin> set rs" "\<not> MAX_BRANCH_FANOUT < length ps"
      by (auto simp: evalOr_def fail_with_def list_ex_iff split: option.splits if_splits sum.splits)
    then show ?thesis
      using arg_cong [where f = set, OF scan [OF Inr(1,2)]] by (simp add: evalOr_def k_any_eq k list_ex_iff)
  qed
qed

lemma not_truth:
  "(fst (ev v (path @ ''.not'') st) \<noteq> Tri_Err \<Longrightarrow> f v = kleene_of (fst (ev v (path @ ''.not'') st))) \<Longrightarrow>
     fst (evalNot ev v path st) \<noteq> Tri_Err \<Longrightarrow>
     is_object v \<and> kleene_of (fst (evalNot ev v path st)) = k_not (f v)"
  by (auto simp: evalNot_def fail_with_def split: if_splits prod.splits leaf_tri.splits)

lemma evalPredicate_truth:
  "fst (evalPredicate E ctx depth pred path st) \<noteq> Tri_Err \<Longrightarrow>
     truth E ctx pred = kleene_of (fst (evalPredicate E ctx depth pred path st))"
proof (induction depth pred path st rule: depth_induct)
  case (deeper depth pred path st)
  have child: "depth \<le> MAX_PREDICATE_DEPTH \<Longrightarrow> fst (evalPredicate E ctx (Suc depth) c cpath cst) \<noteq> Tri_Err \<Longrightarrow>
      truth E ctx c = kleene_of (fst (evalPredicate E ctx (Suc depth) c cpath cst))" for c cpath cst
    by (rule deeper.IH)
  show ?case
  proof (cases rule: evalPredicate_cases [of E ctx depth pred path st])
    case fail
    then show ?thesis using deeper.prems by (simp add: fail_with_def)
  next
    case leaf
    then show ?thesis using evalLeaf_truth deeper.prems by (simp add: truth.simps)
  next
    case conj
    with branch_truth(1) [where f = "truth E ctx", OF child] deeper.prems
    show ?thesis by (fastforce simp: truth.simps [of E ctx pred] admitted_def)
  next
    case disj
    with branch_truth(2) [where f = "truth E ctx", OF child] deeper.prems
    show ?thesis by (fastforce simp: truth.simps [of E ctx pred] admitted_def)
  next
    case neg
    with not_truth [where f = "truth E ctx" and ev = "evalPredicate E ctx (Suc depth)"] child deeper.prems
    have obj: "is_object (js_get ''predicate'' pred)"
      and eq: "kleene_of (fst (evalPredicate E ctx depth pred path st)) = k_not (truth E ctx (js_get ''predicate'' pred))"
      by (simp_all add: admitted_def)
    have "js_get ''predicate'' pred \<noteq> Undef" using obj by (auto simp: is_object_def)
    with eq show ?thesis using neg(2) by (simp add: truth.simps [of E ctx pred])
  qed
qed

section \<open>Decisions\<close>

lemma evaluate_cases:
  obtains (malformed) code path where "evaluate E body ctx c = inert code path (initial_state c)"
  | (error) r st1 where
      "evalPredicate E ctx 0 (js_get ''predicate'' body) ''$.predicate'' (initial_state c) = (r, st1)"
      "es_errors st1 \<noteq> []" "evaluate E body ctx c = decision Evaluation_Error (js_get ''rule_id'' body) Undef st1"
  | (decided) r st1 where
      "evalPredicate E ctx 0 (js_get ''predicate'' body) ''$.predicate'' (initial_state c) = (r, st1)"
      "es_errors st1 = []" "r \<noteq> Tri_Err"
      "evaluate E body ctx c =
         (if r = Tri_NA then decision Not_Applicable (js_get ''rule_id'' body) Undef st1
          else if r = Tri_False then decision Not_Matched (js_get ''rule_id'' body) Undef st1
          else if \<not> effect_valid (js_get ''effect'' body)
            then decision Evaluation_Error (js_get ''rule_id'' body) Undef
                   (push_error Invalid_Effect ''$.effect'' st1)
          else decision Matched (js_get ''rule_id'' body) (js_get ''effect'' body) st1)"
proof -
  let ?p = "js_get ''predicate'' body"
  obtain r st1 where ev: "evalPredicate E ctx 0 ?p ''$.predicate'' (initial_state c) = (r, st1)"
    by fastforce
  have "(r = Tri_Err) = (es_errors st1 \<noteq> [])"
    using honest_evalPredicate [of "initial_state c" E ctx 0 ?p "''$.predicate''"]
    unfolding ev honest_def by (simp add: initial_state_def)
  then consider "\<not> is_object body \<or> \<not> is_object ?p" | "is_object body" "is_object ?p" "es_errors st1 \<noteq> []"
    | "is_object body" "is_object ?p" "es_errors st1 = []" "r \<noteq> Tri_Err" by blast
  then show thesis
  proof cases
    case 1
    then have "evaluate E body ctx c = inert Malformed_Predicate ''$'' (initial_state c)
      \<or> evaluate E body ctx c = inert Malformed_Predicate ''$.predicate'' (initial_state c)"
      by (auto simp: evaluate_def Let_def)
    then show thesis using that(1) by blast
  next
    case 2
    then show thesis by (intro that(2) [OF ev]) (simp_all add: evaluate_def Let_def ev)
  next
    case 3
    then show thesis by (intro that(3) [OF ev]) (simp_all add: evaluate_def Let_def ev)
  qed
qed

lemma decision_simps [simp]:
  "pd_outcome (fst (decision oc rid eff st)) = oc" "pd_errors (fst (decision oc rid eff st)) = es_errors st"
  "pd_effect (fst (decision oc rid eff st)) = eff" "snd (decision oc rid eff st) = es_cache st"
  "pd_diagnostics (fst (decision oc rid eff st)) = es_diagnostics st"
  by (simp_all add: decision_def)

text \<open>A rule for the witnesses: block a pix of more than 100. The engine reads a pattern as plain text.\<close>

definition demo_engine :: regex_engine where
  "demo_engine = \<lparr>re_parses = (\<lambda>p. True), re_safe = (\<lambda>p. Some True),
     re_test = (\<lambda>p s. Some (js_includes s p))\<rparr>"

definition demo_leaf :: "string \<Rightarrow> string \<Rightarrow> js \<Rightarrow> js" where
  "demo_leaf field op v =
     Obj [(''kind'', Str ''leaf''), (''field'', Str field), (''op'', Str op), (''value'', v)]"

definition demo_rule :: js where
  "demo_rule = Obj
     [(''predicate'', Obj [(''kind'', Str ''and''),
         (''predicates'', Arr [demo_leaf ''tx.amount'' ''gt'' (Num (Fin 100)),
                               demo_leaf ''tx.kind'' ''matches'' (Str ''pix'')])]),
      (''effect'', Obj [(''action'', Str ''block'')])]"

definition demo_context :: "js \<Rightarrow> js" where
  "demo_context kind = Obj [(''tx'', Obj [(''amount'', Num (Fin 250)), (''kind'', kind)])]"

lemma demo_matched:
  "pd_outcome (fst (evaluate demo_engine demo_rule (demo_context (Str ''pix'')) resetRegexCache)) = Matched"
  by code_simp

text \<open>
  C29. The decision does not depend on what the cache of patterns holds, and the cache stays a
  bounded table of true verdicts: the evaluator is deterministic although the cache is global and evicts.
\<close>

theorem policy_cache_transparent:
  assumes "cache_ok E c" and "cache_ok E c'"
  shows "fst (evaluate E body ctx c) = fst (evaluate E body ctx c')
    \<and> cache_ok E (snd (evaluate E body ctx c))"
proof -
  let ?run = "\<lambda>c. evalPredicate E ctx 0 (js_get ''predicate'' body) ''$.predicate'' (initial_state c)"
  have "twins E (initial_state c) (initial_state c')"
    using assms by (simp add: twins_def strip_def initial_state_def)
  from twins_evalPredicate [OF this]
  have eq: "fst (?run c) = fst (?run c')" "strip (snd (?run c)) = strip (snd (?run c'))"
    by (simp_all add: observe_def)
  have seen: "es_errors st = es_errors st' \<and> es_diagnostics st = es_diagnostics st'" if "strip st = strip st'"
    for st st'
    using arg_cong [OF that, of es_errors] arg_cong [OF that, of es_diagnostics] by (simp add: strip_def)
  have "fst (evaluate E body ctx c) = fst (evaluate E body ctx c')"
    using eq(1) seen [OF eq(2)]
    by (auto simp: evaluate_def Let_def inert_def decision_def case_prod_unfold initial_state_def state_simps)
  moreover have "cache_ok E (es_cache (snd (?run c)))"
    using ev_cache.evalPredicate_R [of E "initial_state c"] assms(1) by (simp add: initial_state_def)
  then have "cache_ok E (snd (evaluate E body ctx c))"
    using assms(1)
    by (auto simp: evaluate_def Let_def inert_def case_prod_unfold push_error_def initial_state_def)
  ultimately show ?thesis by blast
qed

theorem policy_cache_transparent_witness:
  "fst (evaluate demo_engine demo_rule (demo_context (Str ''pix'')) resetRegexCache)
     = fst (evaluate demo_engine demo_rule (demo_context (Str ''pix''))
              (snd (compileSafeRegex demo_engine ''boleto'' resetRegexCache)))"
  using policy_cache_transparent [OF resetRegexCache_ok rc.compile_ok [OF resetRegexCache_ok]] by blast

text \<open>
  C30. The work on any body, however corrupted, is bounded: at most 2112 nodes are entered, at most 1024 of them
  look a field up, no more errors are recorded than nodes entered, and no node lies deeper than 17.
\<close>

theorem evaluation_bounded:
  fixes E ctx pred path c
  defines "st \<equiv> snd (evalPredicate E ctx 0 pred path (initial_state c))"
  shows "es_nodeCount st \<le> 2112 \<and> field_lookups (es_diagnostics st) \<le> 1024
    \<and> length (es_errors st) \<le> es_nodeCount st \<and> predicate_depth_visited (es_diagnostics st) \<le> 17"
proof -
  have "work 0 (initial_state c) st"
    unfolding st_def by (rule work_evalPredicate) simp
  then show ?thesis
    by (simp add: work_def frugal_def initial_state_def node_budget_def MAX_TOTAL_PREDICATE_NODES_def
        MAX_BRANCH_FANOUT_def MAX_PREDICATE_DEPTH_def)
qed

fun outcome_of :: "kleene \<Rightarrow> policy_outcome" where
  "outcome_of KTrue = Matched"
| "outcome_of KUnknown = Not_Applicable"
| "outcome_of KFalse = Not_Matched"

lemma outcome_truth:
  assumes "pd_outcome (fst (evaluate E body ctx c)) \<noteq> Evaluation_Error"
  shows "pd_outcome (fst (evaluate E body ctx c)) = outcome_of (truth E ctx (js_get ''predicate'' body))"
proof (cases rule: evaluate_cases [of E body ctx c])
  case (decided r st1)
  then have "truth E ctx (js_get ''predicate'' body) = kleene_of r"
    using evalPredicate_truth [of E ctx 0 "js_get ''predicate'' body" "''$.predicate''" "initial_state c"] by simp
  with decided assms show ?thesis by (cases r) (auto split: if_splits)
qed (use assms in \<open>simp_all add: inert_def\<close>)

text \<open>
  C27. Without an evaluation error the outcome is the truth of the predicate in three-valued
  logic, where conjunction is the minimum and disjunction the maximum of false < unknown < true.
\<close>

theorem policy_refines_kleene:
  assumes "pd_outcome (fst (evaluate E body ctx c)) \<noteq> Evaluation_Error"
  shows "pd_outcome (fst (evaluate E body ctx c)) = outcome_of (truth E ctx (js_get ''predicate'' body))"
  by (rule outcome_truth [OF assms])

theorem policy_refines_kleene_witness:
  "outcome_of (truth demo_engine (demo_context (Str ''pix'')) (js_get ''predicate'' demo_rule)) = Matched"
  by (subst policy_refines_kleene [where c = resetRegexCache, symmetric]) (simp_all add: demo_matched)

text \<open>
  C26. Enforcement fails closed: any recorded error blocks with its codes, and permission is
  given only when the predicate is true of the context, without error, under an effect that says allow.
\<close>

theorem enforcement_fail_closed:
  fixes E body ctx c
  defines "d \<equiv> fst (evaluate E body ctx c)"
  shows "(if pd_errors d \<noteq> [] then enforce d = Enf_Block_Error (map ee_code (pd_errors d))
          else \<forall>codes. enforce d \<noteq> Enf_Block_Error codes)
    \<and> {eff. enforce d = Enf_Allow eff} \<subseteq> {eff. eff = js_get ''effect'' body \<and> pd_errors d = []
          \<and> js_get ''action'' eff = Str ''allow'' \<and> truth E ctx (js_get ''predicate'' body) = KTrue}"
proof (cases rule: evaluate_cases [of E body ctx c])
  case (malformed code path)
  then show ?thesis by (simp add: d_def inert_def enforce_def push_error_def)
next
  case (error r st1)
  then show ?thesis by (simp add: d_def enforce_def)
next
  case (decided r st1)
  have t: "truth E ctx (js_get ''predicate'' body) = kleene_of r"
    using decided evalPredicate_truth [of E ctx 0 "js_get ''predicate'' body" "''$.predicate''" "initial_state c"]
    by simp
  have "is_object eff \<and> (\<exists>a \<in> set ALLOWED_EFFECT_ACTIONS. js_get ''action'' eff = Str a)"
    if "effect_valid eff" for eff
    using that by (auto simp: effect_valid_def the_string_def split: option.splits js.splits)
  with decided t show ?thesis
    by (cases r) (auto simp: d_def enforce_def Let_def push_error_def ALLOWED_EFFECT_ACTIONS_def)
qed

section \<open>More context never turns a decision\<close>

function leaf_fields :: "js \<Rightarrow> string list" where
  "leaf_fields pred =
     (case js_get ''field'' pred of Str f \<Rightarrow> [f] | _ \<Rightarrow> [])
     @ (case the_array (js_get ''predicates'' pred) of Some ps \<Rightarrow> concat (map leaf_fields ps) | None \<Rightarrow> [])
     @ (let inner = js_get ''predicate'' pred in if inner = Undef then [] else leaf_fields inner)"
  by pat_completeness auto
termination
  by (relation "measure size") (auto intro: size_child size_js_get)

declare leaf_fields.simps [simp del]

text \<open>The second context has, at the fields the predicate asks for, all the first one has.\<close>

definition extends :: "js \<Rightarrow> js \<Rightarrow> js \<Rightarrow> bool" where
  "extends pred ctx ctx' \<longleftrightarrow>
     list_all (\<lambda>f. resolveFieldPath ctx f = Undef \<or> resolveFieldPath ctx' f = resolveFieldPath ctx f)
       (leaf_fields pred)"

lemma leaf_truth_extends:
  "extends leaf ctx ctx' \<Longrightarrow> leaf_truth E ctx leaf = KUnknown \<or> leaf_truth E ctx' leaf = leaf_truth E ctx leaf"
  by (auto simp: extends_def leaf_truth_def leaf_fields.simps [of leaf] Let_def split: js.splits option.splits)

lemma extends_children:
  "extends pred ctx ctx' \<Longrightarrow> the_array (js_get ''predicates'' pred) = Some ps \<Longrightarrow> p \<in> set ps \<Longrightarrow> extends p ctx ctx'"
  "extends pred ctx ctx' \<Longrightarrow> js_get ''predicate'' pred = q \<Longrightarrow> q \<noteq> Undef \<Longrightarrow> extends q ctx ctx'"
  unfolding extends_def by (auto simp: leaf_fields.simps [of pred] list_all_iff Let_def)

lemma info_all:
  assumes "\<And>p. p \<in> set ps \<Longrightarrow> f p = KUnknown \<or> g p = f p"
  shows "k_all (map f ps) = KUnknown \<or> k_all (map g ps) = k_all (map f ps)"
    and "k_any (map f ps) = KUnknown \<or> k_any (map g ps) = k_any (map f ps)"
proof -
  have keep: "x \<in> g ` set ps" if "x \<in> f ` set ps" "x \<noteq> KUnknown" for x
  proof -
    from that(1) obtain p where "p \<in> set ps" "x = f p" by blast
    with assms [of p] that(2) show ?thesis by (metis imageI)
  qed
  have same: "g ` set ps = f ` set ps" if "KUnknown \<notin> f ` set ps"
  proof (rule image_cong [OF refl])
    fix p assume p: "p \<in> set ps"
    then have "f p \<noteq> KUnknown" using that by (metis imageI)
    then show "g p = f p" using assms [OF p] by blast
  qed
  show "k_all (map f ps) = KUnknown \<or> k_all (map g ps) = k_all (map f ps)"
    using keep [of KFalse] same unfolding k_all_eq set_map by auto
  show "k_any (map f ps) = KUnknown \<or> k_any (map g ps) = k_any (map f ps)"
    using keep [of KTrue] same unfolding k_any_eq set_map by auto
qed

lemma truth_extends:
  "extends pred ctx ctx' \<Longrightarrow> truth E ctx pred = KUnknown \<or> truth E ctx' pred = truth E ctx pred"
proof (induction E ctx pred rule: truth.induct)
  case (1 E ctx pred)
  let ?kind = "js_get ''kind'' pred"
  have children: "truth E ctx p = KUnknown \<or> truth E ctx' p = truth E ctx p"
    if "?kind = Str ''and'' \<or> ?kind = Str ''or''" "the_array (js_get ''predicates'' pred) = Some ps" "p \<in> set ps"
    for ps p
  proof -
    have ext: "extends p ctx ctx'" by (rule extends_children(1) [OF 1(4) that(2,3)])
    show ?thesis
      using that(1) 1(1) [OF refl _ _ that(2,3) ext] 1(2) [OF refl _ _ _ that(2,3) ext] by fastforce
  qed
  have inner: "truth E ctx q = KUnknown \<or> truth E ctx' q = truth E ctx q"
    if "?kind = Str ''not''" "js_get ''predicate'' pred = q" "q \<noteq> Undef" for q
    using that 1(3) extends_children(2) [OF 1(4) that(2,3)] by auto
  consider (leaf) "?kind = Str ''leaf''" | (conj) "?kind = Str ''and''" | (disj) "?kind = Str ''or''"
    | (neg) "?kind = Str ''not''"
    | (other) "?kind \<notin> {Str ''leaf'', Str ''and'', Str ''or'', Str ''not''}" by auto
  then show ?case
  proof cases
    case leaf
    with leaf_truth_extends [OF 1(4)] show ?thesis by (simp add: truth.simps [of E _ pred])
  next
    case conj
    then have "the_array (js_get ''predicates'' pred) = Some ps \<Longrightarrow> p \<in> set ps \<Longrightarrow>
        truth E ctx p = KUnknown \<or> truth E ctx' p = truth E ctx p" for ps p
      using children by blast
    then show ?thesis using info_all(1) [of _ "truth E ctx" "truth E ctx'"] conj
      by (simp add: truth.simps [of E _ pred] split: option.split)
  next
    case disj
    then have "the_array (js_get ''predicates'' pred) = Some ps \<Longrightarrow> p \<in> set ps \<Longrightarrow>
        truth E ctx p = KUnknown \<or> truth E ctx' p = truth E ctx p" for ps p
      using children by blast
    then show ?thesis using info_all(2) [of _ "truth E ctx" "truth E ctx'"] disj
      by (simp add: truth.simps [of E _ pred] split: option.split)
  next
    case neg
    with inner [OF neg refl] show ?thesis
      by (auto simp: truth.simps [of E _ pred] Let_def)
  next
    case other
    then show ?thesis by (simp add: truth.simps [of E _ pred] Let_def)
  qed
qed

text \<open>
  Supplying fields that were absent never turns a decision: when a rule matched or did not match,
  it gives the same outcome in every context that has at least the fields it read, or an evaluation error,
  which blocks. Absence can only make a rule undecided.
\<close>

lemma policy_more_context:
  assumes "extends (js_get ''predicate'' body) ctx ctx'"
    and "pd_outcome (fst (evaluate E body ctx c)) \<in> {Matched, Not_Matched}"
  shows "pd_outcome (fst (evaluate E body ctx' c')) \<in> {pd_outcome (fst (evaluate E body ctx c)), Evaluation_Error}"
proof (cases "pd_outcome (fst (evaluate E body ctx' c')) = Evaluation_Error")
  case False
  have "pd_outcome (fst (evaluate E body ctx c)) \<noteq> Evaluation_Error" using assms(2) by auto
  from outcome_truth [OF this] outcome_truth [OF False] truth_extends [OF assms(1), of E] assms(2)
  show ?thesis by (auto split: if_splits)
qed simp

lemma policy_more_context_witness:
  "pd_outcome (fst (evaluate demo_engine demo_rule (demo_context (Str ''pix'')) resetRegexCache)) = Matched
     \<and> pd_outcome (fst (evaluate demo_engine demo_rule
         (Obj [(''user'', Null), (''tx'', Obj [(''amount'', Num (Fin 250)), (''kind'', Str ''pix''), (''to'', Null)])])
         resetRegexCache)) \<in> {Matched, Evaluation_Error}"
proof -
  have "extends (js_get ''predicate'' demo_rule) (demo_context (Str ''pix''))
     (Obj [(''user'', Null), (''tx'', Obj [(''amount'', Num (Fin 250)), (''kind'', Str ''pix''), (''to'', Null)])])"
    by code_simp
  from policy_more_context [OF this, of demo_engine resetRegexCache resetRegexCache] show ?thesis
    by (simp add: demo_matched)
qed

section \<open>Two places where the documentation says otherwise\<close>

text \<open>An empty segment is not unresolvable on an array: \<open>Number('')\<close> is 0.\<close>

lemma empty_segment_is_first_element:
  "resolveFieldPath (Obj [(''items'', Arr [Str x, Str y])]) ''items.'' = Str x"
proof -
  have "js_Number [] = Fin 0" by code_simp
  then show ?thesis
    by (simp add: resolveFieldPath_def splitFieldPath_def MAX_FIELD_PATH_DEPTH_def FORBIDDEN_KEYS_def
        array_index_def own_def Let_def)
qed

text \<open>A literal longer than \<open>MAX_LITERAL_STRING\<close> is compared at run time like any other.\<close>

lemma long_literal_evaluates:
  "applyOperator E ''eq'' (Str s) (Str s) path st = (Tri_True, st)"
  by (simp add: applyOperator_def ALLOWED_OPERATORS_def deepEqual.simps tri_of_def)

end
