(* ===== verification/Policy_Validator.thy ===== *)
theory Policy_Validator
  imports Policy_Rules
begin

text \<open>
  The validator of rule bodies at proposal time (src/governance/policy-dsl/validator.ts), and what it buys at
  run time: an accepted body never fails for its structure.
\<close>

section \<open>State and errors\<close>

datatype validation_code = Missing_Predicate | Missing_Effect | Missing_Effect_Action
  | Unknown_Effect_Action | Missing_Predicate_Kind | Unknown_Predicate_Kind | Missing_Leaf_Field
  | Missing_Leaf_Op | Unknown_Leaf_Op | Missing_Leaf_Value | In_Value_Not_Array | Predicate_Too_Deep
  | VRegex_Pattern_Invalid | VRegex_Pattern_Unsafe | VLiteral_Too_Large | Unknown_Field_Path

record validation_error =
  ve_code :: validation_code
  ve_path :: string

record validation_state =
  vs_errors :: "validation_error list"
  vs_nodeCount :: nat
  vs_allowed :: "string list option"
  vs_exceeded :: bool
  vs_cache :: regex_cache

definition v_push :: "validation_code \<Rightarrow> string \<Rightarrow> validation_state \<Rightarrow> validation_state" where
  "v_push code path st = st\<lparr>vs_errors := vs_errors st @ [\<lparr>ve_code = code, ve_path = path\<rparr>]\<rparr>"

definition v_push_if :: "bool \<Rightarrow> validation_code \<Rightarrow> string \<Rightarrow> validation_state \<Rightarrow> validation_state" where
  "v_push_if b code path st = (if b then v_push code path st else st)"

definition ALLOWED_PREDICATE_KINDS :: "string list" where
  "ALLOWED_PREDICATE_KINDS = [''leaf'', ''and'', ''or'', ''not'']"

section \<open>Leaves\<close>

text \<open>The field: present, not too deep, without empty segment, and in the list of allowed paths if there is one.\<close>

definition validate_field :: "js \<Rightarrow> string \<Rightarrow> validation_state \<Rightarrow> validation_state" where
  "validate_field field path st =
     (case the_string field of
        None \<Rightarrow> v_push Missing_Leaf_Field (path @ ''.field'') st
      | Some f \<Rightarrow>
          if length f = 0 then v_push Missing_Leaf_Field (path @ ''.field'') st
          else if isFieldPathTooDeep f then v_push Missing_Leaf_Field (path @ ''.field'') st
          else if list_ex (\<lambda>seg. length seg = 0) (splitFieldPath f)
            then v_push Missing_Leaf_Field (path @ ''.field'') st
          else case vs_allowed st of
                 Some allowed \<Rightarrow> v_push_if (f \<notin> set allowed) Unknown_Field_Path (path @ ''.field'') st
               | None \<Rightarrow> st)"

definition validate_op :: "js \<Rightarrow> string \<Rightarrow> validation_state \<Rightarrow> policy_operator option \<times> validation_state" where
  "validate_op op path st =
     (case the_string op of
        None \<Rightarrow> (None, v_push Missing_Leaf_Op (path @ ''.op'') st)
      | Some name \<Rightarrow>
          (case map_of ALLOWED_OPERATORS name of
             None \<Rightarrow> (None, v_push Unknown_Leaf_Op (path @ ''.op'') st)
           | Some known \<Rightarrow> (Some known, st)))"

definition validate_pattern ::
  "regex_engine \<Rightarrow> js \<Rightarrow> string \<Rightarrow> validation_state \<Rightarrow> validation_state" where
  "validate_pattern E v path st =
     (case the_string v of
        None \<Rightarrow> v_push VRegex_Pattern_Invalid (path @ ''.value'') st
      | Some pattern \<Rightarrow>
          if MAX_REGEX_PATTERN < length pattern then v_push VLiteral_Too_Large (path @ ''.value'') st
          else
            let (ok, c) = compileSafeRegex E pattern (vs_cache st); st1 = st\<lparr>vs_cache := c\<rparr>
            in if ok then st1
               else v_push (if isPatternMarkedInvalid pattern c then VRegex_Pattern_Invalid
                            else if isPatternMarkedUnsafe pattern c then VRegex_Pattern_Unsafe
                            else VRegex_Pattern_Invalid) (path @ ''.value'') st1)"

definition validate_value ::
  "regex_engine \<Rightarrow> policy_operator \<Rightarrow> js \<Rightarrow> string \<Rightarrow> validation_state \<Rightarrow> validation_state" where
  "validate_value E op v path st =
     (let is_in = (op = Op_In \<or> op = Op_Not_In);
          st1 = v_push_if (is_in \<and> the_array v = None) In_Value_Not_Array (path @ ''.value'') st;
          st2 = v_push_if (is_in \<and> (case the_array v of Some xs \<Rightarrow> MAX_LITERAL_ARRAY < length xs | None \<Rightarrow> False))
                  VLiteral_Too_Large (path @ ''.value'') st1;
          st3 = v_push_if (op \<noteq> Op_Matches
                    \<and> (case the_string v of Some s \<Rightarrow> MAX_LITERAL_STRING < length s | None \<Rightarrow> False))
                  VLiteral_Too_Large (path @ ''.value'') st2
      in if op = Op_Matches then validate_pattern E v path st3 else st3)"

definition validateLeaf :: "regex_engine \<Rightarrow> js \<Rightarrow> string \<Rightarrow> validation_state \<Rightarrow> validation_state" where
  "validateLeaf E leaf path st =
     (let st1 = validate_field (js_get ''field'' leaf) path st;
          (op, st2) = validate_op (js_get ''op'' leaf) path st1;
          v = js_get ''value'' leaf
      in if v = Undef then v_push Missing_Leaf_Value (path @ ''.value'') st2
         else case op of None \<Rightarrow> st2 | Some known \<Rightarrow> validate_value E known v path st2)"

section \<open>The tree\<close>

type_synonym child_validator = "js \<Rightarrow> string \<Rightarrow> validation_state \<Rightarrow> validation_state"

fun validate_children ::
  "child_validator \<Rightarrow> string \<Rightarrow> nat \<Rightarrow> js list \<Rightarrow> validation_state \<Rightarrow> validation_state" where
  "validate_children vf base i [] st = st"
| "validate_children vf base i (child # rest) st =
     (let path = base @ ''['' @ decimal i @ '']'';
          st1 = (if \<not> is_object child then v_push Missing_Predicate_Kind path st else vf child path st)
      in validate_children vf base (Suc i) rest st1)"

definition validate_branch ::
  "child_validator \<Rightarrow> string \<Rightarrow> js \<Rightarrow> string \<Rightarrow> validation_state \<Rightarrow> validation_state" where
  "validate_branch vf kind preds path st =
     (case the_array preds of
        None \<Rightarrow> v_push Missing_Predicate_Kind (path @ ''.predicates'') st
      | Some ps \<Rightarrow>
          if MAX_BRANCH_FANOUT < length ps then v_push Predicate_Too_Deep (path @ ''.predicates'') st
          else validate_children vf (path @ ''.'' @ kind) 0 ps st)"

function validatePredicate ::
  "regex_engine \<Rightarrow> nat \<Rightarrow> js \<Rightarrow> string \<Rightarrow> validation_state \<Rightarrow> validation_state" where
  "validatePredicate E depth pred path st =
     (if \<not> is_object pred then v_push Missing_Predicate_Kind path st
      else if MAX_PREDICATE_DEPTH < depth then v_push Predicate_Too_Deep path st
      else
        let st1 = st\<lparr>vs_nodeCount := vs_nodeCount st + 1\<rparr>
        in if MAX_TOTAL_PREDICATE_NODES < vs_nodeCount st1 then
             (if \<not> vs_exceeded st1 then v_push Predicate_Too_Deep path (st1\<lparr>vs_exceeded := True\<rparr>) else st1)
           else
             case the_string (js_get ''kind'' pred) of
               None \<Rightarrow> v_push Missing_Predicate_Kind (path @ ''.kind'') st1
             | Some kind \<Rightarrow>
                 if kind \<notin> set ALLOWED_PREDICATE_KINDS then v_push Unknown_Predicate_Kind (path @ ''.kind'') st1
                 else
                   let vf = (\<lambda>child cpath cst. validatePredicate E (Suc depth) child cpath cst)
                   in if kind = ''leaf'' then validateLeaf E pred path st1
                      else if kind = ''and'' \<or> kind = ''or''
                        then validate_branch vf kind (js_get ''predicates'' pred) path st1
                      else if \<not> is_object (js_get ''predicate'' pred)
                        then v_push Missing_Predicate_Kind (path @ ''.predicate'') st1
                      else vf (js_get ''predicate'' pred) (path @ ''.not'') st1)"
  by pat_completeness auto
termination
  by (relation "measure (\<lambda>(E, depth, pred, path, st). Suc MAX_PREDICATE_DEPTH - depth)") auto

declare validatePredicate.simps [simp del]

definition validateEffect :: "js \<Rightarrow> string \<Rightarrow> validation_state \<Rightarrow> validation_state" where
  "validateEffect effect path st =
     (if \<not> is_object effect then v_push Missing_Effect path st
      else case the_string (js_get ''action'' effect) of
             None \<Rightarrow> v_push Missing_Effect_Action (path @ ''.action'') st
           | Some action \<Rightarrow>
               v_push_if (action \<notin> set ALLOWED_EFFECT_ACTIONS) Unknown_Effect_Action (path @ ''.action'') st)"

text \<open>The result is the list of errors, empty for \<open>ok: true\<close>.\<close>

definition validatePolicyRuleBody ::
  "regex_engine \<Rightarrow> js \<Rightarrow> string list option \<Rightarrow> regex_cache \<Rightarrow> validation_error list \<times> regex_cache" where
  "validatePolicyRuleBody E body allowed c =
     (let st = \<lparr>vs_errors = [], vs_nodeCount = 0, vs_allowed = allowed, vs_exceeded = False, vs_cache = c\<rparr>
      in if \<not> is_object body then
           (let st1 = v_push Missing_Predicate ''$'' st in (vs_errors st1, vs_cache st1))
         else
           let p = js_get ''predicate'' body; eff = js_get ''effect'' body;
               st1 = (if \<not> is_object p then v_push Missing_Predicate ''$.predicate'' st
                      else validatePredicate E 0 p ''$.predicate'' st);
               st2 = (if \<not> is_object eff then v_push Missing_Effect ''$.effect'' st1
                      else validateEffect eff ''$.effect'' st1)
           in (vs_errors st2, vs_cache st2))"

section \<open>The validator only appends errors\<close>

definition v_grows :: "regex_engine \<Rightarrow> validation_state \<Rightarrow> validation_state \<Rightarrow> bool" where
  "v_grows E st st1 \<longleftrightarrow> (\<exists>es. vs_errors st1 = vs_errors st @ es)
     \<and> (cache_ok E (vs_cache st) \<longrightarrow> cache_ok E (vs_cache st1))"

lemma v_grows_refl [simp]: "v_grows E st st"
  by (simp add: v_grows_def)

lemma v_grows_trans: "v_grows E st st1 \<Longrightarrow> v_grows E st1 st2 \<Longrightarrow> v_grows E st st2"
  by (auto simp: v_grows_def)

lemma v_grows_push [simp]: "v_grows E st (v_push code path st)"
  by (simp add: v_grows_def v_push_def)

lemma v_grows_then_push [simp]: "v_grows E st st1 \<Longrightarrow> v_grows E st (v_push code path st1)"
  by (rule v_grows_trans [OF _ v_grows_push])

lemma v_grows_push_if [simp]: "v_grows E st (v_push_if b code path st)"
  by (simp add: v_push_if_def)

lemma v_grows_field [simp]: "v_grows E st (validate_field f path st)"
  by (simp add: validate_field_def split: option.split)

lemma v_grows_op [simp]: "v_grows E st (snd (validate_op op path st))"
  by (simp add: validate_op_def split: option.split)

lemma v_grows_pattern [simp]: "v_grows E st (validate_pattern E v path st)"
proof -
  have "v_grows E st (st\<lparr>vs_cache := snd (compileSafeRegex E p (vs_cache st))\<rparr>)" for p
    by (simp add: v_grows_def rc.compile_ok)
  then show ?thesis
    by (auto simp: validate_pattern_def Let_def case_prod_unfold split: option.split)
qed

lemma v_grows_value [simp]: "v_grows E st (validate_value E op v path st)"
proof -
  have trans: "v_grows E st (v_push_if b3 c3 p3 (v_push_if b2 c2 p2 (v_push_if b1 c1 p1 st)))"
    for b1 b2 b3 c1 c2 c3 p1 p2 p3
    by (rule v_grows_trans [OF v_grows_push_if v_grows_trans [OF v_grows_push_if v_grows_push_if]])
  show ?thesis
    using v_grows_trans [OF trans v_grows_pattern] trans by (simp add: validate_value_def Let_def)
qed

lemma v_grows_leaf [simp]: "v_grows E st (validateLeaf E leaf path st)"
proof -
  let ?st2 = "snd (validate_op (js_get ''op'' leaf) path (validate_field (js_get ''field'' leaf) path st))"
  have "v_grows E st ?st2" by (rule v_grows_trans [OF v_grows_field v_grows_op])
  then show ?thesis
    by (auto simp: validateLeaf_def Let_def case_prod_unfold intro: v_grows_trans split: option.split)
qed

lemma v_grows_children:
  assumes "\<And>child cpath cst. v_grows E cst (vf child cpath cst)"
  shows "v_grows E st (validate_children vf base i ps st)"
proof (induction ps arbitrary: i st)
  case (Cons child rest)
  show ?case unfolding validate_children.simps Let_def
    by (rule v_grows_trans [OF _ Cons]) (simp add: assms)
qed simp

lemma v_grows_branch:
  "(\<And>child cpath cst. v_grows E cst (vf child cpath cst)) \<Longrightarrow> v_grows E st (validate_branch vf kind v path st)"
  by (auto simp: validate_branch_def intro: v_grows_children split: option.split)

lemma v_grows_count: "v_grows E (st\<lparr>vs_nodeCount := n\<rparr>) st1 = v_grows E st st1"
  by (simp add: v_grows_def)

lemma if_prop: "P a \<Longrightarrow> P b \<Longrightarrow> P (if c then a else b)"
  by simp

lemma v_grows_predicate: "v_grows E st (validatePredicate E depth pred path st)"
proof (induction depth pred path st rule: depth_induct)
  case (deeper depth pred path st)
  let ?st1 = "st\<lparr>vs_nodeCount := vs_nodeCount st + 1\<rparr>"
  let ?vf = "validatePredicate E (Suc depth)"
  have enter: "v_grows E ?st1 st1 \<Longrightarrow> v_grows E st st1" for st1 by (simp only: v_grows_count)
  have push: "v_grows E st (v_push c p ?st1)" "v_grows E st (v_push c p (?st1\<lparr>vs_exceeded := b\<rparr>))"
    "v_grows E st ?st1" for c p b
    by (simp_all add: v_grows_def v_push_def)
  show ?case
  proof (cases "MAX_PREDICATE_DEPTH < depth")
    case False
    then have vf: "v_grows E cst (?vf child cpath cst)" for child cpath cst using deeper by simp
    have steps: "v_grows E st (validateLeaf E pred path ?st1)"
      "v_grows E st (validate_branch ?vf kind v path ?st1)" "v_grows E st (?vf child cpath ?st1)"
      for kind v child cpath
      by (rule enter, rule v_grows_leaf, rule enter [OF v_grows_branch [OF vf]], rule enter [OF vf])
    have push_kind: "v_grows E st (case the_string (js_get ''kind'' pred) of
        None \<Rightarrow> v_push c p ?st1 | Some kind \<Rightarrow> f kind)"
      if "\<And>kind. v_grows E st (f kind)" for c p f
      using that push by (simp split: option.split)
    show ?thesis
      unfolding validatePredicate.simps [of E depth pred path st] Let_def if_not_P [OF False]
      apply (rule if_prop [where P = "v_grows E st"], rule v_grows_push)
      apply (rule if_prop [where P = "v_grows E st"])
       apply (rule if_prop [where P = "v_grows E st"], rule push, rule push)
      apply (rule push_kind)
      apply (rule if_prop [where P = "v_grows E st"], rule push)
      apply (rule if_prop [where P = "v_grows E st"], rule steps)
      apply (rule if_prop [where P = "v_grows E st"], rule steps)
      apply (rule if_prop [where P = "v_grows E st"], rule push, rule steps)
      done
  next
    case True
    show ?thesis
      unfolding validatePredicate.simps [of E depth pred path st] if_P [OF True]
      by (rule if_prop [where P = "v_grows E st"], rule v_grows_push, rule v_grows_push)
  qed
qed

lemma v_clean_split:
  assumes "v_grows E st st1" and "v_grows E st1 st2" and "vs_errors st2 = vs_errors st"
  shows "vs_errors st1 = vs_errors st" and "vs_errors st2 = vs_errors st1"
proof -
  from assms(1,2) obtain a b where ab: "vs_errors st1 = vs_errors st @ a" "vs_errors st2 = vs_errors st1 @ b"
    unfolding v_grows_def by blast
  with assms(3) have "a @ b = []" by (metis append.assoc append_self_conv)
  with ab show "vs_errors st1 = vs_errors st" "vs_errors st2 = vs_errors st1" by simp_all
qed

section \<open>Accepted bodies do not fail for their structure\<close>

text \<open>What may still go wrong depends on the context: a missing number, a too long input, an engine that throws.\<close>

definition runtime_codes :: "eval_code list" where
  "runtime_codes = [Missing_Field, Regex_Input_Too_Long, Regex_Evaluation_Failed]"

definition mild :: "eval_state \<Rightarrow> eval_state \<Rightarrow> bool" where
  "mild st st1 \<longleftrightarrow>
     (\<exists>es. es_errors st1 = es_errors st @ es \<and> list_all (\<lambda>e. ee_code e \<in> set runtime_codes) es)"

lemma mild_refl [simp]: "mild st st"
  by (simp add: mild_def)

lemma mild_trans: "mild st st1 \<Longrightarrow> mild st1 st2 \<Longrightarrow> mild st st2"
  by (fastforce simp: mild_def)

lemma mild_same: "es_errors st1 = es_errors st \<Longrightarrow> mild st st1"
  by (simp add: mild_def)

lemma mild_push: "code \<in> set runtime_codes \<Longrightarrow> mild st (push_error code path st)"
  by (simp add: mild_def push_error_def)

text \<open>What the validator establishes of a leaf it accepts.\<close>

definition good_value :: "regex_engine \<Rightarrow> policy_operator \<Rightarrow> js \<Rightarrow> bool" where
  "good_value E op v \<longleftrightarrow>
     (op \<in> {Op_In, Op_Not_In} \<longrightarrow> (\<exists>xs. v = Arr xs \<and> length xs \<le> MAX_LITERAL_ARRAY))
     \<and> (op = Op_Matches \<longrightarrow> (\<exists>p. v = Str p \<and> length p \<le> MAX_REGEX_PATTERN \<and> verdict E p = Compiled))"

definition good_leaf :: "regex_engine \<Rightarrow> js \<Rightarrow> bool" where
  "good_leaf E leaf \<longleftrightarrow> (\<exists>f name op. js_get ''field'' leaf = Str f \<and> \<not> isFieldPathTooDeep f
     \<and> js_get ''op'' leaf = Str name \<and> map_of ALLOWED_OPERATORS name = Some op
     \<and> good_value E op (js_get ''value'' leaf))"

lemma vs_errors_push [simp]:
  "vs_errors (v_push code path st) = vs_errors st @ [\<lparr>ve_code = code, ve_path = path\<rparr>]"
  "vs_cache (v_push code path st) = vs_cache st"
  "vs_errors (v_push_if b code path st) = vs_errors st \<longleftrightarrow> \<not> b"
  "vs_cache (v_push_if b code path st) = vs_cache st"
  by (simp_all add: v_push_def v_push_if_def)

lemma validate_pattern_good:
  assumes "cache_ok E (vs_cache st)" and "vs_errors (validate_pattern E v path st) = vs_errors st"
  shows "\<exists>p. v = Str p \<and> length p \<le> MAX_REGEX_PATTERN \<and> verdict E p = Compiled"
  using assms(2) rc.compile_result [OF assms(1)]
  by (auto simp: validate_pattern_def the_string_def Let_def case_prod_unfold split: js.splits if_splits)

lemma validate_value_good:
  assumes "cache_ok E (vs_cache st)" and "vs_errors (validate_value E op v path st) = vs_errors st"
  shows "good_value E op v"
proof -
  define st1 where "st1 = v_push_if ((op = Op_In \<or> op = Op_Not_In) \<and> the_array v = None) In_Value_Not_Array
    (path @ ''.value'') st"
  define st2 where "st2 = v_push_if ((op = Op_In \<or> op = Op_Not_In)
    \<and> (case the_array v of Some xs \<Rightarrow> MAX_LITERAL_ARRAY < length xs | None \<Rightarrow> False)) VLiteral_Too_Large (path @ ''.value'') st1"
  define st3 where "st3 = v_push_if (op \<noteq> Op_Matches
    \<and> (case the_string v of Some s \<Rightarrow> MAX_LITERAL_STRING < length s | None \<Rightarrow> False)) VLiteral_Too_Large (path @ ''.value'') st2"
  define st4 where "st4 = (if op = Op_Matches then validate_pattern E v path st3 else st3)"
  have eq: "vs_errors st4 = vs_errors st"
    using assms(2) unfolding validate_value_def Let_def st4_def st3_def st2_def st1_def by assumption
  have g: "v_grows E st st1" "v_grows E st1 st2" "v_grows E st2 st3" "v_grows E st3 st4"
    by (simp_all add: st1_def st2_def st3_def st4_def)
  have e3: "vs_errors st3 = vs_errors st" "vs_errors st4 = vs_errors st3"
    using v_clean_split [OF v_grows_trans [OF v_grows_trans [OF g(1,2)] g(3)] g(4) eq] by simp_all
  have e2: "vs_errors st2 = vs_errors st"
    using v_clean_split [OF v_grows_trans [OF g(1,2)] g(3) e3(1)] by simp
  have e1: "vs_errors st1 = vs_errors st" "vs_errors st2 = vs_errors st1"
    using v_clean_split [OF g(1,2) e2] by simp_all
  have "\<not> ((op = Op_In \<or> op = Op_Not_In) \<and> the_array v = None)"
    using e1(1) unfolding st1_def by simp
  moreover have "\<not> ((op = Op_In \<or> op = Op_Not_In)
      \<and> (case the_array v of Some xs \<Rightarrow> MAX_LITERAL_ARRAY < length xs | None \<Rightarrow> False))"
    using e1(2) unfolding st2_def by simp
  moreover have "\<exists>p. v = Str p \<and> length p \<le> MAX_REGEX_PATTERN \<and> verdict E p = Compiled"
    if "op = Op_Matches"
  proof (rule validate_pattern_good)
    show "cache_ok E (vs_cache st3)" using assms(1) by (simp add: st1_def st2_def st3_def)
    show "vs_errors (validate_pattern E v path st3) = vs_errors st3" using e3(2) that by (simp add: st4_def)
  qed
  ultimately show ?thesis
    by (auto simp: good_value_def the_array_def split: js.splits)
qed

lemma validateLeaf_good:
  assumes "cache_ok E (vs_cache st)" and "vs_errors (validateLeaf E leaf path st) = vs_errors st"
  shows "good_leaf E leaf"
proof -
  let ?f = "js_get ''field'' leaf" and ?v = "js_get ''value'' leaf"
  define st1 where "st1 = validate_field ?f path st"
  obtain op st2 where op: "validate_op (js_get ''op'' leaf) path st1 = (op, st2)" by fastforce
  have g: "v_grows E st st1" "v_grows E st1 st2"
    using v_grows_op [of E st1 "js_get ''op'' leaf" path] unfolding op by (simp_all add: st1_def)
  define st3 where "st3 = (if ?v = Undef then v_push Missing_Leaf_Value (path @ ''.value'') st2
      else case op of None \<Rightarrow> st2 | Some known \<Rightarrow> validate_value E known ?v path st2)"
  have eq: "vs_errors st3 = vs_errors st"
    using assms(2) unfolding validateLeaf_def Let_def st1_def [symmetric] op prod.case st3_def by assumption
  have g3: "v_grows E st2 st3" by (auto simp: st3_def split: option.split)
  have e: "vs_errors st2 = vs_errors st" "vs_errors st3 = vs_errors st2"
    using v_clean_split [OF v_grows_trans [OF g] g3 eq] by simp_all
  have e1: "vs_errors st1 = vs_errors st" "vs_errors st2 = vs_errors st1"
    using v_clean_split [OF g e(1)] by simp_all
  obtain f where f: "?f = Str f" "\<not> isFieldPathTooDeep f"
    using e1(1) by (auto simp: st1_def validate_field_def the_string_def split: js.splits if_splits)
  obtain name where str: "js_get ''op'' leaf = Str name"
    using e1(2) op by (auto simp: validate_op_def the_string_def split: js.splits)
  then obtain known where name: "js_get ''op'' leaf = Str name" "map_of ALLOWED_OPERATORS name = Some known"
    "op = Some known" "st2 = st1"
    using e1(2) op by (cases "map_of ALLOWED_OPERATORS name") (auto simp: validate_op_def the_string_def)
  have "cache_ok E (vs_cache st2)" using g assms(1) by (simp add: v_grows_def)
  moreover have "vs_errors (validate_value E known ?v path st2) = vs_errors st2"
    using e(2) name(3) by (simp add: st3_def split: if_splits)
  ultimately have "good_value E known ?v" by (rule validate_value_good)
  with f name show ?thesis by (auto simp: good_leaf_def)
qed

lemma mild_matchesOp:
  assumes "cache_ok E (es_cache st)" and "length p \<le> MAX_REGEX_PATTERN" and "verdict E p = Compiled"
  shows "mild st (snd (matchesOp E left (Str p) path st))"
proof -
  have seen: "mild st st1" if "strip st1 = strip st" for st1
    using arg_cong [OF that, of es_errors] by (intro mild_same) (simp add: strip_def)
  have seen': "mild st st1" if "strip st1 = push_error code q (strip st)" "code \<in> set runtime_codes" for st1 code q
    using arg_cong [OF that(1), of es_errors] that(2) by (simp add: strip_def push_error_def mild_def)
  have "snd (observe (matchesOp E left (Str p) path st)) = strip (snd (matchesOp E left (Str p) path st))"
    by (simp add: observe_def)
  moreover have "snd (observe (matchesOp E left (Str p) path st)) = strip st
      \<or> (\<exists>code q. snd (observe (matchesOp E left (Str p) path st)) = push_error code q (strip st)
           \<and> code \<in> set runtime_codes)"
    using assms(2,3)
    by (auto simp: observe_matchesOp [OF assms(1)] fail_with_def runtime_codes_def split: js.split option.split)
  ultimately show ?thesis using seen seen' by metis
qed

lemma mild_applyOperator:
  assumes "cache_ok E (es_cache st)" and "map_of ALLOWED_OPERATORS name = Some op" and "good_value E op right"
  shows "mild st (snd (applyOperator E name left right path st))"
  using assms(2,3) mild_matchesOp [OF assms(1)]
  by (cases op) (auto simp: applyOperator_def good_value_def membership_def the_array_def Let_def)

lemma mild_evalLeaf:
  assumes "cache_ok E (es_cache st)" and "good_leaf E leaf"
  shows "mild st (snd (evalLeaf E ctx leaf path st))"
proof -
  obtain f name op where leaf: "js_get ''field'' leaf = Str f" "\<not> isFieldPathTooDeep f"
    "js_get ''op'' leaf = Str name" "map_of ALLOWED_OPERATORS name = Some op"
    "good_value E op (js_get ''value'' leaf)"
    using assms(2) unfolding good_leaf_def by blast
  have c: "mild st (count_lookup st)" by (simp add: mild_same count_lookup_def)
  have "cache_ok E (es_cache (count_lookup st))" using assms(1) by (simp add: count_lookup_def)
  from mild_trans [OF c mild_applyOperator [OF this leaf(4,5)]]
    mild_trans [OF c mild_push [of Missing_Field _ "path @ ''.field''"]] c
  show ?thesis using leaf
    by (auto simp: evalLeaf_def the_string_def Let_def fail_with_def runtime_codes_def)
qed

text \<open>
  One evaluation against one accepting validation of the same node: both count the same nodes, and the
  evaluation adds no structural error.
\<close>

definition follows :: "regex_engine \<Rightarrow> validation_state \<Rightarrow> eval_state \<Rightarrow> bool" where
  "follows E vst st \<longleftrightarrow> cache_ok E (vs_cache vst) \<and> cache_ok E (es_cache st)
     \<and> vs_nodeCount vst = es_nodeCount st \<and> \<not> vs_exceeded vst"

definition accepted_run ::
  "regex_engine \<Rightarrow> child_validator \<Rightarrow> child_evaluator \<Rightarrow> bool" where
  "accepted_run E vf ev \<longleftrightarrow> (\<forall>child vpath path vst st.
     follows E vst st \<longrightarrow> vs_errors (vf child vpath vst) = vs_errors vst \<longrightarrow>
       follows E (vf child vpath vst) (snd (ev child path st)) \<and> mild st (snd (ev child path st)))"

lemma accepted_runD:
  "accepted_run E vf ev \<Longrightarrow> follows E vst st \<Longrightarrow> vs_errors (vf child vpath vst) = vs_errors vst \<Longrightarrow>
     follows E (vf child vpath vst) (snd (ev child path st)) \<and> mild st (snd (ev child path st))"
  unfolding accepted_run_def by blast

lemma accepted_scan:
  assumes "accepted_run E vf ev" and "\<And>child cpath cst. v_grows E cst (vf child cpath cst)"
    and "follows E vst st" and "vs_errors (validate_children vf vbase i ps vst) = vs_errors vst"
  shows "\<exists>rs st1. scan_children ev base j ps st = Inr (rs, st1)
    \<and> follows E (validate_children vf vbase i ps vst) st1 \<and> mild st st1"
  using assms(3,4)
proof (induction ps arbitrary: i j vst st)
  case Nil
  then show ?case by simp
next
  case (Cons child rest)
  let ?vpath = "vbase @ ''['' @ decimal i @ '']''" and ?path = "base @ ''['' @ decimal j @ '']''"
  define vst1 where "vst1 = (if \<not> is_object child then v_push Missing_Predicate_Kind ?vpath vst
    else vf child ?vpath vst)"
  have step: "validate_children vf vbase i (child # rest) vst = validate_children vf vbase (Suc i) rest vst1"
    unfolding validate_children.simps Let_def vst1_def by (rule refl)
  have e: "vs_errors vst1 = vs_errors vst"
    "vs_errors (validate_children vf vbase (Suc i) rest vst1) = vs_errors vst1"
    using v_clean_split [of E vst vst1 "validate_children vf vbase (Suc i) rest vst1"] Cons.prems(2)
      v_grows_children [where vf = vf, OF assms(2)] assms(2)
    unfolding step by (simp_all add: vst1_def)
  have obj: "is_object child" using e(1) by (auto simp: vst1_def split: if_splits)
  obtain r st1 where ev: "ev child ?path st = (r, st1)" by fastforce
  have run: "follows E vst1 st1" "mild st st1"
    using accepted_runD [OF assms(1) Cons.prems(1), of child ?vpath ?path] e(1) obj
    unfolding vst1_def ev by simp_all
  from Cons.IH [OF run(1) e(2), of "Suc j"] obtain rs st2 where
    rest: "scan_children ev base (Suc j) rest st1 = Inr (rs, st2)"
      "follows E (validate_children vf vbase (Suc i) rest vst1) st2" "mild st1 st2" by blast
  show ?case
    unfolding scan_children.simps Let_def ev prod.case step
    using rest obj mild_trans [OF run(2) rest(3)] by simp
qed

lemma accepted_branch:
  assumes "accepted_run E vf ev" and "\<And>child cpath cst. v_grows E cst (vf child cpath cst)"
    and "follows E vst st" and "vs_errors (validate_branch vf kind v vpath vst) = vs_errors vst"
  shows "follows E (validate_branch vf kind v vpath vst) (snd (evalAnd ev v path st))
      \<and> mild st (snd (evalAnd ev v path st))"
    and "follows E (validate_branch vf kind v vpath vst) (snd (evalOr ev v path st))
      \<and> mild st (snd (evalOr ev v path st))"
proof -
  obtain ps where ps: "the_array v = Some ps" "\<not> MAX_BRANCH_FANOUT < length ps"
    "validate_branch vf kind v vpath vst = validate_children vf (vpath @ ''.'' @ kind) 0 ps vst"
    using assms(4) by (auto simp: validate_branch_def split: option.splits if_splits)
  note scan = accepted_scan [where ev = ev and vf = vf and j = 0, OF assms(1,2,3) assms(4) [unfolded ps(3)]]
  show "follows E (validate_branch vf kind v vpath vst) (snd (evalAnd ev v path st))
      \<and> mild st (snd (evalAnd ev v path st))"
    using scan [of "path @ ''.and''"] ps by (auto simp: evalAnd_def)
  show "follows E (validate_branch vf kind v vpath vst) (snd (evalOr ev v path st))
      \<and> mild st (snd (evalOr ev v path st))"
    using scan [of "path @ ''.or''"] ps by (auto simp: evalOr_def)
qed

lemma follows_enter:
  "follows E vst st \<Longrightarrow> follows E (vst\<lparr>vs_nodeCount := vs_nodeCount vst + 1\<rparr>) (enter_node depth st)"
  by (simp add: follows_def enter_node_def)

lemma follows_leaf:
  assumes "follows E vst st" and "vs_errors (validateLeaf E leaf vpath vst) = vs_errors vst"
  shows "follows E (validateLeaf E leaf vpath vst) (snd (evalLeaf E ctx leaf path st))
    \<and> mild st (snd (evalLeaf E ctx leaf path st))"
proof -
  have ok: "cache_ok E (vs_cache vst)" "cache_ok E (es_cache st)" using assms(1) by (simp_all add: follows_def)
  have n: "es_nodeCount (snd (evalLeaf E ctx leaf path st)) = es_nodeCount st"
    using evalLeaf_quiet [of st E ctx leaf path] by (auto simp: quiet_def count_lookup_def)
  have v: "vs_nodeCount (v_push code p s) = vs_nodeCount s" "vs_exceeded (v_push code p s) = vs_exceeded s"
    "vs_nodeCount (v_push_if b code p s) = vs_nodeCount s" "vs_exceeded (v_push_if b code p s) = vs_exceeded s"
    for b code p s by (simp_all add: v_push_def v_push_if_def)
  have field: "vs_nodeCount (validate_field f p s) = vs_nodeCount s \<and> vs_exceeded (validate_field f p s) = vs_exceeded s"
    for f p s by (simp add: validate_field_def v split: option.split)
  have op: "vs_nodeCount (snd (validate_op f p s)) = vs_nodeCount s \<and> vs_exceeded (snd (validate_op f p s)) = vs_exceeded s"
    for f p s by (simp add: validate_op_def v split: option.split)
  have pattern: "vs_nodeCount (validate_pattern E w p s) = vs_nodeCount s \<and> vs_exceeded (validate_pattern E w p s) = vs_exceeded s"
    for w p s by (simp add: validate_pattern_def v Let_def case_prod_unfold split: option.split)
  have "vs_nodeCount (validate_value E known w p s) = vs_nodeCount s
      \<and> vs_exceeded (validate_value E known w p s) = vs_exceeded s" for known w p s
    by (simp add: validate_value_def v Let_def pattern)
  then have "vs_nodeCount (validateLeaf E leaf vpath vst) = vs_nodeCount vst
      \<and> vs_exceeded (validateLeaf E leaf vpath vst) = vs_exceeded vst"
    by (simp add: validateLeaf_def Let_def case_prod_unfold v field op split: option.split)
  moreover have "cache_ok E (vs_cache (validateLeaf E leaf vpath vst))"
    using v_grows_leaf [of E vst leaf vpath] ok(1) by (simp add: v_grows_def)
  moreover have "cache_ok E (es_cache (snd (evalLeaf E ctx leaf path st)))"
    using ev_cache.evalLeaf_R [of E st ctx leaf path] ok(2) by simp
  ultimately show ?thesis
    using assms(1) n mild_evalLeaf [OF ok(2) validateLeaf_good [OF ok(1) assms(2)]] by (simp add: follows_def)
qed

text \<open>What an accepting validation says of a node.\<close>

lemma validatePredicate_cases:
  assumes "vs_errors (validatePredicate E depth pred vpath vst) = vs_errors vst" and "\<not> vs_exceeded vst"
  defines "vst1 \<equiv> vst\<lparr>vs_nodeCount := vs_nodeCount vst + 1\<rparr>"
  obtains (leaf) "js_get ''kind'' pred = Str ''leaf''"
      "validatePredicate E depth pred vpath vst = validateLeaf E pred vpath vst1"
  | (branch) kind where "js_get ''kind'' pred = Str kind" "kind = ''and'' \<or> kind = ''or''"
      "validatePredicate E depth pred vpath vst =
         validate_branch (validatePredicate E (Suc depth)) kind (js_get ''predicates'' pred) vpath vst1"
  | (neg) "js_get ''kind'' pred = Str ''not''" "is_object (js_get ''predicate'' pred)"
      "validatePredicate E depth pred vpath vst =
         validatePredicate E (Suc depth) (js_get ''predicate'' pred) (vpath @ ''.not'') vst1"
proof -
  have guards: "is_object pred" "\<not> MAX_PREDICATE_DEPTH < depth" "\<not> MAX_TOTAL_PREDICATE_NODES < Suc (vs_nodeCount vst)"
    using assms(1,2) by (auto simp: validatePredicate.simps [of E depth pred vpath vst] Let_def split: if_splits)
  show thesis
  proof (cases "the_string (js_get ''kind'' pred)")
    case None
    then show thesis using assms(1) guards
      by (simp add: validatePredicate.simps [of E depth pred vpath vst] Let_def)
  next
    case (Some kind)
    then have k: "js_get ''kind'' pred = Str kind" by (auto simp: the_string_def split: js.splits)
    have "kind \<in> set ALLOWED_PREDICATE_KINDS" using assms(1) guards Some
      by (auto simp: validatePredicate.simps [of E depth pred vpath vst] Let_def split: if_splits)
    then consider "kind = ''leaf''" | "kind = ''and'' \<or> kind = ''or''" | "kind = ''not''"
      by (auto simp: ALLOWED_PREDICATE_KINDS_def)
    then show thesis
    proof cases
      case 1
      show thesis by (rule leaf)
        (use guards Some k 1 in \<open>simp_all add: validatePredicate.simps [of E depth pred vpath vst] Let_def
          ALLOWED_PREDICATE_KINDS_def vst1_def\<close>)
    next
      case 2
      show thesis by (rule branch [OF k 2])
        (use guards Some 2 in \<open>auto simp: validatePredicate.simps [of E depth pred vpath vst] Let_def
          ALLOWED_PREDICATE_KINDS_def vst1_def\<close>)
    next
      case 3
      have obj: "is_object (js_get ''predicate'' pred)"
        using assms(1) guards Some 3
        by (auto simp: validatePredicate.simps [of E depth pred vpath vst] Let_def
            ALLOWED_PREDICATE_KINDS_def split: if_splits)
      show thesis by (rule neg [OF _ obj])
        (use guards Some k 3 obj in \<open>simp_all add: validatePredicate.simps [of E depth pred vpath vst] Let_def
          ALLOWED_PREDICATE_KINDS_def vst1_def\<close>)
    qed
  qed
qed

lemma accepted_node:
  "follows E vst st \<Longrightarrow> vs_errors (validatePredicate E depth pred vpath vst) = vs_errors vst \<Longrightarrow>
     is_object pred \<and> depth \<le> MAX_PREDICATE_DEPTH \<and> admitted depth pred st"
  by (auto simp: validatePredicate.simps [of E depth pred vpath vst] follows_def admitted_def Let_def
      split: if_splits)

lemma accepted_evalPredicate:
  "follows E vst st \<Longrightarrow> vs_errors (validatePredicate E depth pred vpath vst) = vs_errors vst \<Longrightarrow>
     follows E (validatePredicate E depth pred vpath vst) (snd (evalPredicate E ctx depth pred path st))
     \<and> mild st (snd (evalPredicate E ctx depth pred path st))"
proof (induction depth pred path st arbitrary: vpath vst rule: depth_induct)
  case (deeper depth pred path st)
  let ?st1 = "enter_node depth st" and ?vst1 = "vst\<lparr>vs_nodeCount := vs_nodeCount vst + 1\<rparr>"
  have ad: "admitted depth pred st" "depth \<le> MAX_PREDICATE_DEPTH"
    using accepted_node [OF deeper.prems] by simp_all
  have fol: "follows E ?vst1 ?st1" by (rule follows_enter [OF deeper.prems(1)])
  have enter: "mild ?st1 st1 \<Longrightarrow> mild st st1" for st1 by (simp add: mild_def)
  have run: "accepted_run E (validatePredicate E (Suc depth)) (evalPredicate E ctx (Suc depth))"
    unfolding accepted_run_def using deeper.IH [OF ad(2)] by blast
  have ev: "evalPredicate E ctx depth pred path st =
    (let kind = js_get ''kind'' pred; ev = evalPredicate E ctx (Suc depth)
     in if kind = Str ''leaf'' then evalLeaf E ctx pred path ?st1
        else if kind = Str ''and'' then evalAnd ev (js_get ''predicates'' pred) path ?st1
        else if kind = Str ''or'' then evalOr ev (js_get ''predicates'' pred) path ?st1
        else if kind = Str ''not'' then evalNot ev (js_get ''predicate'' pred) path ?st1
        else fail_with Malformed_Predicate path ?st1)"
    using ad(1) by (simp add: evalPredicate.simps [of E ctx depth] admitted_def enter_node_def Let_def)
  have ex: "\<not> vs_exceeded vst" using deeper.prems(1) by (simp add: follows_def)
  from deeper.prems(2) ex show ?case
  proof (cases rule: validatePredicate_cases)
    case leaf
    with follows_leaf [OF fol, of pred vpath ctx path] deeper.prems(2) enter show ?thesis
      by (simp add: ev)
  next
    case (branch kind)
    note b = accepted_branch [OF run v_grows_predicate fol, of kind "js_get ''predicates'' pred" vpath path]
    show ?thesis using b branch deeper.prems(2) enter by (auto simp: ev)
  next
    case neg
    with accepted_runD [OF run fol, of "js_get ''predicate'' pred" "vpath @ ''.not''" "path @ ''.not''"]
      deeper.prems(2) enter
    show ?thesis by (auto simp: ev evalNot_def split: prod.split leaf_tri.split)
  qed
qed

text \<open>
  C28. An accepted rule body never fails for its structure: whatever the context and the state of the cache,
  its evaluation can only report a missing number, an input too long for a pattern, or an engine that throws.
\<close>

theorem validated_rule_sound:
  assumes "fst (validatePolicyRuleBody E body allowed c) = []" and "cache_ok E c" and "cache_ok E c2"
  shows "list_all (\<lambda>e. ee_code e \<in> {Missing_Field, Regex_Input_Too_Long, Regex_Evaluation_Failed})
    (pd_errors (fst (evaluate E body ctx c2)))"
proof -
  let ?p = "js_get ''predicate'' body" and ?eff = "js_get ''effect'' body"
  define vst where "vst = \<lparr>vs_errors = [], vs_nodeCount = 0, vs_allowed = allowed, vs_exceeded = False, vs_cache = c\<rparr>"
  define st where "st = initial_state c2"
  have fol: "follows E vst st"
    using assms(2,3) by (simp add: follows_def vst_def st_def initial_state_def)
  have obj: "is_object body" using assms(1) by (cases "is_object body") (simp_all add: validatePolicyRuleBody_def Let_def)
  define vst1 where "vst1 = (if \<not> is_object ?p then v_push Missing_Predicate ''$.predicate'' vst
      else validatePredicate E 0 ?p ''$.predicate'' vst)"
  define vst2 where "vst2 = (if \<not> is_object ?eff then v_push Missing_Effect ''$.effect'' vst1
      else validateEffect ?eff ''$.effect'' vst1)"
  have "validatePolicyRuleBody E body allowed c = (vs_errors vst2, vs_cache vst2)"
    using obj unfolding validatePolicyRuleBody_def Let_def vst_def vst1_def vst2_def by simp
  with assms(1) have "vs_errors vst2 = vs_errors vst" by (simp add: vst_def)
  moreover have "v_grows E vst vst1" by (simp add: vst1_def v_grows_predicate)
  moreover have "v_grows E vst1 vst2" by (simp add: vst2_def validateEffect_def split: option.split)
  ultimately have e: "vs_errors vst1 = vs_errors vst" "vs_errors vst2 = vs_errors vst1"
    using v_clean_split by blast+
  have p: "is_object ?p" "vs_errors (validatePredicate E 0 ?p ''$.predicate'' vst) = vs_errors vst"
    using e(1) by (auto simp: vst1_def split: if_splits)
  have eff: "effect_valid ?eff"
    using e(2) by (auto simp: vst2_def validateEffect_def effect_valid_def split: if_splits option.splits)
  have "mild st (snd (evalPredicate E ctx 0 ?p ''$.predicate'' st))"
    using accepted_evalPredicate [OF fol p(2)] by blast
  then have "list_all (\<lambda>e. ee_code e \<in> set runtime_codes)
      (es_errors (snd (evalPredicate E ctx 0 ?p ''$.predicate'' st)))"
    by (auto simp: mild_def st_def initial_state_def)
  then show ?thesis
    using obj p(1) eff
    by (auto simp: evaluate_def Let_def case_prod_unfold st_def runtime_codes_def)
qed

theorem validated_rule_sound_witness:
  "fst (validatePolicyRuleBody demo_engine demo_rule (Some [''tx.amount'', ''tx.kind'']) resetRegexCache) = []
     \<and> list_all (\<lambda>e. ee_code e \<in> {Missing_Field, Regex_Input_Too_Long, Regex_Evaluation_Failed})
         (pd_errors (fst (evaluate demo_engine demo_rule (Obj []) resetRegexCache)))"
proof -
  have ok: "fst (validatePolicyRuleBody demo_engine demo_rule (Some [''tx.amount'', ''tx.kind'']) resetRegexCache) = []"
    by code_simp
  with validated_rule_sound [OF ok resetRegexCache_ok resetRegexCache_ok] show ?thesis by blast
qed

end
