(* ===== verification/Circuit_Mode.thy ===== *)
theory Circuit_Mode
  imports JS_Value
begin

text \<open>
  The posture of the circuit breaker (src/lib/llm/circuit-mode.ts): off, shadow or enforce, from the
  configuration, an operator's override with an expiry, or a test seam. The state of the module is a record
  that every call returns updated; the durable audit is the list of its records, texts left out.
\<close>

section \<open>State\<close>

datatype circuit_mode = Off | Shadow | Enforce

definition CIRCUIT_MODES :: "(string \<times> circuit_mode) list" where
  "CIRCUIT_MODES = [(''off'', Off), (''shadow'', Shadow), (''enforce'', Enforce)]"

text \<open>\<open>isCircuitMode\<close>, with the mode it recognises.\<close>

definition isCircuitMode :: "js \<Rightarrow> circuit_mode option" where
  "isCircuitMode v = (case the_string v of Some s \<Rightarrow> map_of CIRCUIT_MODES s | None \<Rightarrow> None)"

definition MAX_OVERRIDE_MS :: rat where
  "MAX_OVERRIDE_MS = 24 * 60 * 60 * 1000"

definition DEFAULT_OVERRIDE_MS :: rat where
  "DEFAULT_OVERRIDE_MS = 30 * 60 * 1000"

record circuit_override =
  ov_mode :: circuit_mode
  ov_expires_at :: rat
  ov_actor :: string
  ov_reason :: string

datatype override_action = Ov_Applied | Ov_Expired | Ov_Cleared | Ov_Rejected | Ov_Adopted

text \<open>\<open>OVERRIDE_AUDIT_ACTION\<close>: the action under which a record enters the durable trail.\<close>

datatype circuit_audit_action = Llm_Override_Applied | Llm_Override_Cleared | Llm_Override_Expired
  | Llm_Override_Rejected

fun OVERRIDE_AUDIT_ACTION :: "override_action \<Rightarrow> circuit_audit_action" where
  "OVERRIDE_AUDIT_ACTION Ov_Applied = Llm_Override_Applied"
| "OVERRIDE_AUDIT_ACTION Ov_Adopted = Llm_Override_Applied"
| "OVERRIDE_AUDIT_ACTION Ov_Cleared = Llm_Override_Cleared"
| "OVERRIDE_AUDIT_ACTION Ov_Expired = Llm_Override_Expired"
| "OVERRIDE_AUDIT_ACTION Ov_Rejected = Llm_Override_Rejected"

datatype override_source = Src_Applied | Src_Adopted | Src_Resynced

text \<open>
  The mode of a record is None for \<open>'invalid'\<close>; its source is \<open>via\<close>, or the action when there is none.
\<close>

record override_audit =
  oa_action :: circuit_audit_action
  oa_source :: "override_source + override_action"
  oa_mode :: "circuit_mode option"

record mode_state =
  ms_config :: js
  ms_override :: "circuit_override option"
  ms_generation :: nat
  ms_forced :: "circuit_mode option"
  ms_lastSeen :: "circuit_mode option"
  ms_audit :: "override_audit list"

section \<open>The mode in force\<close>

text \<open>The configuration does not change while the process runs, so the cached baseline is its value.\<close>

definition baselineMode :: "mode_state \<Rightarrow> circuit_mode" where
  "baselineMode ms = (case isCircuitMode (ms_config ms) of Some m \<Rightarrow> m | None \<Rightarrow> Shadow)"

definition auditOverride ::
  "override_action \<Rightarrow> circuit_mode option \<Rightarrow> override_source option \<Rightarrow> mode_state \<Rightarrow> mode_state" where
  "auditOverride action mode via ms =
     ms\<lparr>ms_audit := ms_audit ms
          @ [\<lparr>oa_action = OVERRIDE_AUDIT_ACTION action,
             oa_source = (case via of Some v \<Rightarrow> Inl v | None \<Rightarrow> Inr action), oa_mode = mode\<rparr>]\<rparr>"

definition resolve :: "int \<Rightarrow> mode_state \<Rightarrow> circuit_mode \<times> mode_state" where
  "resolve now ms =
     (case ms_forced ms of
        Some m \<Rightarrow> (m, ms)
      | None \<Rightarrow>
          (case ms_override ms of
             None \<Rightarrow> (baselineMode ms, ms)
           | Some ov \<Rightarrow>
               if of_int now < ov_expires_at ov then (ov_mode ov, ms)
               else (baselineMode ms,
                     auditOverride Ov_Expired (Some (ov_mode ov)) None (ms\<lparr>ms_override := None\<rparr>))))"

text \<open>The result also says whether the listeners are told, with the new mode.\<close>

definition effectiveMode :: "int \<Rightarrow> mode_state \<Rightarrow> circuit_mode \<times> bool \<times> mode_state" where
  "effectiveMode now ms =
     (let (resolved, ms1) = resolve now ms
      in if ms_lastSeen ms1 \<noteq> Some resolved
           then (resolved, True, ms1\<lparr>ms_lastSeen := Some resolved\<rparr>)
           else (resolved, False, ms1))"

definition currentOverride :: "int \<Rightarrow> mode_state \<Rightarrow> circuit_override option" where
  "currentOverride now ms =
     (case ms_override ms of
        None \<Rightarrow> None
      | Some ov \<Rightarrow> if of_int now < ov_expires_at ov then Some ov else None)"

section \<open>Overrides\<close>

text \<open>\<open>a + b\<close> and \<open>a - b\<close> on finite doubles.\<close>

definition round_signed :: "rat \<Rightarrow> js_number" where
  "round_signed x = (if x < 0 then num_negate (double_of (- x)) else double_of x)"

definition finite_number :: "js \<Rightarrow> rat option" where
  "finite_number v = (case v of Num (Fin x) \<Rightarrow> Some x | _ \<Rightarrow> None)"

text \<open>None stands for the error: expired on arrival, or valid for longer than the ceiling.\<close>

definition resolveOverrideExpiry :: "js \<Rightarrow> int \<Rightarrow> rat option" where
  "resolveOverrideExpiry msg now =
     (let relative = (case finite_number (js_get ''ttl_ms'' msg) of Some r \<Rightarrow> r | None \<Rightarrow> DEFAULT_OVERRIDE_MS);
          expiresAt = (case finite_number (js_get ''expires_at'' msg) of
                         Some a \<Rightarrow> Fin a | None \<Rightarrow> round_signed (of_int now + relative))
      in case expiresAt of
           Fin x \<Rightarrow>
             if x \<le> of_int now then None
             else if num_less (Fin MAX_OVERRIDE_MS) (round_signed (x - of_int now)) then None
             else Some x
         | _ \<Rightarrow> None)"

definition fromDurableKey :: "override_source \<Rightarrow> bool" where
  "fromDurableKey source \<longleftrightarrow> source = Src_Adopted \<or> source = Src_Resynced"

definition audited_source :: "override_source \<Rightarrow> override_action" where
  "audited_source source = (if source = Src_Applied then Ov_Applied else Ov_Adopted)"

definition trimmed :: "js \<Rightarrow> string" where
  "trimmed v = (case the_string v of Some s \<Rightarrow> js_trim s | None \<Rightarrow> [])"

record override_result =
  or_applied :: bool
  or_mode :: circuit_mode
  or_told :: bool

text \<open>The result asks for the mode in force, which may tell the listeners (\<open>or_told\<close>).\<close>

definition override_answer :: "bool \<Rightarrow> int \<Rightarrow> mode_state \<Rightarrow> override_result \<times> mode_state" where
  "override_answer applied now ms =
     (let (m, told, ms1) = effectiveMode now ms
      in (\<lparr>or_applied = applied, or_mode = m, or_told = told\<rparr>, ms1))"

definition reject_override ::
  "circuit_mode option \<Rightarrow> override_source option \<Rightarrow> int \<Rightarrow> mode_state \<Rightarrow> override_result \<times> mode_state" where
  "reject_override mode via now ms = override_answer False now (auditOverride Ov_Rejected mode via ms)"

definition applyCircuitOverride ::
  "js \<Rightarrow> int \<Rightarrow> override_source \<Rightarrow> mode_state \<Rightarrow> override_result \<times> mode_state" where
  "applyCircuitOverride msg now source ms =
     (let actor = trimmed (js_get ''actor'' msg); reason = trimmed (js_get ''reason'' msg)
      in if actor = [] then reject_override None (Some source) now ms
         else if reason = [] then reject_override None (Some source) now ms
         else if js_get ''clear'' msg = Bool True then
           override_answer True now
             (auditOverride Ov_Cleared (Some (baselineMode ms)) (Some source)
                (ms\<lparr>ms_override := None, ms_generation := ms_generation ms + 1\<rparr>))
         else case isCircuitMode (js_get ''mode'' msg) of
                None \<Rightarrow> reject_override None (Some source) now ms
              | Some mode \<Rightarrow>
                  if fromDurableKey source \<and> finite_number (js_get ''expires_at'' msg) = None
                    then reject_override (Some mode) (Some source) now ms
                  else case resolveOverrideExpiry msg now of
                         None \<Rightarrow> reject_override (Some mode) (Some source) now ms
                       | Some expiresAt \<Rightarrow>
                           override_answer True now
                             (auditOverride (audited_source source) (Some mode) (Some source)
                                (ms\<lparr>ms_override := Some \<lparr>ov_mode = mode, ov_expires_at = expiresAt,
                                                          ov_actor = actor, ov_reason = reason\<rparr>,
                                     ms_generation := ms_generation ms + 1\<rparr>)))"

text \<open>\<open>handleCircuitOverrideMessage\<close>: the payload is None when it is not JSON.\<close>

definition handleCircuitOverrideMessage ::
  "js option \<Rightarrow> int \<Rightarrow> mode_state \<Rightarrow> override_result \<times> mode_state" where
  "handleCircuitOverrideMessage payload now ms =
     (case payload of
        None \<Rightarrow> reject_override None None now ms
      | Some parsed \<Rightarrow>
          if \<not> is_object parsed then reject_override None None now ms
          else applyCircuitOverride parsed now Src_Applied ms)"

section \<open>Who may set the posture, and for how long\<close>

text \<open>
  Every override in force names who set it and why, and is not older than its expiry; the trail
  has an applied record for it.
\<close>

definition override_ok :: "mode_state \<Rightarrow> bool" where
  "override_ok ms \<longleftrightarrow>
     (case ms_override ms of
        None \<Rightarrow> True
      | Some ov \<Rightarrow> ov_actor ov \<noteq> [] \<and> ov_reason ov \<noteq> []
          \<and> (\<exists>a \<in> set (ms_audit ms). oa_action a = Llm_Override_Applied \<and> oa_mode a = Some (ov_mode ov)))"

lemma resolve_cases:
  obtains (forced) m where "ms_forced ms = Some m" "resolve now ms = (m, ms)"
  | (base) "ms_forced ms = None" "ms_override ms = None" "resolve now ms = (baselineMode ms, ms)"
  | (over) ov where "ms_forced ms = None" "ms_override ms = Some ov" "of_int now < ov_expires_at ov"
      "resolve now ms = (ov_mode ov, ms)"
  | (expired) ov where "ms_forced ms = None" "ms_override ms = Some ov" "ov_expires_at ov \<le> of_int now"
      "resolve now ms = (baselineMode ms,
         auditOverride Ov_Expired (Some (ov_mode ov)) None (ms\<lparr>ms_override := None\<rparr>))"
proof (cases "ms_forced ms")
  case None
  show thesis
  proof (cases "ms_override ms")
    case (Some ov)
    then show thesis using that(3,4) [of ov] None
      by (cases "of_int now < ov_expires_at ov") (simp_all add: resolve_def)
  qed (use that(2) None in \<open>simp add: resolve_def\<close>)
qed (use that(1) in \<open>simp add: resolve_def\<close>)

lemma effectiveMode_override:
  "effectiveMode now ms = (m, told, ms1) \<Longrightarrow>
     ms_override ms1 = None \<or> ms_override ms1 = ms_override ms \<and> ms_audit ms1 = ms_audit ms"
  by (cases rule: resolve_cases [of ms now]) (auto simp: effectiveMode_def auditOverride_def split: if_splits)

lemma override_ok_effective:
  "override_ok ms \<Longrightarrow> effectiveMode now ms = (m, told, ms1) \<Longrightarrow> override_ok ms1"
  by (drule effectiveMode_override) (auto simp: override_ok_def split: option.splits)

lemma override_ok_answer: "override_ok ms \<Longrightarrow> override_ok (snd (override_answer b now ms))"
  by (auto simp: override_answer_def intro: override_ok_effective split: prod.splits)

lemma override_ok_audit: "override_ok ms \<Longrightarrow> override_ok (auditOverride a m v ms)"
  by (auto simp: override_ok_def auditOverride_def split: option.splits)

lemma override_ok_set:
  "ov_actor ov \<noteq> [] \<Longrightarrow> ov_reason ov \<noteq> [] \<Longrightarrow>
     override_ok (auditOverride (audited_source source) (Some (ov_mode ov)) via
       (ms\<lparr>ms_override := Some ov, ms_generation := n\<rparr>))"
  by (simp add: override_ok_def auditOverride_def audited_source_def)

lemma override_ok_clear: "override_ok (auditOverride a m v (ms\<lparr>ms_override := None, ms_generation := n\<rparr>))"
  by (simp add: override_ok_def auditOverride_def)

lemma override_ok_apply: "override_ok ms \<Longrightarrow> override_ok (snd (applyCircuitOverride msg now source ms))"
  unfolding applyCircuitOverride_def reject_override_def Let_def
  using override_ok_set [of "\<lparr>ov_mode = m, ov_expires_at = x, ov_actor = trimmed (js_get ''actor'' msg),
    ov_reason = trimmed (js_get ''reason'' msg)\<rparr>" for m x]
  by (auto intro!: override_ok_answer override_ok_clear intro: override_ok_audit split: option.split)

end
