(* ===== verification/Circuit_Breaker.thy ===== *)
theory Circuit_Breaker
  imports Circuit_Mode
begin

text \<open>
  The circuit breaker of the model gateway (src/lib/llm/circuit-breaker.ts, workloads.ts, errors.ts). Entries
  are mutable objects which permits point to, so they live in a heap of the breaker and the map of circuits
  holds references. Metrics, logs and the wording of the audit are left out; the transitions are kept as
  a list. \<open>now\<close> is the clock given to a call, \<open>later\<close> the clock a transition reads again.
\<close>

section \<open>Constants and policies\<close>

definition WINDOW_MS :: int where
  "WINDOW_MS = 30000"

definition MIN_SAMPLES :: nat where
  "MIN_SAMPLES = 10"

definition TARGET_CALL_FAILURE_RATE :: rat where
  "TARGET_CALL_FAILURE_RATE = 1 / 2"

definition OPEN_MS :: int where
  "OPEN_MS = 5000"

definition MAX_OPEN_MS :: int where
  "MAX_OPEN_MS = 60000"

definition MAX_SAMPLES :: nat where
  "MAX_SAMPLES = 200"

definition HALF_OPEN_MAX_PROBES :: nat where
  "HALF_OPEN_MAX_PROBES = 3"

datatype llm_error_kind = K_Authentication | K_Permission | K_Invalid_Request | K_Rate_Limit
  | K_Provider_5xx | K_Network | K_Timeout | K_Aborted | K_Response_Invalid | K_Budget_Exhausted
  | K_Configuration | K_Circuit_Open | K_Missing_Tenant_Context

definition RETRYABLE :: "llm_error_kind list" where
  "RETRYABLE = [K_Rate_Limit, K_Provider_5xx, K_Network]"

definition isRetryableKind :: "llm_error_kind \<Rightarrow> bool" where
  "isRetryableKind kind \<longleftrightarrow> kind \<in> set RETRYABLE"

definition PROVIDER_FAULT_KINDS :: "llm_error_kind list" where
  "PROVIDER_FAULT_KINDS = [K_Provider_5xx, K_Network, K_Timeout]"

datatype circuit_outcome = Out_Ok | Out_Fault | Out_Terminal_Fault | Out_Ignored

definition circuitOutcomeFor :: "llm_error_kind \<Rightarrow> circuit_outcome" where
  "circuitOutcomeFor kind =
     (if kind \<notin> set PROVIDER_FAULT_KINDS then Out_Ignored
      else if isRetryableKind kind then Out_Fault else Out_Terminal_Fault)"

record workload_policy =
  wp_max_attempts :: "int option"
  wp_allow_fast_fallback :: bool

definition VIA_CALL_LLM :: workload_policy where
  "VIA_CALL_LLM = \<lparr>wp_max_attempts = None, wp_allow_fast_fallback = True\<rparr>"

definition SINGLE_SHOT :: workload_policy where
  "SINGLE_SHOT = \<lparr>wp_max_attempts = Some 1, wp_allow_fast_fallback = False\<rparr>"

definition POLICIES :: "(string \<times> workload_policy) list" where
  "POLICIES =
     [(''reasoner'', VIA_CALL_LLM), (''intent_classifier'', VIA_CALL_LLM),
      (''pending_gate'', VIA_CALL_LLM), (''memory_classifier'', VIA_CALL_LLM),
      (''conversation_classifier'', VIA_CALL_LLM), (''behavioral_hint'', VIA_CALL_LLM),
      (''procedure_selector'', VIA_CALL_LLM), (''procedure_builder'', VIA_CALL_LLM),
      (''reflection'', VIA_CALL_LLM), (''summarizer'', VIA_CALL_LLM), (''skill'', VIA_CALL_LLM),
      (''playground'', VIA_CALL_LLM), (''probe'', VIA_CALL_LLM),
      (''risk_classifier'', SINGLE_SHOT), (''role_selector'', SINGLE_SHOT),
      (''step_evaluator'', SINGLE_SHOT), (''calendar_detector'', SINGLE_SHOT),
      (''capability_proposer'', SINGLE_SHOT), (''drift_detector'', SINGLE_SHOT), (''vision'', SINGLE_SHOT)]"

definition workloadPolicy :: "string \<Rightarrow> workload_policy" where
  "workloadPolicy workload =
     (case map_of POLICIES workload of Some p \<Rightarrow> p | None \<Rightarrow> VIA_CALL_LLM)"

text \<open>
  The environment: \<open>CLAUDE_MAX_RETRIES\<close> of the configuration, and \<open>x ** n\<close> of the engine, whose last bits
  the language leaves to the implementation.
\<close>

record breaker_env =
  be_max_retries :: int
  be_pow :: "rat \<Rightarrow> int \<Rightarrow> rat"

definition triesPerCall :: "breaker_env \<Rightarrow> string \<Rightarrow> int" where
  "triesPerCall v workload =
     (let policy = workloadPolicy workload;
          attempts = max 1 (case wp_max_attempts policy of Some n \<Rightarrow> n | None \<Rightarrow> be_max_retries v)
      in attempts + (if wp_allow_fast_fallback policy then 1 else 0))"

text \<open>A quotient or sum of small positive numbers, rounded as a double.\<close>

definition fl :: "rat \<Rightarrow> rat" where
  "fl x = (case double_of x of Fin y \<Rightarrow> y | _ \<Rightarrow> 0)"

record window_stats =
  w_total :: nat
  w_faults :: nat
  w_terminal :: nat

definition estimatedCallFailureRate :: "breaker_env \<Rightarrow> string \<Rightarrow> window_stats \<Rightarrow> rat" where
  "estimatedCallFailureRate v workload w =
     (if w_total w = 0 then 0
      else let terminalRate = fl (of_nat (w_terminal w) / of_nat (w_total w));
               retryableRate = fl (of_nat (w_faults w - w_terminal w) / of_nat (w_total w))
           in fl (terminalRate + be_pow v retryableRate (triesPerCall v workload)))"

section \<open>Entries, permits and the breaker\<close>

datatype circuit_state = Closed | Half_Open | Open

record sample =
  s_at :: int
  s_fault :: bool
  s_terminal :: bool

record circuit_entry =
  e_provider :: string
  e_workload :: string
  e_state :: circuit_state
  e_samples :: "sample list"
  e_opened_at :: int
  e_cooldown_ms :: int
  e_failed_windows :: nat
  e_probes_started :: nat
  e_probes_failed :: nat

datatype circuit_permit =
    Allowed (p_entry: "nat option") (p_probe: bool) (p_state: circuit_state) (p_would_reject: bool)
  | Denied (p_state: circuit_state) (p_retry_after: int)

datatype transition_reason = Cooldown_Elapsed | Probe_Succeeded | Probe_Window_Failed | Error_Rate_Exceeded

text \<open>The key of a circuit is its pair: the JSON text of the pair is one to one.\<close>

type_synonym circuit_key = "string \<times> string"

record breaker =
  br_heap :: "circuit_entry list"
  br_circuits :: "(circuit_key \<times> nat) list"
  br_mode :: mode_state
  br_log :: "(nat \<times> circuit_state \<times> circuit_state \<times> transition_reason) list"

text \<open>The mode in force; the listener of the breaker forgets all circuits when it becomes off.\<close>

definition mode_now :: "int \<Rightarrow> breaker \<Rightarrow> circuit_mode \<times> breaker" where
  "mode_now now b =
     (let (m, told, ms) = effectiveMode now (br_mode b);
          b1 = b\<lparr>br_mode := ms\<rparr>
      in (m, if told \<and> m = Off then b1\<lparr>br_circuits := []\<rparr> else b1))"

text \<open>An operator's message reaches the breaker the same way, by the mode it leaves in force.\<close>

definition overrideMessage :: "js option \<Rightarrow> int \<Rightarrow> breaker \<Rightarrow> override_result \<times> breaker" where
  "overrideMessage payload now b =
     (let (res, ms) = handleCircuitOverrideMessage payload now (br_mode b);
          b1 = b\<lparr>br_mode := ms\<rparr>
      in (res, if or_told res \<and> or_mode res = Off then b1\<lparr>br_circuits := []\<rparr> else b1))"

definition new_entry :: "circuit_key \<Rightarrow> circuit_entry" where
  "new_entry key =
     \<lparr>e_provider = fst key, e_workload = snd key, e_state = Closed, e_samples = [], e_opened_at = 0,
      e_cooldown_ms = OPEN_MS, e_failed_windows = 0, e_probes_started = 0, e_probes_failed = 0\<rparr>"

definition getEntry :: "circuit_key \<Rightarrow> breaker \<Rightarrow> nat \<times> breaker" where
  "getEntry key b =
     (case map_of (br_circuits b) key of
        Some r \<Rightarrow> (r, b)
      | None \<Rightarrow>
          let r = length (br_heap b)
          in (r, b\<lparr>br_heap := br_heap b @ [new_entry key], br_circuits := (key, r) # br_circuits b\<rparr>))"

definition entry_of :: "nat \<Rightarrow> breaker \<Rightarrow> circuit_entry" where
  "entry_of r b = br_heap b ! r"

definition put_entry :: "nat \<Rightarrow> circuit_entry \<Rightarrow> breaker \<Rightarrow> breaker" where
  "put_entry r e b = b\<lparr>br_heap := (br_heap b)[r := e]\<rparr>"

definition transition ::
  "nat \<Rightarrow> circuit_state \<Rightarrow> transition_reason \<Rightarrow> int \<Rightarrow> breaker \<Rightarrow> breaker" where
  "transition r target reason later b =
     (let e = entry_of r b
      in if e_state e = target then b
         else let b1 = put_entry r (e\<lparr>e_state := target\<rparr>) b;
                  (_, b2) = mode_now later b1
              in b2\<lparr>br_log := br_log b2 @ [(r, e_state e, target, reason)]\<rparr>)"

definition windowStats :: "circuit_entry \<Rightarrow> int \<Rightarrow> window_stats \<times> circuit_entry" where
  "windowStats e now =
     (let kept = dropWhile (\<lambda>s. s_at s < now - WINDOW_MS) (e_samples e)
      in (\<lparr>w_total = length kept, w_faults = length (filter s_fault kept),
           w_terminal = length (filter (\<lambda>s. s_fault s \<and> s_terminal s) kept)\<rparr>,
          e\<lparr>e_samples := kept\<rparr>))"

definition cooldownRemaining :: "circuit_entry \<Rightarrow> int \<Rightarrow> int" where
  "cooldownRemaining e now = max 0 (e_opened_at e + e_cooldown_ms e - now)"

section \<open>Operations\<close>

record circuit_peek =
  pk_allowed :: bool
  pk_state :: circuit_state
  pk_retry_after :: int
  pk_would_reject :: bool

definition peekCircuit :: "circuit_key \<Rightarrow> int \<Rightarrow> breaker \<Rightarrow> circuit_peek \<times> breaker" where
  "peekCircuit key now b0 =
     (let (mode, b) = mode_now now b0;
          pass = (\<lambda>st retry. \<lparr>pk_allowed = True, pk_state = st, pk_retry_after = retry, pk_would_reject = False\<rparr>)
      in if mode = Off then (pass Closed 0, b)
         else case map_of (br_circuits b) key of
                None \<Rightarrow> (pass Closed 0, b)
              | Some r \<Rightarrow>
                  let e = entry_of r b
                  in if e_state e = Closed then (pass Closed 0, b)
                     else
                       let hasSlot = e_probes_started e < HALF_OPEN_MAX_PROBES;
                           retry = (if e_state e = Open then cooldownRemaining e now
                                    else if hasSlot then 0 else e_cooldown_ms e);
                           allowed = (if e_state e = Open then retry \<le> 0 else hasSlot)
                       in if allowed then (pass (e_state e) retry, b)
                          else if mode = Shadow then
                            (\<lparr>pk_allowed = True, pk_state = e_state e, pk_retry_after = retry,
                              pk_would_reject = True\<rparr>, b)
                          else (\<lparr>pk_allowed = False, pk_state = e_state e, pk_retry_after = retry,
                                 pk_would_reject = False\<rparr>, b))"

definition refuse :: "nat \<Rightarrow> circuit_state \<Rightarrow> int \<Rightarrow> bool \<Rightarrow> circuit_permit" where
  "refuse r st retry_after shadow =
     (if shadow then Allowed (Some r) False st True else Denied st retry_after)"

text \<open>The part of \<open>acquireCircuit\<close> for an entry in half-open state.\<close>

definition acquire_probe :: "nat \<Rightarrow> bool \<Rightarrow> breaker \<Rightarrow> circuit_permit \<times> breaker" where
  "acquire_probe r shadow b =
     (let e = entry_of r b
      in if HALF_OPEN_MAX_PROBES \<le> e_probes_started e
           then (refuse r Half_Open (e_cooldown_ms e) shadow, b)
           else (Allowed (Some r) True Half_Open False,
                 put_entry r (e\<lparr>e_probes_started := e_probes_started e + 1\<rparr>) b))"

definition acquireCircuit ::
  "circuit_key \<Rightarrow> int \<Rightarrow> int \<Rightarrow> breaker \<Rightarrow> circuit_permit \<times> breaker" where
  "acquireCircuit key now later b0 =
     (let (mode, b1) = mode_now now b0
      in if mode = Off then (Allowed None False Closed False, b1)
         else
           let (r, b) = getEntry key b1; e = entry_of r b; shadow = (mode = Shadow)
           in if e_state e = Closed then (Allowed (Some r) False Closed False, b)
              else if e_state e = Open then
                (let remaining = cooldownRemaining e now
                 in if 0 < remaining then (refuse r Open remaining shadow, b)
                    else acquire_probe r shadow
                           (transition r Half_Open Cooldown_Elapsed later
                              (put_entry r (e\<lparr>e_probes_started := 0, e_probes_failed := 0\<rparr>) b)))
              else acquire_probe r shadow b)"

text \<open>The outcome of a probe.\<close>

definition release_probe ::
  "nat \<Rightarrow> circuit_outcome \<Rightarrow> int \<Rightarrow> int \<Rightarrow> breaker \<Rightarrow> breaker" where
  "release_probe r outcome now later b =
     (let e = entry_of r b
      in case outcome of
           Out_Ok \<Rightarrow>
             transition r Closed Probe_Succeeded later
               (put_entry r (e\<lparr>e_samples := [], e_failed_windows := 0, e_probes_started := 0,
                              e_probes_failed := 0, e_cooldown_ms := OPEN_MS\<rparr>) b)
         | Out_Ignored \<Rightarrow>
             put_entry r (e\<lparr>e_probes_started := e_probes_started e - 1\<rparr>) b
         | _ \<Rightarrow>
             let failed = e_probes_failed e + 1
             in if failed < HALF_OPEN_MAX_PROBES then put_entry r (e\<lparr>e_probes_failed := failed\<rparr>) b
                else let windows = e_failed_windows e + 1
                     in transition r Open Probe_Window_Failed later
                          (put_entry r (e\<lparr>e_probes_failed := failed, e_failed_windows := windows,
                                         e_cooldown_ms := min (OPEN_MS * 2 ^ windows) MAX_OPEN_MS,
                                         e_opened_at := now\<rparr>) b))"

text \<open>The outcome of an ordinary call: a sample, and perhaps the opening.\<close>

definition record_sample :: "nat \<Rightarrow> circuit_outcome \<Rightarrow> int \<Rightarrow> breaker \<Rightarrow> breaker" where
  "record_sample r outcome now b =
     (let e = entry_of r b;
          old = (if MAX_SAMPLES \<le> length (e_samples e) then tl (e_samples e) else e_samples e)
      in put_entry r
           (e\<lparr>e_samples := old @ [\<lparr>s_at = now, s_fault = (outcome \<noteq> Out_Ok),
                                  s_terminal = (outcome = Out_Terminal_Fault)\<rparr>]\<rparr>) b)"

definition release_call ::
  "breaker_env \<Rightarrow> nat \<Rightarrow> circuit_outcome \<Rightarrow> int \<Rightarrow> int \<Rightarrow> breaker \<Rightarrow> breaker" where
  "release_call v r outcome now later b0 =
     (if outcome = Out_Ignored then b0
      else
        let b = record_sample r outcome now b0; e = entry_of r b
        in if e_state e \<noteq> Closed then b
           else
             let (w, e1) = windowStats e now; b1 = put_entry r e1 b
             in if w_total w < MIN_SAMPLES then b1
                else if estimatedCallFailureRate v (e_workload e1) w < TARGET_CALL_FAILURE_RATE then b1
                else transition r Open Error_Rate_Exceeded later
                       (put_entry r (e1\<lparr>e_opened_at := now, e_failed_windows := 0,
                                       e_cooldown_ms := OPEN_MS\<rparr>) b1))"

definition releaseCircuit ::
  "breaker_env \<Rightarrow> circuit_permit \<Rightarrow> circuit_outcome \<Rightarrow> int \<Rightarrow> int \<Rightarrow> breaker \<Rightarrow> breaker" where
  "releaseCircuit v permit outcome now later b0 =
     (case permit of
        Denied _ _ \<Rightarrow> b0
      | Allowed None _ _ _ \<Rightarrow> b0
      | Allowed (Some r) probe _ would_reject \<Rightarrow>
          let (mode, b) = mode_now now b0
          in if mode = Off then b
             else if would_reject then b
             else if probe then release_probe r outcome now later b
             else release_call v r outcome now later b)"

definition circuitState :: "circuit_key \<Rightarrow> breaker \<Rightarrow> circuit_state" where
  "circuitState key b =
     (case map_of (br_circuits b) key of Some r \<Rightarrow> e_state (entry_of r b) | None \<Rightarrow> Closed)"

end
