(* ===== verification/Circuit_Session.thy ===== *)
theory Circuit_Session
  imports Circuit_Breaker
begin

text \<open>
  The breaker under a gateway that keeps its permits: any interleaving of acquisitions, releases (each
  permit at most once), readings and operator messages. Its invariant, the freedom from deadlock of the
  half-open state, and the fidelity of the shadow posture.
\<close>

section \<open>Sessions\<close>

text \<open>A permit with whether it was released.\<close>

record session =
  sn_breaker :: breaker
  sn_permits :: "(circuit_permit \<times> bool) list"

datatype circuit_op =
    Acquire circuit_key int int
  | Release nat circuit_outcome int int
  | Peek circuit_key int
  | Message "js option" int

fun session_step :: "breaker_env \<Rightarrow> circuit_op \<Rightarrow> session \<Rightarrow> session" where
  "session_step v (Acquire key now later) s =
     (let (p, b) = acquireCircuit key now later (sn_breaker s)
      in \<lparr>sn_breaker = b, sn_permits = sn_permits s @ [(p, False)]\<rparr>)"
| "session_step v (Release i outcome now later) s =
     (if i < length (sn_permits s) \<and> \<not> snd (sn_permits s ! i)
      then \<lparr>sn_breaker = releaseCircuit v (fst (sn_permits s ! i)) outcome now later (sn_breaker s),
            sn_permits = (sn_permits s)[i := (fst (sn_permits s ! i), True)]\<rparr>
      else s)"
| "session_step v (Peek key now) s = s\<lparr>sn_breaker := snd (peekCircuit key now (sn_breaker s))\<rparr>"
| "session_step v (Message payload now) s =
     s\<lparr>sn_breaker := snd (overrideMessage payload now (sn_breaker s))\<rparr>"

definition session_run :: "breaker_env \<Rightarrow> circuit_op list \<Rightarrow> session \<Rightarrow> session" where
  "session_run v ops s = fold (session_step v) ops s"

definition start_mode :: "js \<Rightarrow> mode_state" where
  "start_mode config =
     \<lparr>ms_config = config, ms_override = None, ms_generation = 0, ms_forced = None, ms_lastSeen = None,
      ms_audit = []\<rparr>"

definition start_session :: "js \<Rightarrow> session" where
  "start_session config =
     \<lparr>sn_breaker = \<lparr>br_heap = [], br_circuits = [], br_mode = start_mode config, br_log = []\<rparr>,
      sn_permits = []\<rparr>"

section \<open>The invariant\<close>

definition entry_ok :: "circuit_entry \<Rightarrow> bool" where
  "entry_ok e \<longleftrightarrow> length (e_samples e) \<le> MAX_SAMPLES
     \<and> OPEN_MS \<le> e_cooldown_ms e \<and> e_cooldown_ms e \<le> MAX_OPEN_MS
     \<and> e_probes_started e \<le> HALF_OPEN_MAX_PROBES
     \<and> (e_state e \<noteq> Open \<longrightarrow> e_probes_failed e < HALF_OPEN_MAX_PROBES)"

definition excess :: "circuit_entry \<Rightarrow> int" where
  "excess e = int (e_probes_started e) - int (e_probes_failed e)"

definition live :: "breaker \<Rightarrow> nat set" where
  "live b = snd ` set (br_circuits b)"

text \<open>
  The invariant of a breaker, relative to the number \<open>out r\<close> of probes of the entry \<open>r\<close> still out: entries are
  well formed, the map points into the heap and is empty while the mode is off, and an entry in
  the map counts no more granted and undecided probes than are out.
\<close>

definition breaker_ok :: "(nat \<Rightarrow> int) \<Rightarrow> breaker \<Rightarrow> bool" where
  "breaker_ok out b \<longleftrightarrow> (\<forall>r < length (br_heap b). entry_ok (entry_of r b))
     \<and> (\<forall>r \<in> live b. r < length (br_heap b) \<and> excess (entry_of r b) \<le> out r)
     \<and> (ms_lastSeen (br_mode b) = Some Off \<longrightarrow> br_circuits b = [])
     \<and> override_ok (br_mode b) \<and> (\<forall>r. 0 \<le> out r)"

text \<open>Probes granted and not yet released.\<close>

definition is_probe :: "nat \<Rightarrow> circuit_permit \<Rightarrow> bool" where
  "is_probe r p \<longleftrightarrow> (case p of Allowed (Some q) probe _ wr \<Rightarrow> probe \<and> \<not> wr \<and> q = r | _ \<Rightarrow> False)"

definition outstanding :: "session \<Rightarrow> nat \<Rightarrow> int" where
  "outstanding s r = int (length (filter (\<lambda>p. is_probe r (fst p) \<and> \<not> snd p) (sn_permits s)))"

definition session_ok :: "session \<Rightarrow> bool" where
  "session_ok s \<longleftrightarrow> breaker_ok (outstanding s) (sn_breaker s)"

lemma entry_of_put:
  "entry_of r (put_entry q e b) = (if r = q \<and> q < length (br_heap b) then e else entry_of r b)"
  by (cases "q < length (br_heap b)") (auto simp: entry_of_def put_entry_def nth_list_update list_update_beyond)

lemma put_entry_simps [simp]:
  "length (br_heap (put_entry r e b)) = length (br_heap b)" "br_circuits (put_entry r e b) = br_circuits b"
  "br_mode (put_entry r e b) = br_mode b" "live (put_entry r e b) = live b"
  by (simp_all add: put_entry_def live_def)

lemma effectiveMode_seen: "effectiveMode now ms = (m, told, ms1) \<Longrightarrow>
    ms_lastSeen ms1 = Some m \<and> (told = (ms_lastSeen ms \<noteq> Some m))"
  by (cases rule: resolve_cases [of ms now])
    (auto simp: effectiveMode_def auditOverride_def split: if_splits)

lemma mode_now_frame:
  assumes "mode_now now b = (m, b1)"
  shows "br_heap b1 = br_heap b" and "br_log b1 = br_log b" and "entry_of r b1 = entry_of r b"
    and "ms_lastSeen (br_mode b1) = Some m"
    and "br_circuits b1 = br_circuits b \<or> m = Off \<and> br_circuits b1 = []"
    and "m \<noteq> Off \<Longrightarrow> br_circuits b1 = br_circuits b"
  using assms effectiveMode_seen
  by (auto simp: mode_now_def Let_def entry_of_def split: prod.splits if_splits)

lemma breaker_ok_mode:
  assumes "breaker_ok out b" and "mode_now now b = (m, b1)"
  shows "breaker_ok out b1 \<and> (m = Off \<longrightarrow> br_circuits b1 = [])"
proof -
  obtain told ms where e: "effectiveMode now (br_mode b) = (m, told, ms)"
    "b1 = (if told \<and> m = Off then b\<lparr>br_mode := ms, br_circuits := []\<rparr> else b\<lparr>br_mode := ms\<rparr>)"
    using assms(2) by (auto simp: mode_now_def Let_def split: prod.splits if_splits)
  have ok: "override_ok ms" using override_ok_effective [OF _ e(1)] assms(1) by (simp add: breaker_ok_def)
  have off: "m = Off \<longrightarrow> br_circuits b1 = []"
    using effectiveMode_seen [OF e(1)] e(2) assms(1) by (auto simp: breaker_ok_def)
  with assms(1) e ok show ?thesis
    by (auto simp: breaker_ok_def entry_of_def live_def effectiveMode_seen [OF e(1)] split: if_splits)
qed

lemma breaker_ok_put:
  assumes "breaker_ok out b" and "r < length (br_heap b) \<Longrightarrow> entry_ok e"
    and "r \<in> live b \<Longrightarrow> excess e \<le> out' r" and "0 \<le> out' r" and "\<forall>q. q \<noteq> r \<longrightarrow> out' q = out q"
  shows "breaker_ok out' (put_entry r e b)"
proof -
  have out: "0 \<le> out' q" for q using assms(1,4,5) by (cases "q = r") (auto simp: breaker_ok_def)
  have "excess (entry_of q (put_entry r e b)) \<le> out' q" if "q \<in> live b" for q
  proof (cases "q = r")
    case True
    have "r < length (br_heap b)" using assms(1) that True by (simp add: breaker_ok_def)
    then show ?thesis using True assms(3) that by (simp add: entry_of_put)
  next
    case False
    then show ?thesis using assms(1,5) that by (simp add: entry_of_put breaker_ok_def)
  qed
  with assms(1,2) out show ?thesis unfolding breaker_ok_def by (simp add: entry_of_put)
qed

lemma breaker_ok_log: "breaker_ok out (b\<lparr>br_log := l\<rparr>) = breaker_ok out b"
  by (simp add: breaker_ok_def entry_of_def live_def)

lemma put_put: "put_entry r x (put_entry r e b) = put_entry r x b"
  by (simp add: put_entry_def)

lemma put_same: "put_entry r (entry_of r b) b = b"
  by (simp add: put_entry_def entry_of_def)

lemma put_state:
  "put_entry r ((entry_of r (put_entry r e b))\<lparr>e_state := t\<rparr>) (put_entry r e b) = put_entry r (e\<lparr>e_state := t\<rparr>) b"
  by (cases "r < length (br_heap b)")
    (simp_all add: entry_of_put put_put, simp add: put_entry_def list_update_beyond)

lemma breaker_ok_transition:
  assumes "breaker_ok out (put_entry r (e\<lparr>e_state := t\<rparr>) b)"
  shows "breaker_ok out (transition r t why later (put_entry r e b))"
proof (cases "e_state (entry_of r (put_entry r e b)) = t")
  case True
  then have "(entry_of r (put_entry r e b))\<lparr>e_state := t\<rparr> = entry_of r (put_entry r e b)" by simp
  with put_state [where r = r and e = e and b = b and t = t] put_same [of r "put_entry r e b"]
  have "put_entry r (e\<lparr>e_state := t\<rparr>) b = put_entry r e b" by simp
  with assms True show ?thesis by (simp add: transition_def Let_def)
next
  case False
  obtain m b1 where m: "mode_now later (put_entry r (e\<lparr>e_state := t\<rparr>) b) = (m, b1)" by fastforce
  have "breaker_ok out b1" using breaker_ok_mode [OF assms m] by simp
  with False show ?thesis by (simp add: transition_def Let_def put_state m breaker_ok_log)
qed

lemma transition_heap:
  "br_heap (transition r t why later (put_entry r e b)) = br_heap (put_entry r (e\<lparr>e_state := t\<rparr>) b)"
proof (cases "e_state (entry_of r (put_entry r e b)) = t")
  case True
  then have "(entry_of r (put_entry r e b))\<lparr>e_state := t\<rparr> = entry_of r (put_entry r e b)" by simp
  with put_state [where r = r and e = e and b = b and t = t] put_same [of r "put_entry r e b"]
  have "put_entry r (e\<lparr>e_state := t\<rparr>) b = put_entry r e b" by simp
  with True show ?thesis by (simp add: transition_def Let_def)
next
  case False
  obtain m b1 where m: "mode_now later (put_entry r (e\<lparr>e_state := t\<rparr>) b) = (m, b1)" by fastforce
  with False show ?thesis by (simp add: transition_def Let_def put_state mode_now_frame [OF m])
qed

lemma transition_entry:
  "entry_of q (transition r t why later (put_entry r e b)) = entry_of q (put_entry r (e\<lparr>e_state := t\<rparr>) b)"
  by (simp add: entry_of_def transition_heap)

section \<open>Every operation keeps it\<close>

lemma entry_ok_simps:
  "entry_ok e \<Longrightarrow> length (e_samples e) \<le> 200 \<and> 5000 \<le> e_cooldown_ms e \<and> e_cooldown_ms e \<le> 60000
     \<and> e_probes_started e \<le> 3 \<and> (e_state e \<noteq> Open \<longrightarrow> e_probes_failed e < 3)"
  by (simp add: entry_ok_def MAX_SAMPLES_def OPEN_MS_def MAX_OPEN_MS_def HALF_OPEN_MAX_PROBES_def)

lemmas bounds = MAX_SAMPLES_def OPEN_MS_def MAX_OPEN_MS_def HALF_OPEN_MAX_PROBES_def

lemma breaker_ok_entry: "breaker_ok out b \<Longrightarrow> r < length (br_heap b) \<Longrightarrow> entry_ok (entry_of r b)"
  by (simp add: breaker_ok_def)

lemma breaker_ok_getEntry:
  assumes "breaker_ok out b" and "ms_lastSeen (br_mode b) \<noteq> Some Off" and "getEntry key b = (r, b1)"
  shows "breaker_ok out b1 \<and> r \<in> live b1 \<and> map_of (br_circuits b1) key = Some r
    \<and> ms_lastSeen (br_mode b1) = ms_lastSeen (br_mode b)"
proof (cases "map_of (br_circuits b) key")
  case (Some q)
  with assms have "b1 = b" "r = q" by (simp_all add: getEntry_def)
  with assms Some show ?thesis by (auto simp: live_def dest!: map_of_SomeD intro: rev_image_eqI)
next
  case None
  have b1: "r = length (br_heap b)" "b1 = b\<lparr>br_heap := br_heap b @ [new_entry key], br_circuits := (key, r) # br_circuits b\<rparr>"
    using assms(3) None by (auto simp: getEntry_def Let_def)
  have new: "entry_ok (new_entry key)" "excess (new_entry key) = 0"
    by (simp_all add: entry_ok_def new_entry_def excess_def bounds)
  have eo: "entry_of q b1 = (if q = r then new_entry key else entry_of q b)" if "q < length (br_heap b1)" for q
    using that by (auto simp: b1 entry_of_def nth_append)
  have "live b1 = insert r (live b)" by (simp add: b1 live_def)
  then show ?thesis using assms(1,2) new eo unfolding breaker_ok_def
    by (auto simp: b1 less_Suc_eq)
qed

lemma breaker_ok_acquire_probe:
  assumes "breaker_ok out b" and "e_state (entry_of r b) \<noteq> Open" and "acquire_probe r shadow b = (p, b1)"
  shows "breaker_ok (\<lambda>q. out q + of_bool (is_probe q p)) b1"
proof (cases "HALF_OPEN_MAX_PROBES \<le> e_probes_started (entry_of r b)")
  case True
  then have "b1 = b" "\<not> is_probe q p" for q
    using assms(3) by (auto simp: acquire_probe_def Let_def refuse_def is_probe_def split: if_splits)
  with assms(1) show ?thesis by simp
next
  case False
  let ?e = "(entry_of r b)\<lparr>e_probes_started := e_probes_started (entry_of r b) + 1\<rparr>"
  have b1: "b1 = put_entry r ?e b" "p = Allowed (Some r) True Half_Open False"
    using assms(3) False by (auto simp: acquire_probe_def Let_def)
  have ok: "entry_ok ?e" if "r < length (br_heap b)"
    using breaker_ok_entry [OF assms(1) that] False assms(2) by (simp add: entry_ok_def)
  show ?thesis
    unfolding b1(1)
  proof (rule breaker_ok_put [OF assms(1) ok])
    show "r \<in> live b \<Longrightarrow> excess ?e \<le> out r + of_bool (is_probe r p)"
      using assms(1) b1(2) by (auto simp: breaker_ok_def excess_def is_probe_def)
  qed (use assms(1) b1(2) in \<open>auto simp: breaker_ok_def is_probe_def\<close>)
qed

lemma breaker_ok_same_out:
  "breaker_ok out b \<Longrightarrow> (\<And>q. out' q = out q) \<Longrightarrow> breaker_ok out' b"
  by (simp add: breaker_ok_def)

lemma not_probe [simp]: "\<not> is_probe q (refuse r st ra shadow)" "\<not> is_probe q (Allowed x False st wr)"
  by (auto simp: is_probe_def refuse_def split: option.split)

lemma breaker_ok_acquire:
  assumes "breaker_ok out b0" and "acquireCircuit key now later b0 = (p, b3)"
  shows "breaker_ok (\<lambda>q. out q + of_bool (is_probe q p)) b3"
proof -
  obtain m b1 where m: "mode_now now b0 = (m, b1)" by fastforce
  have b1: "breaker_ok out b1" using breaker_ok_mode [OF assms(1) m] by simp
  show ?thesis
  proof (cases "m = Off")
    case True
    then show ?thesis using assms(2) m b1 by (auto simp: acquireCircuit_def)
  next
    case False
    obtain r b where g: "getEntry key b1 = (r, b)" by fastforce
    have "ms_lastSeen (br_mode b1) \<noteq> Some Off" using mode_now_frame(4) [OF m] False by simp
    from breaker_ok_getEntry [OF b1 this g] have b: "breaker_ok out b" "r < length (br_heap b)"
      by (auto simp: breaker_ok_def)
    let ?e = "entry_of r b"
    let ?e1 = "?e\<lparr>e_probes_started := 0, e_probes_failed := 0\<rparr>"
    let ?b2 = "transition r Half_Open Cooldown_Elapsed later (put_entry r ?e1 b)"
    have b2: "breaker_ok out ?b2" "e_state (entry_of r ?b2) = Half_Open"
    proof -
      show "breaker_ok out ?b2"
      proof (rule breaker_ok_transition, rule breaker_ok_put [OF b(1)])
        show "entry_ok (?e1\<lparr>e_state := Half_Open\<rparr>)"
          using breaker_ok_entry [OF b] by (simp add: entry_ok_def bounds)
      qed (use b in \<open>auto simp: excess_def breaker_ok_def\<close>)
      show "e_state (entry_of r ?b2) = Half_Open"
        using b(2) by (simp add: entry_of_def transition_heap) (simp add: put_entry_def)
    qed
    consider (closed) "e_state ?e = Closed" | (wait) "e_state ?e = Open" "0 < cooldownRemaining ?e now"
      | (elapsed) "e_state ?e = Open" "\<not> 0 < cooldownRemaining ?e now" | (half) "e_state ?e = Half_Open"
      by (cases "e_state ?e") auto
    then show ?thesis
    proof cases
      case closed
      then show ?thesis using assms(2) m g False b(1) by (auto simp: acquireCircuit_def Let_def)
    next
      case wait
      then show ?thesis using assms(2) m g False b(1) by (auto simp: acquireCircuit_def Let_def)
    next
      case elapsed
      then have "acquire_probe r (m = Shadow) ?b2 = (p, b3)"
        using assms(2) m g False by (simp add: acquireCircuit_def Let_def)
      from breaker_ok_acquire_probe [OF b2(1) _ this] show ?thesis using b2(2) by simp
    next
      case half
      then have "acquire_probe r (m = Shadow) b = (p, b3)"
        using assms(2) m g False by (simp add: acquireCircuit_def Let_def)
      from breaker_ok_acquire_probe [OF b(1) _ this] show ?thesis using half by simp
    qed
  qed
qed

lemma breaker_ok_release_probe:
  assumes "breaker_ok out b" and "1 \<le> out r" and "\<forall>q. out' q = out q - of_bool (q = r)"
  shows "breaker_ok out' (release_probe r outcome now later b)"
proof -
  let ?e = "entry_of r b"
  have e: "r < length (br_heap b) \<Longrightarrow> entry_ok ?e" by (rule breaker_ok_entry [OF assms(1)])
  have exc: "r \<in> live b \<Longrightarrow> excess ?e \<le> out r" using assms(1) by (simp add: breaker_ok_def)
  have put: "breaker_ok out' (put_entry r e' b)"
    if "r < length (br_heap b) \<Longrightarrow> entry_ok e'" "r \<in> live b \<Longrightarrow> excess e' \<le> out r - 1" for e'
    by (rule breaker_ok_put [OF assms(1) that(1)]) (use that(2) assms(2,3) in auto)
  have double: "OPEN_MS \<le> min (OPEN_MS * 2 ^ n) MAX_OPEN_MS" for n
    using one_le_power [of "2::int" n] by (simp add: bounds)
  have fault: "breaker_ok out' (let failed = e_probes_failed ?e + 1
      in if failed < HALF_OPEN_MAX_PROBES then put_entry r (?e\<lparr>e_probes_failed := failed\<rparr>) b
         else let windows = e_failed_windows ?e + 1
              in transition r Open Probe_Window_Failed later
                   (put_entry r (?e\<lparr>e_probes_failed := failed, e_failed_windows := windows,
                      e_cooldown_ms := min (OPEN_MS * 2 ^ windows) MAX_OPEN_MS, e_opened_at := now\<rparr>) b))"
  proof (cases "e_probes_failed ?e + 1 < HALF_OPEN_MAX_PROBES")
    case True
    then show ?thesis unfolding Let_def if_P [OF True]
      by (intro put) (use e exc in \<open>auto simp: entry_ok_def excess_def\<close>)
  next
    case False
    show ?thesis unfolding Let_def if_not_P [OF False]
    proof (rule breaker_ok_transition, rule put)
      show "r < length (br_heap b) \<Longrightarrow> entry_ok (?e\<lparr>e_probes_failed := e_probes_failed ?e + 1,
          e_failed_windows := e_failed_windows ?e + 1,
          e_cooldown_ms := min (OPEN_MS * 2 ^ (e_failed_windows ?e + 1)) MAX_OPEN_MS,
          e_opened_at := now, e_state := Open\<rparr>)"
        using e double [of "e_failed_windows ?e + 1"] by (simp add: entry_ok_def)
    qed (use exc in \<open>auto simp: excess_def\<close>)
  qed
  show ?thesis
  proof (cases outcome)
    case Out_Ok
    have "breaker_ok out' (put_entry r (?e\<lparr>e_samples := [], e_failed_windows := 0, e_probes_started := 0,
        e_probes_failed := 0, e_cooldown_ms := OPEN_MS, e_state := Closed\<rparr>) b)"
      by (rule put) (use assms(2) in \<open>simp_all add: entry_ok_def excess_def bounds\<close>)
    then show ?thesis unfolding release_probe_def Let_def Out_Ok circuit_outcome.case
      by (intro breaker_ok_transition) simp
  next
    case Out_Ignored
    show ?thesis unfolding release_probe_def Let_def Out_Ignored circuit_outcome.case
      by (rule put) (use e exc assms(2) in \<open>auto simp: entry_ok_def excess_def\<close>)
  next
    case Out_Fault
    then show ?thesis using fault by (simp add: release_probe_def Let_def)
  next
    case Out_Terminal_Fault
    then show ?thesis using fault by (simp add: release_probe_def Let_def)
  qed
qed

lemma breaker_ok_update:
  assumes "breaker_ok out b" and "entry_ok (entry_of r b) \<Longrightarrow> entry_ok e'" and "excess e' = excess (entry_of r b)"
  shows "breaker_ok out (put_entry r e' b)"
  by (rule breaker_ok_put [OF assms(1)])
    (use assms in \<open>auto simp: breaker_ok_def\<close>)

lemma breaker_ok_release_call:
  assumes "breaker_ok out b"
  shows "breaker_ok out (release_call v r outcome now later b)"
proof (cases "outcome = Out_Ignored")
  case False
  define b1 where "b1 = record_sample r outcome now b"
  have b1: "breaker_ok out b1" unfolding b1_def record_sample_def Let_def
    by (rule breaker_ok_update [OF assms]) (auto simp: entry_ok_def excess_def bounds)
  obtain w e1 where w: "windowStats (entry_of r b1) now = (w, e1)" by fastforce
  have e1: "entry_ok (entry_of r b1) \<Longrightarrow> entry_ok e1" "excess e1 = excess (entry_of r b1)"
    "e_state e1 = e_state (entry_of r b1)"
    using w length_dropWhile_le [of "\<lambda>s. s_at s < now - WINDOW_MS" "e_samples (entry_of r b1)"]
    by (auto simp: windowStats_def Let_def entry_ok_def excess_def)
  have pruned: "breaker_ok out (put_entry r e1 b1)" by (rule breaker_ok_update [OF b1 e1(1,2)])
  have opened: "breaker_ok out (transition r Open Error_Rate_Exceeded later
      (put_entry r (e1\<lparr>e_opened_at := now, e_failed_windows := 0, e_cooldown_ms := OPEN_MS\<rparr>) (put_entry r e1 b1)))"
    by (rule breaker_ok_transition, unfold put_put, rule breaker_ok_update [OF b1])
      (use e1 in \<open>auto simp: entry_ok_def excess_def bounds\<close>)
  show ?thesis using False b1 pruned opened
    by (simp add: release_call_def Let_def w b1_def [symmetric])
qed (use assms in \<open>simp add: release_call_def\<close>)

lemma breaker_ok_release:
  assumes "breaker_ok out b0" and "\<And>r. is_probe r permit \<Longrightarrow> 1 \<le> out r"
    and "\<forall>q. out' q = out q - of_bool (is_probe q permit)"
  shows "breaker_ok out' (releaseCircuit v permit outcome now later b0)"
proof -
  have pos: "0 \<le> out' q" for q
    using assms(1,3) assms(2) [of q] by (cases "is_probe q permit") (simp_all add: breaker_ok_def)
  have idle: "breaker_ok out' b0" if "\<And>q. \<not> is_probe q permit"
    using breaker_ok_same_out [OF assms(1)] assms(3) that by simp
  show ?thesis
  proof (cases permit)
    case (Denied st ra)
    then show ?thesis using idle by (simp add: releaseCircuit_def is_probe_def)
  next
    case (Allowed x probe st would_reject)
    show ?thesis
    proof (cases x)
      case None
      then show ?thesis using idle Allowed by (simp add: releaseCircuit_def is_probe_def)
    next
      case (Some r)
      obtain m b where m: "mode_now now b0 = (m, b)" by fastforce
      have b: "breaker_ok out b" "m = Off \<longrightarrow> br_circuits b = []" using breaker_ok_mode [OF assms(1) m] by simp_all
      have pr: "is_probe q permit \<longleftrightarrow> probe \<and> \<not> would_reject \<and> q = r" for q using Allowed Some by (auto simp: is_probe_def)
      have off: "breaker_ok out' b" if "m = Off"
        using b that pos by (auto simp: breaker_ok_def live_def)
      have same: "breaker_ok out' b'" if "\<not> (probe \<and> \<not> would_reject)" "breaker_ok out b'" for b'
        using that breaker_ok_same_out [OF that(2), of out'] assms(3) pr by simp
      have probe_case: "breaker_ok out' (release_probe r outcome now later b)" if "probe" "\<not> would_reject"
        by (rule breaker_ok_release_probe [OF b(1)]) (use assms(2,3) pr that in \<open>auto simp: of_bool_def\<close>)
      show ?thesis
        unfolding releaseCircuit_def Allowed Some circuit_permit.case option.case m prod.case Let_def
        using off same [OF _ b(1)] same [OF _ breaker_ok_release_call [OF b(1)]] probe_case by simp
    qed
  qed
qed

lemma peek_breaker: "snd (peekCircuit key now b) = snd (mode_now now b)"
  by (auto simp: peekCircuit_def Let_def case_prod_unfold split: option.split)

lemma breaker_ok_peek: "breaker_ok out b \<Longrightarrow> breaker_ok out (snd (peekCircuit key now b))"
  unfolding peek_breaker using breaker_ok_mode [of out b now "fst (mode_now now b)" "snd (mode_now now b)"] by simp

definition answered :: "mode_state \<Rightarrow> override_result \<times> mode_state \<Rightarrow> bool" where
  "answered ms res \<longleftrightarrow> ms_lastSeen (snd res) = Some (or_mode (fst res))
     \<and> or_told (fst res) = (ms_lastSeen ms \<noteq> Some (or_mode (fst res)))"

lemma answered_answer: "ms_lastSeen ms1 = ms_lastSeen ms \<Longrightarrow> answered ms (override_answer applied now ms1)"
  using effectiveMode_seen [of now ms1]
  by (auto simp: answered_def override_answer_def split: prod.split)

lemma answered_message: "answered ms (handleCircuitOverrideMessage payload now ms)"
  unfolding handleCircuitOverrideMessage_def applyCircuitOverride_def reject_override_def Let_def
  by (auto intro!: answered_answer simp: auditOverride_def split: option.split)

lemma override_ok_message: "override_ok ms \<Longrightarrow> override_ok (snd (handleCircuitOverrideMessage payload now ms))"
  unfolding handleCircuitOverrideMessage_def reject_override_def
  by (auto intro!: override_ok_answer override_ok_audit override_ok_apply split: option.split)

lemma breaker_ok_message:
  assumes "breaker_ok out b"
  shows "breaker_ok out (snd (overrideMessage payload now b))"
proof -
  obtain res ms where h: "handleCircuitOverrideMessage payload now (br_mode b) = (res, ms)" by fastforce
  have "override_ok ms" using override_ok_message [of "br_mode b" payload now] assms h by (simp add: breaker_ok_def)
  moreover have "ms_lastSeen ms = Some (or_mode res)" "or_told res = (ms_lastSeen (br_mode b) \<noteq> Some (or_mode res))"
    using answered_message [of "br_mode b" payload now] h by (simp_all add: answered_def)
  moreover have "breaker_ok out (b\<lparr>br_mode := ms, br_circuits := []\<rparr>)"
    using assms calculation by (simp add: breaker_ok_def entry_of_def live_def)
  moreover have "breaker_ok out (b\<lparr>br_mode := ms\<rparr>)" if "\<not> (or_told res \<and> or_mode res = Off)"
    using assms calculation that unfolding breaker_ok_def entry_of_def live_def by auto
  ultimately show ?thesis by (simp add: overrideMessage_def h Let_def)
qed

lemma outstanding_breaker [simp]: "outstanding (s\<lparr>sn_breaker := b\<rparr>) = outstanding s"
  by (rule ext) (simp add: outstanding_def)

section \<open>Sessions keep the invariant\<close>

lemma outstanding_release:
  assumes "i < length (sn_permits s)" and "\<not> snd (sn_permits s ! i)"
  shows "outstanding (s\<lparr>sn_permits := (sn_permits s)[i := (fst (sn_permits s ! i), True)]\<rparr>) q
    = outstanding s q - of_bool (is_probe q (fst (sn_permits s ! i)))"
proof -
  let ?P = "\<lambda>p. is_probe q (fst p) \<and> \<not> snd p" and ?p = "sn_permits s ! i"
  let ?xs = "take i (sn_permits s)" and ?ys = "drop (Suc i) (sn_permits s)"
  have "filter ?P (sn_permits s) = filter ?P (?xs @ ?p # ?ys)"
    by (rule arg_cong [OF id_take_nth_drop [OF assms(1)]])
  moreover have "(sn_permits s)[i := (fst ?p, True)] = ?xs @ (fst ?p, True) # ?ys"
    by (rule upd_conv_take_nth_drop [OF assms(1)])
  ultimately show ?thesis using assms(2) by (simp add: outstanding_def)
qed

lemma session_ok_step: "session_ok s \<Longrightarrow> session_ok (session_step v op s)"
proof (cases op)
  case (Acquire key now later)
  assume ok: "session_ok s"
  obtain p b where pb: "acquireCircuit key now later (sn_breaker s) = (p, b)" by fastforce
  have "outstanding (session_step v op s) q = outstanding s q + of_bool (is_probe q p)" for q
    by (simp add: Acquire pb outstanding_def)
  then show ?thesis
    using breaker_ok_same_out [OF breaker_ok_acquire [OF _ pb]] ok by (simp add: session_ok_def Acquire pb)
next
  case (Release i outcome now later)
  assume ok: "session_ok s"
  show ?thesis
  proof (cases "i < length (sn_permits s) \<and> \<not> snd (sn_permits s ! i)")
    case True
    let ?p = "fst (sn_permits s ! i)"
    have out: "outstanding (session_step v op s) q = outstanding s q - of_bool (is_probe q ?p)" for q
      using outstanding_release [of i s q] True by (simp add: Release outstanding_def)
    have "1 \<le> outstanding s q" if "is_probe q ?p" for q
    proof -
      have "sn_permits s ! i \<in> set (filter (\<lambda>p. is_probe q (fst p) \<and> \<not> snd p) (sn_permits s))"
        using True that by simp
      then have "0 < length (filter (\<lambda>p. is_probe q (fst p) \<and> \<not> snd p) (sn_permits s))"
        by (rule length_pos_if_in_set)
      then show ?thesis unfolding outstanding_def by linarith
    qed
    then have "breaker_ok (outstanding (session_step v op s)) (releaseCircuit v ?p outcome now later (sn_breaker s))"
      using breaker_ok_release [of "outstanding s" "sn_breaker s" ?p] out ok by (simp add: session_ok_def)
    then show ?thesis using True by (simp add: session_ok_def Release)
  next
    case False
    then have "session_step v op s = s" unfolding Release session_step.simps by (rule if_not_P)
    with ok show ?thesis by simp
  qed
next
  case (Peek key now)
  assume "session_ok s"
  then show ?thesis using breaker_ok_peek [of "outstanding s"] by (simp add: session_ok_def Peek)
next
  case (Message payload now)
  assume "session_ok s"
  then show ?thesis using breaker_ok_message [of "outstanding s"] by (simp add: session_ok_def Message)
qed

lemma session_ok_run: "session_ok s \<Longrightarrow> session_ok (session_run v ops s)"
  by (induction ops arbitrary: s) (simp_all add: session_run_def session_ok_step)

lemma session_ok_start: "session_ok (start_session config)"
  by (simp add: session_ok_def start_session_def start_mode_def breaker_ok_def live_def override_ok_def
      outstanding_def)

text \<open>
  C33. In every session, whatever the interleaving, the clocks and the operators' messages, an
  entry keeps at most 200 samples and waits between 5 and 60 seconds, no more than three probes are counted in a
  window, a window that failed is not left open to calls, and an override in force names its author and reason.
\<close>

theorem breaker_bounds:
  fixes v ops config
  defines "b \<equiv> sn_breaker (session_run v ops (start_session config))"
  shows "list_all (\<lambda>e. length (e_samples e) \<le> 200 \<and> 5000 \<le> e_cooldown_ms e \<and> e_cooldown_ms e \<le> 60000
      \<and> e_probes_started e \<le> 3 \<and> (e_state e = Open \<or> e_probes_failed e < 3)) (br_heap b)
    \<and> (case ms_override (br_mode b) of None \<Rightarrow> True | Some ov \<Rightarrow> ov_actor ov \<noteq> [] \<and> ov_reason ov \<noteq> [])"
proof -
  have ok: "breaker_ok (outstanding (session_run v ops (start_session config))) b"
    using session_ok_run [OF session_ok_start] by (simp add: b_def session_ok_def)
  have "entry_ok e" if "e \<in> set (br_heap b)" for e
    using that breaker_ok_entry [OF ok] by (auto simp: in_set_conv_nth entry_of_def)
  moreover have "override_ok (br_mode b)" using ok by (simp add: breaker_ok_def)
  ultimately show ?thesis
    by (auto simp: list_all_iff override_ok_def dest: entry_ok_simps split: option.splits)
qed

text \<open>
  C32. The half-open state never gets stuck: when every permit has been released and the last opening of the
  circuit is a minute past, the next call is let through, as a call or as a probe.
\<close>

theorem breaker_no_deadlock:
  assumes "s = session_run v ops (start_session config)" and "\<forall>p \<in> set (sn_permits s). snd p"
    and "\<forall>r < length (br_heap (sn_breaker s)). e_opened_at (br_heap (sn_breaker s) ! r) + 60000 \<le> now"
    and "60000 \<le> now"
  shows "case fst (acquireCircuit key now later (sn_breaker s)) of
      Allowed _ _ _ would_reject \<Rightarrow> \<not> would_reject | Denied _ _ \<Rightarrow> False"
proof -
  let ?b0 = "sn_breaker s"
  have ok0: "breaker_ok (outstanding s) ?b0"
    using session_ok_run [OF session_ok_start] assms(1) by (simp add: session_ok_def)
  have none: "outstanding s q = 0" for q using assms(2) by (auto simp: outstanding_def filter_empty_conv)
  obtain m b1 where m: "mode_now now ?b0 = (m, b1)" by fastforce
  show ?thesis
  proof (cases "m = Off")
    case True
    then show ?thesis by (simp add: acquireCircuit_def m)
  next
    case False
    obtain r b where g: "getEntry key b1 = (r, b)" by fastforce
    have b1: "breaker_ok (outstanding s) b1" using breaker_ok_mode [OF ok0 m] by simp
    have "ms_lastSeen (br_mode b1) \<noteq> Some Off" using mode_now_frame(4) [OF m] False by simp
    from breaker_ok_getEntry [OF b1 this g] have b: "breaker_ok (outstanding s) b" "r \<in> live b" by simp_all
    let ?e = "entry_of r b"
    have e: "entry_ok ?e" "excess ?e \<le> 0" using b none by (auto simp: breaker_ok_def)
    have slot: "e_state ?e \<noteq> Open \<Longrightarrow> \<not> HALF_OPEN_MAX_PROBES \<le> e_probes_started ?e"
      using e by (auto simp: entry_ok_def excess_def)
    have "e_opened_at ?e + 60000 \<le> now"
      using g assms(3,4) mode_now_frame(1) [OF m] b(1) b(2)
      by (auto simp: getEntry_def Let_def entry_of_def breaker_ok_def nth_append new_entry_def
          split: option.splits if_splits)
    then have cool: "cooldownRemaining ?e now = 0"
      using entry_ok_simps [OF e(1)] by (simp add: cooldownRemaining_def)
    let ?e1 = "?e\<lparr>e_probes_started := 0, e_probes_failed := 0\<rparr>"
    have fresh: "\<not> HALF_OPEN_MAX_PROBES \<le> e_probes_started
        (entry_of r (transition r Half_Open Cooldown_Elapsed later (put_entry r ?e1 b)))"
      using b by (simp add: transition_entry entry_of_put breaker_ok_def bounds)
    show ?thesis
      using False slot cool fresh
      by (cases "e_state ?e") (simp_all add: acquireCircuit_def m g Let_def acquire_probe_def)
  qed
qed

section \<open>Shadow runs the same machine as enforce\<close>

definition fixed_mode :: "circuit_mode \<Rightarrow> mode_state \<Rightarrow> bool" where
  "fixed_mode m ms \<longleftrightarrow> ms_forced ms = None \<and> ms_override ms = None \<and> baselineMode ms = m"

definition twin_breakers :: "breaker \<Rightarrow> breaker \<Rightarrow> bool" where
  "twin_breakers bs be \<longleftrightarrow> br_heap bs = br_heap be \<and> br_circuits bs = br_circuits be \<and> br_log bs = br_log be
     \<and> fixed_mode Shadow (br_mode bs) \<and> fixed_mode Enforce (br_mode be)"

text \<open>The permit in shadow is the one of enforce, or lets through, marked, a call that enforce denies.\<close>

definition permit_twin :: "circuit_permit \<Rightarrow> circuit_permit \<Rightarrow> bool" where
  "permit_twin ps pe \<longleftrightarrow>
     (case pe of
        Denied st _ \<Rightarrow> (case ps of Allowed (Some _) probe st' wr \<Rightarrow> \<not> probe \<and> wr \<and> st' = st | _ \<Rightarrow> False)
      | Allowed _ _ _ wr \<Rightarrow> ps = pe \<and> \<not> wr)"

lemma mode_now_fixed:
  assumes "fixed_mode m (br_mode b)" and "m \<noteq> Off"
  shows "\<exists>ms. mode_now now b = (m, b\<lparr>br_mode := ms\<rparr>) \<and> fixed_mode m ms"
proof -
  have "\<exists>told ms. effectiveMode now (br_mode b) = (m, told, ms) \<and> fixed_mode m ms"
    using assms(1) by (auto simp: effectiveMode_def resolve_def fixed_mode_def baselineMode_def)
  then obtain told ms where "effectiveMode now (br_mode b) = (m, told, ms)" "fixed_mode m ms" by blast
  then show ?thesis using assms(2) by (auto simp: mode_now_def)
qed

lemma twin_mode:
  assumes "twin_breakers bs be"
  shows "\<exists>bs1 be1. mode_now now bs = (Shadow, bs1) \<and> mode_now now be = (Enforce, be1) \<and> twin_breakers bs1 be1"
  using assms mode_now_fixed [of Shadow bs now] mode_now_fixed [of Enforce be now]
  by (auto simp: twin_breakers_def)

lemma twin_entry: "twin_breakers bs be \<Longrightarrow> entry_of r bs = entry_of r be"
  by (simp add: twin_breakers_def entry_of_def)

lemma twin_put: "twin_breakers bs be \<Longrightarrow> twin_breakers (put_entry r e bs) (put_entry r e be)"
  by (simp add: twin_breakers_def put_entry_def)

lemma twin_transition:
  assumes "twin_breakers bs be"
  shows "twin_breakers (transition r t why later bs) (transition r t why later be)"
proof (cases "e_state (entry_of r be) = t")
  case True
  then show ?thesis using assms twin_entry [OF assms] by (simp add: transition_def)
next
  case False
  obtain bs1 be1 where m: "mode_now later (put_entry r ((entry_of r be)\<lparr>e_state := t\<rparr>) bs) = (Shadow, bs1)"
    "mode_now later (put_entry r ((entry_of r be)\<lparr>e_state := t\<rparr>) be) = (Enforce, be1)" "twin_breakers bs1 be1"
    using twin_mode [OF twin_put [OF assms]] by blast
  then show ?thesis using False twin_entry [OF assms]
    by (simp add: transition_def Let_def twin_breakers_def)
qed

lemma twin_getEntry:
  assumes "twin_breakers bs be"
  shows "\<exists>r bs1 be1. getEntry key bs = (r, bs1) \<and> getEntry key be = (r, be1) \<and> twin_breakers bs1 be1"
  using assms by (auto simp: getEntry_def twin_breakers_def Let_def split: option.split)

lemma permit_twin_refuse: "permit_twin (refuse r st ra True) (refuse r st ra False)"
  by (simp add: permit_twin_def refuse_def)

lemma twin_acquire_probe:
  assumes "twin_breakers bs be"
  shows "permit_twin (fst (acquire_probe r True bs)) (fst (acquire_probe r False be))
    \<and> twin_breakers (snd (acquire_probe r True bs)) (snd (acquire_probe r False be))"
proof (cases "HALF_OPEN_MAX_PROBES \<le> e_probes_started (entry_of r be)")
  case True
  then show ?thesis using assms permit_twin_refuse by (simp add: acquire_probe_def twin_entry [OF assms])
next
  case False
  then show ?thesis using twin_put [OF assms]
    by (simp add: acquire_probe_def Let_def twin_entry [OF assms] permit_twin_def)
qed

lemma twin_acquire:
  assumes "twin_breakers bs be"
  shows "permit_twin (fst (acquireCircuit key now later bs)) (fst (acquireCircuit key now later be))
    \<and> twin_breakers (snd (acquireCircuit key now later bs)) (snd (acquireCircuit key now later be))"
proof -
  obtain bs1 be1 where m: "mode_now now bs = (Shadow, bs1)" "mode_now now be = (Enforce, be1)"
    "twin_breakers bs1 be1" using twin_mode [OF assms] by blast
  obtain r bs2 be2 where g: "getEntry key bs1 = (r, bs2)" "getEntry key be1 = (r, be2)"
    and tw: "twin_breakers bs2 be2" using twin_getEntry [OF m(3)] by blast
  note probe = twin_acquire_probe [OF twin_transition [OF twin_put [OF tw]]] twin_acquire_probe [OF tw]
  show ?thesis
    using probe permit_twin_refuse tw
    by (cases "e_state (entry_of r be2)"; cases "0 < cooldownRemaining (entry_of r be2) now")
      (simp_all add: acquireCircuit_def m g Let_def twin_entry [OF tw],
       simp_all add: permit_twin_def)
qed

lemma twin_release_probe:
  assumes "twin_breakers bs be"
  shows "twin_breakers (release_probe r outcome now later bs) (release_probe r outcome now later be)"
  using twin_put [OF assms] twin_transition [OF twin_put [OF assms]]
  by (cases outcome) (simp_all add: release_probe_def Let_def twin_entry [OF assms])

lemma twin_release_call:
  assumes "twin_breakers bs be"
  shows "twin_breakers (release_call v r outcome now later bs) (release_call v r outcome now later be)"
proof (cases "outcome = Out_Ignored")
  case False
  have rec: "twin_breakers (record_sample r outcome now bs) (record_sample r outcome now be)"
    using twin_put [OF assms] by (simp add: record_sample_def Let_def twin_entry [OF assms])
  obtain w e1 where w: "windowStats (entry_of r (record_sample r outcome now be)) now = (w, e1)" by fastforce
  show ?thesis
    using rec twin_put [OF rec] twin_transition [OF twin_put [OF twin_put [OF rec]]] False
    by (simp add: release_call_def Let_def twin_entry [OF rec] w)
qed (use assms in \<open>simp add: release_call_def\<close>)

lemma twin_release:
  assumes "twin_breakers bs be" and "permit_twin ps pe"
  shows "twin_breakers (releaseCircuit v ps outcome now later bs) (releaseCircuit v pe outcome now later be)"
proof -
  obtain bs1 be1 where m: "mode_now now bs = (Shadow, bs1)" "mode_now now be = (Enforce, be1)"
    "twin_breakers bs1 be1" using twin_mode [OF assms(1)] by blast
  have idle: "twin_breakers bs1 be" using m assms(1) mode_now_fixed [of Shadow bs now]
    by (auto simp: twin_breakers_def)
  show ?thesis
  proof (cases pe)
    case (Denied st ra)
    then show ?thesis using assms(2) idle m
      by (auto simp: permit_twin_def releaseCircuit_def Let_def split: circuit_permit.splits option.splits)
  next
    case (Allowed x probe st wr)
    then have "ps = Allowed x probe st False" "pe = Allowed x probe st False"
      using assms(2) by (simp_all add: permit_twin_def)
    then show ?thesis using assms(1) m twin_release_probe [OF m(3)] twin_release_call [OF m(3)]
      by (cases x) (simp_all add: releaseCircuit_def Let_def)
  qed
qed

definition twin_sessions :: "session \<Rightarrow> session \<Rightarrow> bool" where
  "twin_sessions ss se \<longleftrightarrow> twin_breakers (sn_breaker ss) (sn_breaker se)
     \<and> list_all2 (\<lambda>p q. permit_twin (fst p) (fst q) \<and> snd p = snd q) (sn_permits ss) (sn_permits se)"

definition is_message :: "circuit_op \<Rightarrow> bool" where
  "is_message op = (case op of Message _ _ \<Rightarrow> True | _ \<Rightarrow> False)"

lemma twin_step:
  assumes "twin_sessions ss se" and "\<not> is_message op"
  shows "twin_sessions (session_step v op ss) (session_step v op se)"
proof (cases op)
  case (Acquire key now later)
  then show ?thesis
    using assms(1) twin_acquire [of "sn_breaker ss" "sn_breaker se" key now later]
    by (auto simp: twin_sessions_def split: prod.split intro: list_all2_appendI)
next
  case (Release i outcome now later)
  let ?ps = "sn_permits ss" and ?pe = "sn_permits se"
  have len: "length ?ps = length ?pe" using assms(1) by (auto simp: twin_sessions_def list_all2_lengthD)
  have nth: "i < length ?pe \<Longrightarrow> permit_twin (fst (?ps ! i)) (fst (?pe ! i)) \<and> snd (?ps ! i) = snd (?pe ! i)"
    using assms(1) by (simp add: twin_sessions_def list_all2_conv_all_nth)
  show ?thesis
    using assms(1) nth len twin_release [of "sn_breaker ss" "sn_breaker se" "fst (?ps ! i)" "fst (?pe ! i)"]
    by (auto simp: Release twin_sessions_def intro!: list_all2_update_cong)
next
  case (Peek key now)
  then show ?thesis
    using assms(1) twin_mode [of "sn_breaker ss" "sn_breaker se" now]
    by (auto simp: twin_sessions_def peek_breaker)
qed (use assms(2) in \<open>simp add: is_message_def\<close>)

text \<open>
  C31. Shadow predicts enforce: over any sequence of calls, the breaker in shadow goes
  through the same entries and transitions as in enforce with the same outcomes, grants the same calls
  and probes, lets through, marked, exactly the calls enforce denies, and never denies one.
\<close>

theorem shadow_predicts_enforce:
  fixes v ops
  assumes "list_all (\<lambda>op. \<not> is_message op) ops"
  defines "ss \<equiv> session_run v ops (start_session (Str ''shadow''))"
    and "se \<equiv> session_run v ops (start_session (Str ''enforce''))"
  shows "br_heap (sn_breaker ss) = br_heap (sn_breaker se) \<and> br_circuits (sn_breaker ss) = br_circuits (sn_breaker se)
    \<and> br_log (sn_breaker ss) = br_log (sn_breaker se)
    \<and> list_all2 (\<lambda>p q. permit_twin (fst p) (fst q)) (sn_permits ss) (sn_permits se)"
proof -
  have start: "twin_sessions (start_session (Str ''shadow'')) (start_session (Str ''enforce''))"
    by (simp add: twin_sessions_def start_session_def start_mode_def twin_breakers_def fixed_mode_def
        baselineMode_def isCircuitMode_def the_string_def CIRCUIT_MODES_def)
  have "twin_sessions (session_run v ops s) (session_run v ops s')" if "twin_sessions s s'" for s s'
    using assms(1) that by (induction ops arbitrary: s s') (simp_all add: session_run_def twin_step)
  from this [OF start] show ?thesis
    unfolding ss_def se_def twin_sessions_def twin_breakers_def by (auto elim: list_all2_mono)
qed

section \<open>Probes that outlive their window\<close>

text \<open>
  A permit does not know its window: the failures of probes granted in an earlier window are counted in the
  present one, and after a window that closed the circuit they are counted while it is closed. Three of them,
  out at once over two windows, open a closed circuit as a failed window, whatever its samples say.
\<close>

lemma late_probe_opens_closed_circuit:
  assumes "r < length (br_heap b)" and "e_state (entry_of r b) = Closed" and "e_probes_failed (entry_of r b) = 2"
  shows "e_state (entry_of r (release_probe r Out_Fault now later b)) = Open"
  using assms by (simp add: release_probe_def Let_def transition_entry entry_of_put bounds)

section \<open>Runs\<close>

definition demo_env :: breaker_env where
  "demo_env = \<lparr>be_max_retries = 3, be_pow = (\<lambda>x n. x ^ nat n)\<rparr>"

definition demo_key :: circuit_key where
  "demo_key = (''p'', ''vision'')"

text \<open>Two calls: one that times out and one that succeeds.\<close>

definition demo_calls :: "circuit_op list" where
  "demo_calls = [Acquire demo_key 10 10, Acquire demo_key 11 11, Release 0 Out_Terminal_Fault 12 12, Release 1 Out_Ok 13 13]"

lemma demo_released:
  "list_all snd (sn_permits (session_run demo_env demo_calls (start_session (Str ''enforce''))))
     \<and> list_all (\<lambda>e. e_opened_at e + 60000 \<le> 60010)
         (br_heap (sn_breaker (session_run demo_env demo_calls (start_session (Str ''enforce'')))))"
  by code_simp

theorem breaker_no_deadlock_witness:
  "case fst (acquireCircuit demo_key 60010 60010
       (sn_breaker (session_run demo_env demo_calls (start_session (Str ''enforce''))))) of
     Allowed _ _ _ would_reject \<Rightarrow> \<not> would_reject | Denied _ _ \<Rightarrow> False"
  using demo_released by (intro breaker_no_deadlock [OF refl]) (simp_all add: list_all_iff)

theorem shadow_predicts_enforce_witness:
  "br_heap (sn_breaker (session_run demo_env demo_calls (start_session (Str ''shadow''))))
     = br_heap (sn_breaker (session_run demo_env demo_calls (start_session (Str ''enforce''))))"
proof -
  have "list_all (\<lambda>op. \<not> is_message op) demo_calls" by code_simp
  from shadow_predicts_enforce [OF this] show ?thesis by blast
qed

end
