(* ===== verification/Json_Text.thy ===== *)
theory Json_Text
  imports JS_Value
begin

text \<open>
  The text of JSON values: what \<open>JSON.stringify\<close> writes for a number and a string (ECMA-262,
  Number::toString and QuoteJSONString), a reference printer of whole values, and a reader of the JSON
  grammar (without insignificant white space). Reading a printed value gives the value back. Strings are code
  units below 256, so no surrogate occurs.
\<close>

section \<open>Numbers\<close>

text \<open>\<open>decimal_exponent x\<close> is the \<open>n\<close> with \<open>10 ^ (n - 1) \<le> x < 10 ^ n\<close>, for a positive \<open>x\<close>.\<close>

definition decimal_exponent :: "rat \<Rightarrow> int" where
  "decimal_exponent x =
     (if 1 \<le> x then int (length (decimal (nat \<lfloor>x\<rfloor>)))
      else let j = length (decimal (nat \<lfloor>1 / x\<rfloor>))
           in if x * 10 ^ (j - 1) = 1 then 2 - int j else 1 - int j)"

text \<open>
  The decimal of \<open>k\<close> digits nearest to \<open>x\<close> among those that read back as \<open>x\<close>, as a pair of the digits and
  the exponent of the last one.
\<close>

definition digits_at :: "rat \<Rightarrow> nat \<Rightarrow> (int \<times> int) option" where
  "digits_at x k =
     (let e = decimal_exponent x - int k;
          y = x / pow_int 10 e;
          lo = \<lfloor>y\<rfloor>;
          good = (\<lambda>s. double_of (of_int s * pow_int 10 e) = Fin x);
          up = lo + 1;
          best = (if good lo \<and> (\<not> good up \<or> lo = round_half_even y) then lo else up)
      in if good best then Some (if best = 10 ^ k then (1, e + int k) else (best, e)) else None)"

primrec first_some :: "('a \<Rightarrow> 'b option) \<Rightarrow> 'a list \<Rightarrow> 'b option" where
  "first_some f [] = None"
| "first_some f (x # xs) = (case f x of None \<Rightarrow> first_some f xs | Some y \<Rightarrow> Some y)"

text \<open>
  The shortest digits that read back as \<open>x\<close>. Seventeen are enough for every double; the exact decimal
  expansion stands behind them so that the definition needs no proof of that.
\<close>

definition exact_digits :: "rat \<Rightarrow> int \<times> int" where
  "exact_digits x =
     (let u = unit_exponent x; m = \<lfloor>x / pow_int 2 u\<rfloor>
      in if 0 \<le> u then (m * 2 ^ nat u, 0) else (m * 5 ^ nat (- u), u))"

definition shortest_digits :: "rat \<Rightarrow> int \<times> int" where
  "shortest_digits x = (case first_some (digits_at x) [1..<18] of None \<Rightarrow> exact_digits x | Some d \<Rightarrow> d)"

text \<open>The four layouts of Number::toString, for \<open>s * 10 ^ e\<close>.\<close>

definition positive_text :: "nat \<Rightarrow> int \<Rightarrow> string" where
  "positive_text s e =
     (let ds = decimal s; k = length ds; n = int k + e
      in if int k \<le> n \<and> n \<le> 21 then ds @ replicate (nat e) (CHR ''0'')
         else if 0 < n \<and> n \<le> 21 then take (nat n) ds @ ''.'' @ drop (nat n) ds
         else if - 6 < n \<and> n \<le> 0 then ''0.'' @ replicate (nat (- n)) (CHR ''0'') @ ds
         else take 1 ds @ (if k = 1 then [] else ''.'' @ drop 1 ds) @ ''e''
              @ (if n - 1 < 0 then ''-'' else ''+'') @ decimal (nat \<bar>n - 1\<bar>))"

definition number_text :: "rat \<Rightarrow> string" where
  "number_text x =
     (if x = 0 then ''0''
      else let (s, e) = shortest_digits \<bar>x\<bar>
           in (if x < 0 then ''-'' else []) @ positive_text (nat s) e)"

text \<open>The doubles among the rationals.\<close>

definition is_double :: "rat \<Rightarrow> bool" where
  "is_double x \<longleftrightarrow> double_of \<bar>x\<bar> = Fin \<bar>x\<bar>"

section \<open>A printed number reads back\<close>

lemma digit_value_digit_char: "d < 10 \<Longrightarrow> digit_value (digit_char d) = Some (int d)"
proof -
  assume d: "d < 10"
  have "(of_char (digit_char d) :: int) = int (of_char (digit_char d))"
    by (rule of_nat_of_char [symmetric])
  also have "\<dots> = 48 + int d" using d by (simp add: digit_char_of)
  finally show ?thesis using d by (simp add: digit_value_def)
qed

lemma read_digits_append:
  "read_digits r a (xs @ ys) = (case read_digits r a xs of None \<Rightarrow> None | Some b \<Rightarrow> read_digits r b ys)"
  by (induction xs arbitrary: a) (auto split: option.splits)

lemma read_digits_zeros: "read_digits 10 a (replicate j (CHR ''0'')) = Some (a * 10 ^ j)"
proof (induction j arbitrary: a)
  case (Suc j)
  then show ?case by (simp add: digit_value_def ac_simps)
qed simp

lemma read_digits_decimal: "read_digits 10 0 (decimal n) = Some (int n)"
proof (induction n rule: decimal.induct)
  case (1 n)
  show ?case
  proof (cases "n < 10")
    case True
    then show ?thesis by (simp add: decimal.simps [of n] digit_value_digit_char)
  next
    case False
    have "10 * (int n div 10) + int n mod 10 = int n" by simp
    with False 1 show ?thesis
      by (simp add: decimal.simps [of n] read_digits_append digit_value_digit_char zdiv_int zmod_int)
  qed
qed

lemma decimal_nonempty: "decimal n \<noteq> []"
  by (subst decimal.simps) simp

lemma decimal_length_pos: "0 < length (decimal n)"
  using decimal_nonempty by simp

lemma zero_is_digit: "is_digit (CHR ''0'')"
  by (simp add: is_digit_def)

lemma digits_zeros: "list_all is_digit (replicate j (CHR ''0''))"
  by (simp add: list_all_iff zero_is_digit)

lemma digits_take: "list_all p xs \<Longrightarrow> list_all p (take n xs)"
  by (auto simp: list_all_iff dest: in_set_takeD)

lemma digits_drop: "list_all p xs \<Longrightarrow> list_all p (drop n xs)"
  by (auto simp: list_all_iff dest: in_set_dropD)

lemma takeWhile_all: "list_all p xs \<Longrightarrow> ys = [] \<or> \<not> p (hd ys) \<Longrightarrow> takeWhile p (xs @ ys) = xs"
  by (induction xs) (cases ys; auto)+

lemma dropWhile_all: "list_all p xs \<Longrightarrow> ys = [] \<or> \<not> p (hd ys) \<Longrightarrow> dropWhile p (xs @ ys) = ys"
  by (induction xs) (cases ys; auto)+

lemma not_digits: "\<not> is_digit (CHR ''.'')" "\<not> is_digit (CHR ''e'')" "\<not> is_digit (CHR ''I'')"
  by (simp_all add: is_digit_def)

lemma read_exponent_text:
  "read_exponent (CHR ''e'' # (if neg then ''-'' else ''+'') @ decimal n)
     = Some (if neg then - int n else int n)"
  by (simp add: read_exponent_def read_digits_decimal decimal_nonempty)

lemma unsigned_literal_parts:
  assumes "list_all is_digit W" and "list_all is_digit P" and "W \<noteq> []"
    and "E = [] \<or> hd E = CHR ''e''"
    and "read_exponent E = Some x" and "read_digits 10 0 (W @ P) = Some m"
  shows "unsigned_literal (W @ (if P = [] then [] else CHR ''.'' # P) @ E)
    = double_of (of_int m * pow_int 10 (x - int (length P)))"
proof -
  let ?t = "if P = [] then [] else CHR ''.'' # P"
  have hdE: "E = [] \<or> \<not> is_digit (hd E)" using assms(4) not_digits by auto
  have tail: "?t @ E = [] \<or> \<not> is_digit (hd (?t @ E))" using hdE not_digits by auto
  have whole: "takeWhile is_digit (W @ ?t @ E) = W" "dropWhile is_digit (W @ ?t @ E) = ?t @ E"
    using takeWhile_all [OF assms(1) tail] dropWhile_all [OF assms(1) tail] by auto
  have part: "takeWhile is_digit (P @ E) = P" "dropWhile is_digit (P @ E) = E"
    using takeWhile_all [OF assms(2) hdE] dropWhile_all [OF assms(2) hdE] by auto
  have "is_digit (hd W)" using assms(1,3) by (cases W) auto
  then have noinf: "W @ ?t @ E \<noteq> ''Infinity''" using assms(3) not_digits by (cases W) auto
  show ?thesis
  proof (cases "P = []")
    case True
    have E: "E = [] \<or> (\<exists>cs. E = CHR ''e'' # cs)" using assms(4) by (cases E) auto
    from True noinf whole assms E show ?thesis
      by (auto simp: unsigned_literal_def Let_def)
  next
    case False
    with noinf whole part assms show ?thesis
      by (simp add: unsigned_literal_def Let_def)
  qed
qed

lemma pow_int_add: "b \<noteq> 0 \<Longrightarrow> pow_int b (i + j) = pow_int b i * pow_int b j"
proof -
  assume b: "b \<noteq> 0"
  have eq: "pow_int b i = b powi i" for i
    by (simp add: pow_int_def power_int_def divide_inverse power_inverse)
  show ?thesis using b by (simp add: eq power_int_add)
qed

lemma pow_int_nat [simp]: "pow_int b (int n) = b ^ n"
  by (simp add: pow_int_def)

lemma pow_int_nonneg: "0 \<le> e \<Longrightarrow> pow_int b e = b ^ nat e"
  by (simp add: pow_int_def)

lemma pow_int_pos: "0 < b \<Longrightarrow> 0 < pow_int b e"
  by (simp add: pow_int_def)

lemma digits_at_good:
  assumes "digits_at x k = Some (s, e)" and "0 < x"
  shows "0 < s \<and> double_of (of_int s * pow_int 10 e) = Fin x"
proof -
  let ?e = "decimal_exponent x - int k"
  let ?y = "x / pow_int 10 ?e"
  let ?good = "\<lambda>s. double_of (of_int s * pow_int 10 ?e) = Fin x"
  define b where "b = (if ?good \<lfloor>?y\<rfloor> \<and> (\<not> ?good (\<lfloor>?y\<rfloor> + 1) \<or> \<lfloor>?y\<rfloor> = round_half_even ?y)
    then \<lfloor>?y\<rfloor> else \<lfloor>?y\<rfloor> + 1)"
  have "digits_at x k = (if ?good b then Some (if b = 10 ^ k then (1, ?e + int k) else (b, ?e)) else None)"
    unfolding digits_at_def Let_def b_def by (rule refl)
  then have "?good b" and "(s, e) = (if b = 10 ^ k then (1, ?e + int k) else (b, ?e))"
    using assms(1) by (simp_all split: if_split_asm)
  moreover have "b = \<lfloor>?y\<rfloor> \<or> b = \<lfloor>?y\<rfloor> + 1" by (simp add: b_def)
  ultimately have b: "b = \<lfloor>?y\<rfloor> \<or> b = \<lfloor>?y\<rfloor> + 1" "?good b"
    "(s, e) = (if b = 10 ^ k then (1, ?e + int k) else (b, ?e))" by blast+
  have "0 \<le> ?y" using assms(2) by (simp add: pow_int_pos less_imp_le)
  then have "0 \<le> b" using b(1) by auto
  moreover have "b \<noteq> 0" using b(2) assms(2) by (auto simp: double_of_def)
  ultimately have "0 < b" by simp
  moreover have "pow_int 10 (?e + int k) = (10 :: rat) ^ k * pow_int 10 ?e"
    by (subst pow_int_add) (simp_all add: ac_simps)
  ultimately show ?thesis using b(2,3) by (cases "b = 10 ^ k") simp_all
qed

lemma double_unit:
  assumes "is_double x" and "0 < x"
  obtains m where "x = of_int m * pow_int 2 (unit_exponent x)"
proof -
  from assms have "double_of x = Fin x" and "x \<noteq> 0" by (simp_all add: is_double_def)
  then have "of_int (round_half_even (x / pow_int 2 (unit_exponent x))) * pow_int 2 (unit_exponent x) = x"
    unfolding double_of_def Let_def by (auto split: if_splits)
  then show ?thesis using that by metis
qed

lemma exact_digits_value:
  assumes "is_double x" and "0 < x" and "exact_digits x = (s, e)"
  shows "0 < s \<and> of_int s * pow_int 10 e = x"
proof -
  let ?u = "unit_exponent x"
  obtain m where m: "x = of_int m * pow_int 2 ?u" using double_unit [OF assms(1,2)] .
  have p: "0 < pow_int (2 :: rat) ?u" by (simp add: pow_int_pos)
  then have quot: "x / pow_int 2 ?u = of_int m" using m by (simp add: field_simps)
  have "(0 :: rat) < of_int m" using quot assms(2) p by (metis divide_pos_pos)
  then have "0 < m" by simp
  have se: "(s, e) = (if 0 \<le> ?u then (m * 2 ^ nat ?u, 0) else (m * 5 ^ nat (- ?u), ?u))"
    using assms(3) unfolding exact_digits_def Let_def quot floor_of_int by (rule sym)
  show ?thesis
  proof (cases "0 \<le> ?u")
    case True
    then show ?thesis using se m \<open>0 < m\<close> by (simp add: pow_int_def)
  next
    case False
    define j where "j = nat (- ?u)"
    have "(5 :: rat) ^ j * (1 / 10 ^ j) = 1 / 2 ^ j"
      by (simp flip: power_divide add: field_simps power_mult_distrib [symmetric])
    then have "of_int m * 5 ^ j * (1 / 10 ^ j) = (of_int m * (1 / 2 ^ j) :: rat)"
      by (metis mult.assoc)
    then show ?thesis using se m False \<open>0 < m\<close> by (simp add: pow_int_def j_def)
  qed
qed

lemma first_some_Some: "first_some f xs = Some y \<Longrightarrow> \<exists>x \<in> set xs. f x = Some y"
  by (induction xs) (auto split: option.splits)

lemma shortest_digits_value:
  assumes "is_double x" and "0 < x" and "shortest_digits x = (s, e)"
  shows "0 < s \<and> double_of (of_int s * pow_int 10 e) = Fin x"
proof (cases "first_some (digits_at x) [1..<18]")
  case None
  then have "exact_digits x = (s, e)" using assms(3) by (simp add: shortest_digits_def)
  with exact_digits_value [OF assms(1,2)] assms(1,2) show ?thesis by (simp add: is_double_def)
next
  case (Some d)
  then have "first_some (digits_at x) [1..<18] = Some (s, e)" using assms(3) by (simp add: shortest_digits_def)
  from first_some_Some [OF this] digits_at_good [OF _ assms(2)] show ?thesis by blast
qed

text \<open>Each layout denotes \<open>s * 10 ^ e\<close>.\<close>

lemma positive_text_value:
  "unsigned_literal (positive_text s e) = double_of (of_nat s * pow_int 10 e)"
proof -
  define ds where "ds = decimal s"
  define n where "n = int (length ds) + e"
  have digits: "list_all is_digit ds" unfolding ds_def by (rule decimal_digits)
  have pos: "0 < length ds" unfolding ds_def by (rule decimal_length_pos)
  have rd: "read_digits 10 0 ds = Some (int s)" unfolding ds_def by (rule read_digits_decimal)
  note parts = unsigned_literal_parts
  have layout: "positive_text s e =
      (if int (length ds) \<le> n \<and> n \<le> 21 then ds @ replicate (nat e) (CHR ''0'')
       else if 0 < n \<and> n \<le> 21 then take (nat n) ds @ ''.'' @ drop (nat n) ds
       else if - 6 < n \<and> n \<le> 0 then ''0.'' @ replicate (nat (- n)) (CHR ''0'') @ ds
       else take 1 ds @ (if length ds = 1 then [] else ''.'' @ drop 1 ds) @ ''e''
            @ (if n - 1 < 0 then ''-'' else ''+'') @ decimal (nat \<bar>n - 1\<bar>))"
    unfolding positive_text_def Let_def ds_def n_def ..
  consider (integer) "int (length ds) \<le> n" "n \<le> 21"
    | (point) "\<not> (int (length ds) \<le> n \<and> n \<le> 21)" "0 < n" "n \<le> 21"
    | (small) "- 6 < n" "n \<le> 0"
    | (exponent) "\<not> (int (length ds) \<le> n \<and> n \<le> 21)" "\<not> (0 < n \<and> n \<le> 21)" "\<not> (- 6 < n \<and> n \<le> 0)"
    by linarith
  then show ?thesis
  proof cases
    case integer
    have "unsigned_literal (ds @ replicate (nat e) (CHR ''0''))
        = double_of (of_int (int s * 10 ^ nat e) * pow_int 10 0)"
      using digits pos rd parts [of "ds @ replicate (nat e) (CHR ''0'')" "[]" "[]" 0 "int s * 10 ^ nat e"]
      by (simp add: digits_zeros read_digits_append read_digits_zeros read_exponent_def)
    then show ?thesis using integer unfolding layout by (simp add: n_def pow_int_nonneg)
  next
    case point
    have d: "drop (nat n) ds \<noteq> []" using point by simp
    have "unsigned_literal (take (nat n) ds @ (if drop (nat n) ds = [] then [] else CHR ''.'' # drop (nat n) ds) @ [])
        = double_of (of_int (int s) * pow_int 10 (0 - int (length (drop (nat n) ds))))"
      using digits pos rd point
      by (intro parts) (auto simp: digits_take digits_drop read_exponent_def)
    moreover have "0 - int (length (drop (nat n) ds)) = e" using point by (simp add: n_def)
    ultimately show ?thesis using point d unfolding layout by simp
  next
    case small
    let ?P = "replicate (nat (- n)) (CHR ''0'') @ ds"
    have "?P \<noteq> []" using pos by simp
    have "unsigned_literal (''0'' @ (if ?P = [] then [] else CHR ''.'' # ?P) @ [])
        = double_of (of_int (int s) * pow_int 10 (0 - int (length ?P)))"
    proof (intro parts)
      have "read_digits 10 0 ''0'' = Some 0" by (simp add: digit_value_def)
      then show "read_digits 10 0 (''0'' @ ?P) = Some (int s)"
        unfolding read_digits_append read_digits_zeros by (simp add: rd)
    qed (use digits in \<open>simp_all add: zero_is_digit digits_zeros read_exponent_def\<close>)
    moreover have "0 - int (length ?P) = e" using small by (simp add: n_def)
    moreover have "\<not> (int (length ds) \<le> n \<and> n \<le> 21)" using small pos by linarith
    ultimately show ?thesis using small pos unfolding layout by (simp only: if_not_P) simp
  next
    case exponent
    let ?E = "CHR ''e'' # (if n - 1 < 0 then ''-'' else ''+'') @ decimal (nat \<bar>n - 1\<bar>)"
    let ?P = "drop 1 ds"
    have "unsigned_literal (take 1 ds @ (if ?P = [] then [] else CHR ''.'' # ?P) @ ?E)
        = double_of (of_int (int s) * pow_int 10 ((n - 1) - int (length ?P)))"
    proof (intro parts)
      show "read_exponent ?E = Some (n - 1)" unfolding read_exponent_text by simp
      show "read_digits 10 0 (take 1 ds @ ?P) = Some (int s)" using rd by simp
      show "take 1 ds \<noteq> []" using pos by simp
    qed (use digits in \<open>simp_all add: digits_take digits_drop\<close>)
    moreover have "(n - 1) - int (length ?P) = e" using pos by (simp add: n_def of_nat_diff Suc_le_eq)
    moreover have "(if ?P = [] then [] else CHR ''.'' # ?P) = (if length ds = 1 then [] else ''.'' @ ?P)"
      using pos by (cases ds) auto
    moreover have "\<not> (int (length ds) \<le> n \<and> n \<le> 21)" by (rule exponent(1))
    ultimately show ?thesis using exponent unfolding layout by (simp only: if_False append_Cons append_Nil) simp
  qed
qed

definition number_char :: "char \<Rightarrow> bool" where
  "number_char c = (is_digit c \<or> c \<in> set ''-+.eE'')"

lemma digits_number: "list_all is_digit s \<Longrightarrow> list_all number_char s"
  by (auto simp: list_all_iff number_char_def)

lemma positive_text_shape:
  "list_all number_char (positive_text s e)" "\<exists>c cs. positive_text s e = c # cs \<and> is_digit c"
proof -
  obtain d ds where ds: "decimal s = d # ds" using decimal_nonempty by (cases "decimal s") auto
  have dg: "is_digit d" "list_all is_digit ds" using decimal_digits [of s] unfolding ds by auto
  have num: "number_char (CHR ''.'')" "number_char (CHR ''e'')" "number_char (CHR ''+'')"
    "number_char (CHR ''-'')" "number_char (CHR ''0'')" "list_all number_char (d # ds)"
    using digits_number [of "d # ds"] dg by (simp_all add: number_char_def zero_is_digit)
  have part: "list_all number_char (take i (d # ds))" "list_all number_char (drop i (d # ds))" for i
    using num(6) by (rule digits_take digits_drop)+
  have zeros: "list_all number_char (replicate i (CHR ''0''))" for i
    by (rule digits_number [OF digits_zeros])
  show "list_all number_char (positive_text s e)"
    using num part zeros digits_number [OF decimal_digits] part(2) [of 1]
    unfolding positive_text_def ds Let_def by auto
  show "\<exists>c cs. positive_text s e = c # cs \<and> is_digit c"
    unfolding positive_text_def ds Let_def
    using dg zero_is_digit by (auto simp: take_Cons' split: if_splits)
qed

lemma number_text_shape:
  "list_all number_char (number_text x)" "\<exists>c cs. number_text x = c # cs \<and> number_char c"
proof -
  obtain s e where se: "shortest_digits \<bar>x\<bar> = (s, e)" by (cases "shortest_digits \<bar>x\<bar>")
  have "number_char (CHR ''-'')" "number_char (CHR ''0'')" by (simp_all add: number_char_def zero_is_digit)
  then show all: "list_all number_char (number_text x)"
    using positive_text_shape(1) by (simp add: number_text_def se)
  have "number_text x \<noteq> []" using positive_text_shape(2) [of "nat s" e] by (auto simp: number_text_def se)
  with all show "\<exists>c cs. number_text x = c # cs \<and> number_char c" by (cases "number_text x") auto
qed

lemma number_text_value:
  assumes "is_double x"
  shows "signed_literal (number_text x) = Fin x"
proof (cases "x = 0")
  case True
  have "decimal 0 = ''0''" by (simp add: decimal.simps digit_char_def char_of_def bit_0)
  then have "''0'' = positive_text 0 0" by (simp add: positive_text_def)
  then have "unsigned_literal ''0'' = double_of (of_nat 0 * pow_int 10 0)"
    using positive_text_value by metis
  with True show ?thesis by (simp add: number_text_def signed_literal_def double_of_def)
next
  case False
  obtain s e where se: "shortest_digits \<bar>x\<bar> = (s, e)" by (cases "shortest_digits \<bar>x\<bar>")
  have "is_double \<bar>x\<bar>" and "0 < \<bar>x\<bar>" using assms False by (simp_all add: is_double_def)
  from shortest_digits_value [OF this se]
  have "0 < s" and "double_of (of_int s * pow_int 10 e) = Fin \<bar>x\<bar>" by auto
  moreover obtain c cs where c: "positive_text (nat s) e = c # cs" "is_digit c"
    using positive_text_shape(2) by blast
  ultimately have v: "unsigned_literal (c # cs) = Fin \<bar>x\<bar>"
    using positive_text_value [of "nat s" e] by simp
  have "c \<noteq> CHR ''-''" "c \<noteq> CHR ''+''" using c(2) by (auto simp: is_digit_def)
  with v c(1) False show ?thesis by (auto simp: number_text_def signed_literal_def se)
qed

section \<open>Strings\<close>

definition hex_char :: "nat \<Rightarrow> char" where
  "hex_char n = (if n < 10 then digit_char n else char_of (87 + n))"

definition quote_char :: "char \<Rightarrow> string" where
  "quote_char c =
     (let n = of_char c :: nat; bs = CHR 0x5C
      in if n = 34 then [bs, CHR 0x22]
         else if c = bs then [bs, bs]
         else if n = 8 then [bs, CHR ''b'']
         else if n = 12 then [bs, CHR ''f'']
         else if n = 10 then [bs, CHR ''n'']
         else if n = 13 then [bs, CHR ''r'']
         else if n = 9 then [bs, CHR ''t'']
         else if n < 32 then [bs, CHR ''u'', CHR ''0'', CHR ''0'', hex_char (n div 16), hex_char (n mod 16)]
         else [c])"

definition string_text :: "string \<Rightarrow> string" where
  "string_text s = CHR 0x22 # concat (map quote_char s) @ [CHR 0x22]"

definition unescape :: "char \<Rightarrow> char option" where
  "unescape e =
     (if e = CHR 0x22 \<or> e = CHR 0x5C \<or> e = CHR ''/'' then Some e
      else if e = CHR ''b'' then Some (char_of (8 :: nat))
      else if e = CHR ''f'' then Some (char_of (12 :: nat))
      else if e = CHR ''n'' then Some (char_of (10 :: nat))
      else if e = CHR ''r'' then Some (char_of (13 :: nat))
      else if e = CHR ''t'' then Some (char_of (9 :: nat)) else None)"

text \<open>The rest of a string after its opening quote.\<close>

fun read_string :: "string \<Rightarrow> (string \<times> string) option" where
  "read_string [] = None"
| "read_string (c # cs) =
     (if c = CHR 0x22 then Some ([], cs)
      else if c = CHR 0x5C then
        (case cs of
           [] \<Rightarrow> None
         | e # r \<Rightarrow>
             if e = CHR ''u'' then
               (case r of
                  h1 # h2 # h3 # h4 # r' \<Rightarrow>
                    (case read_digits 16 0 [h1, h2, h3, h4] of
                       Some n \<Rightarrow> if n < 256 then map_option (apfst (Cons (char_of (nat n)))) (read_string r') else None
                     | None \<Rightarrow> None)
                | _ \<Rightarrow> None)
             else (case unescape e of
                     Some d \<Rightarrow> map_option (apfst (Cons d)) (read_string r)
                   | None \<Rightarrow> None))
      else if (of_char c :: nat) < 32 then None
      else map_option (apfst (Cons c)) (read_string cs))"

lemma digit_value_hex_char:
  assumes "d < 16"
  shows "digit_value (hex_char d) = Some (int d)"
proof (cases "d < 10")
  case True
  then show ?thesis by (simp add: hex_char_def digit_value_digit_char)
next
  case False
  have "(of_char (hex_char d) :: int) = int (of_char (hex_char d))"
    by (rule of_nat_of_char [symmetric])
  also have "\<dots> = 87 + int d"
    using False assms by (simp add: hex_char_def of_char_of take_bit_eq_mod)
  finally show ?thesis using False assms by (simp add: digit_value_def)
qed

lemma read_string_quote_char:
  "read_string (quote_char c @ r) = map_option (apfst (Cons c)) (read_string r)"
proof -
  define n where "n = (of_char c :: nat)"
  have c: "c = char_of n" unfolding n_def by simp
  have chars: "char_of (8 :: nat) = CHR 0x08" "char_of (9 :: nat) = CHR 0x09" "char_of (10 :: nat) = CHR 0x0A"
    "char_of (12 :: nat) = CHR 0x0C" "char_of (13 :: nat) = CHR 0x0D" "char_of (34 :: nat) = CHR 0x22"
    "char_of (92 :: nat) = CHR 0x5C"
    by (simp_all add: char_of_def bit_0)
  have ne: "c \<noteq> CHR 0x22" if "n \<noteq> 34" using that by (auto simp: n_def)
  have ne': "c \<noteq> CHR 0x5C" if "n \<noteq> 92" using that by (auto simp: n_def)
  have hex: "read_digits 16 0 [CHR ''0'', CHR ''0'', hex_char (n div 16), hex_char (n mod 16)] = Some (int n)"
    if "n < 32"
  proof -
    have "16 * int (n div 16) + int (n mod 16) = int n"
      by (metis mult_div_mod_eq of_nat_add of_nat_mult of_nat_numeral)
    moreover have "digit_value (CHR ''0'') = Some 0" by (simp add: digit_value_def)
    moreover have "n div 16 < 16" using that by simp
    ultimately show ?thesis by (simp add: digit_value_hex_char)
  qed
  show ?thesis
  proof (cases "n \<in> {34, 92, 8, 12, 10, 13, 9}")
    case True
    then have "c \<in> {CHR 0x22, CHR 0x5C, CHR 0x08, CHR 0x0C, CHR 0x0A, CHR 0x0D, CHR 0x09}"
      unfolding c using chars by auto
    then show ?thesis by (auto simp: quote_char_def Let_def unescape_def chars)
  next
    case False
    then have q: "quote_char c = (if n < 32 then [CHR 0x5C, CHR ''u'', CHR ''0'', CHR ''0'', hex_char (n div 16),
        hex_char (n mod 16)] else [c])"
      using ne' unfolding quote_char_def Let_def n_def [symmetric] by simp
    show ?thesis
    proof (cases "n < 32")
      case True
      then show ?thesis unfolding q using hex by (simp add: c del: read_digits.simps)
    next
      case False
      then show ?thesis using \<open>n \<notin> _\<close> ne ne' unfolding q by (simp add: n_def)
    qed
  qed
qed

lemma read_string_text: "read_string (concat (map quote_char s) @ CHR 0x22 # r) = Some (s, r)"
  by (induction s) (simp_all add: read_string_quote_char)

section \<open>Values\<close>

fun commas :: "string list \<Rightarrow> string" where
  "commas [] = []"
| "commas [x] = x"
| "commas (x # xs) = x @ CHR '','' # commas xs"

text \<open>
  The reference printer: \<open>JSON.stringify\<close> of a value that is JSON (\<open>json\<close>), the properties of an object
  in the order they have.
\<close>

fun json_text :: "js \<Rightarrow> string" where
  "json_text Undef = ''null''"
| "json_text Null = ''null''"
| "json_text (Bool b) = (if b then ''true'' else ''false'')"
| "json_text (Num x) = (case x of Fin q \<Rightarrow> number_text q | _ \<Rightarrow> ''null'')"
| "json_text (Str s) = string_text s"
| "json_text (Arr xs) = CHR ''['' # commas (map json_text xs) @ '']''"
| "json_text (Obj kvs) =
     CHR ''{'' # commas (map (\<lambda>p. string_text (fst p) @ CHR '':'' # json_text (snd p)) kvs) @ ''}''"

fun json :: "js \<Rightarrow> bool" where
  "json Undef = False"
| "json (Num x) = (case x of Fin q \<Rightarrow> is_double q | _ \<Rightarrow> False)"
| "json (Arr xs) = list_all json xs"
| "json (Obj kvs) = list_all (\<lambda>p. json (snd p)) kvs"
| "json v = True"

text \<open>
  The reader, by recursive descent; its fuel bounds the nesting, and the length of the text is enough.
\<close>

definition read_literal :: "string \<Rightarrow> js \<Rightarrow> string \<Rightarrow> (js \<times> string) option" where
  "read_literal w v s = (if startsWith s w then Some (v, drop (length w) s) else None)"

fun read_value :: "nat \<Rightarrow> string \<Rightarrow> (js \<times> string) option"
  and read_elements :: "nat \<Rightarrow> string \<Rightarrow> (js list \<times> string) option"
  and read_members :: "nat \<Rightarrow> string \<Rightarrow> ((string \<times> js) list \<times> string) option" where
  "read_value 0 s = None"
| "read_value (Suc n) [] = None"
| "read_value (Suc n) (c # cs) =
     (if c = CHR 0x22 then map_option (apfst Str) (read_string cs)
      else if c = CHR ''['' then
        (case cs of d # r \<Rightarrow> if d = CHR '']'' then Some (Arr [], r)
                             else map_option (apfst Arr) (read_elements n cs)
                  | [] \<Rightarrow> None)
      else if c = CHR ''{'' then
        (case cs of d # r \<Rightarrow> if d = CHR ''}'' then Some (Obj [], r)
                             else map_option (apfst Obj) (read_members n cs)
                  | [] \<Rightarrow> None)
      else if c = CHR ''n'' then read_literal ''null'' Null (c # cs)
      else if c = CHR ''t'' then read_literal ''true'' (Bool True) (c # cs)
      else if c = CHR ''f'' then read_literal ''false'' (Bool False) (c # cs)
      else if number_char c then
        (case signed_literal (takeWhile number_char (c # cs)) of
           NaN \<Rightarrow> None
         | x \<Rightarrow> Some (Num x, dropWhile number_char (c # cs)))
      else None)"
| "read_elements 0 s = None"
| "read_elements (Suc n) s =
     (case read_value n s of
        None \<Rightarrow> None
      | Some (v, rest) \<Rightarrow>
          (case rest of
             [] \<Rightarrow> None
           | d # r \<Rightarrow> if d = CHR '']'' then Some ([v], r)
                      else if d = CHR '','' then map_option (apfst (Cons v)) (read_elements n r)
                      else None))"
| "read_members 0 s = None"
| "read_members (Suc n) s =
     (case s of
        [] \<Rightarrow> None
      | q # cs \<Rightarrow>
          if q \<noteq> CHR 0x22 then None
          else (case read_string cs of
                  None \<Rightarrow> None
                | Some (k, r) \<Rightarrow>
                    (case r of
                       [] \<Rightarrow> None
                     | d # r' \<Rightarrow>
                         if d \<noteq> CHR '':'' then None
                         else (case read_value n r' of
                                 None \<Rightarrow> None
                               | Some (v, rest) \<Rightarrow>
                                   (case rest of
                                      [] \<Rightarrow> None
                                    | e # r2 \<Rightarrow>
                                        if e = CHR ''}'' then Some ([(k, v)], r2)
                                        else if e = CHR '',''
                                        then map_option (apfst (Cons (k, v))) (read_members n r2)
                                        else None)))))"

definition read_json :: "string \<Rightarrow> js option" where
  "read_json s =
     (case read_value (length s) s of
        Some (v, rest) \<Rightarrow> if rest = [] then Some v else None
      | None \<Rightarrow> None)"

section \<open>A printed value reads back\<close>

definition ends :: "string \<Rightarrow> bool" where
  "ends rest \<longleftrightarrow> rest = [] \<or> \<not> number_char (hd rest)"

lemma ends_simps [simp]:
  "ends []" "ends (CHR '','' # r)" "ends (CHR '']'' # r)" "ends (CHR ''}'' # r)"
  by (simp_all add: ends_def number_char_def is_digit_def)

lemma first_chars:
  "\<not> number_char (CHR 0x22)" "\<not> number_char (CHR ''['')" "\<not> number_char (CHR ''{'')"
  "\<not> number_char (CHR ''n'')" "\<not> number_char (CHR ''t'')" "\<not> number_char (CHR ''f'')"
  by (simp_all add: number_char_def is_digit_def)

lemma json_text_first:
  "\<exists>c cs. json_text v = c # cs \<and> c \<noteq> CHR '']''"
proof (cases v)
  case (Num x)
  then show ?thesis using number_text_shape(2)
    by (cases x) (fastforce simp: number_char_def is_digit_def)+
qed (auto simp: string_text_def)

lemma commas_Cons: "commas (x # xs) = x @ (if xs = [] then [] else CHR '','' # commas xs)"
  by (cases xs) auto

lemma read_number:
  assumes "is_double q" and "ends rest"
  shows "read_value (Suc n) (number_text q @ rest) = Some (Num (Fin q), rest)"
proof -
  obtain c cs where c: "number_text q = c # cs" "number_char c" using number_text_shape(2) by blast
  have all: "list_all number_char (number_text q)" by (rule number_text_shape)
  have "takeWhile number_char (number_text q @ rest) = number_text q"
    "dropWhile number_char (number_text q @ rest) = rest"
    using takeWhile_all [OF all] dropWhile_all [OF all] assms(2) by (auto simp: ends_def)
  moreover have "signed_literal (number_text q) = Fin q" by (rule number_text_value [OF assms(1)])
  moreover have "c \<notin> {CHR 0x22, CHR ''['', CHR ''{'', CHR ''n'', CHR ''t'', CHR ''f''}"
    using c(2) first_chars by auto
  ultimately show ?thesis using c by simp
qed

lemma read_elements_text:
  assumes "xs \<noteq> []"
    and "\<And>x n rest. x \<in> set xs \<Longrightarrow> length (json_text x) \<le> n \<Longrightarrow> ends rest \<Longrightarrow>
           read_value n (json_text x @ rest) = Some (x, rest)"
    and "length (commas (map json_text xs)) < n"
  shows "read_elements n (commas (map json_text xs) @ CHR '']'' # rest) = Some (xs, rest)"
  using assms
proof (induction xs arbitrary: n)
  case (Cons x xs)
  from Cons.prems(3) obtain m where n: "n = Suc m" by (cases n) auto
  have "length (json_text x) \<le> m" using Cons.prems(3) by (simp add: n commas_Cons)
  then have x: "ends r \<Longrightarrow> read_value m (json_text x @ r) = Some (x, r)" for r
    using Cons.prems(2) by simp
  show ?case
  proof (cases "xs = []")
    case True
    then show ?thesis by (simp add: n x)
  next
    case False
    have "read_elements m (commas (map json_text xs) @ CHR '']'' # rest) = Some (xs, rest)"
      using Cons.IH [OF False, of m] Cons.prems(2,3) False by (simp add: n commas_Cons)
    then show ?thesis using False by (simp add: n commas_Cons x)
  qed
qed simp

lemma read_members_text:
  assumes "kvs \<noteq> []"
    and "\<And>p n rest. p \<in> set kvs \<Longrightarrow> length (json_text (snd p)) \<le> n \<Longrightarrow> ends rest \<Longrightarrow>
           read_value n (json_text (snd p) @ rest) = Some (snd p, rest)"
    and "length (commas (map (\<lambda>p. string_text (fst p) @ CHR '':'' # json_text (snd p)) kvs)) < n"
  shows "read_members n
      (commas (map (\<lambda>p. string_text (fst p) @ CHR '':'' # json_text (snd p)) kvs) @ CHR ''}'' # rest)
    = Some (kvs, rest)"
  using assms
proof (induction kvs arbitrary: n)
  case (Cons p kvs)
  let ?ms = "commas (map (\<lambda>p. string_text (fst p) @ CHR '':'' # json_text (snd p)) kvs)"
  from Cons.prems(3) obtain m where n: "n = Suc m" by (cases n) auto
  have "length (json_text (snd p)) \<le> m" using Cons.prems(3) by (simp add: n commas_Cons)
  then have v: "ends r \<Longrightarrow> read_value m (json_text (snd p) @ r) = Some (snd p, r)" for r
    using Cons.prems(2) by simp
  have head: "read_members n (string_text (fst p) @ CHR '':'' # json_text (snd p) @ c # r)
      = (if c = CHR ''}'' then Some ([p], r)
         else if c = CHR '','' then map_option (apfst (Cons p)) (read_members m r) else None)"
    if "ends (c # r)" for c r
    using v [OF that] by (simp add: n string_text_def read_string_text)
  show ?case
  proof (cases "kvs = []")
    case True
    then show ?thesis by (simp add: head del: read_members.simps)
  next
    case False
    have "read_members m (?ms @ CHR ''}'' # rest) = Some (kvs, rest)"
      using Cons.IH [OF False, of m] Cons.prems(2,3) False by (simp add: n commas_Cons)
    then show ?thesis using False by (simp add: commas_Cons head del: read_members.simps)
  qed
qed simp

lemma json_text_length: "0 < length (json_text v)"
  using json_text_first [of v] by auto

lemma read_value_text:
  "json v \<Longrightarrow> length (json_text v) \<le> n \<Longrightarrow> ends rest \<Longrightarrow>
     read_value n (json_text v @ rest) = Some (v, rest)"
proof (induction v arbitrary: n rest rule: json.induct)
  case (2 x)
  then obtain q m where "x = Fin q" "is_double q" "n = Suc m"
    using json_text_length [of "Num x"] by (cases x; cases n) auto
  with 2 show ?case by (simp add: read_number del: read_value.simps)
next
  case (3 xs)
  obtain m where n: "n = Suc m" using 3(3) by (cases n) auto
  show ?case
  proof (cases "xs = []")
    case True
    then show ?thesis by (simp add: n)
  next
    case False
    then obtain x zs where xs: "xs = x # zs" by (cases xs) auto
    obtain c cs where c: "json_text x = c # cs" "c \<noteq> CHR '']''" using json_text_first by blast
    have "read_elements m (commas (map json_text xs) @ CHR '']'' # rest) = Some (xs, rest)"
      using 3 False by (intro read_elements_text) (auto simp: n list_all_iff)
    moreover obtain ds where "commas (map json_text xs) = c # ds" by (simp add: xs commas_Cons c)
    ultimately show ?thesis using c(2) by (simp add: n)
  qed
next
  case (4 kvs)
  obtain m where n: "n = Suc m" using 4(3) by (cases n) auto
  show ?case
  proof (cases "kvs = []")
    case True
    then show ?thesis by (simp add: n)
  next
    case False
    let ?ms = "map (\<lambda>p. string_text (fst p) @ CHR '':'' # json_text (snd p)) kvs"
    have "read_members m (commas ?ms @ CHR ''}'' # rest) = Some (kvs, rest)"
      using 4 False by (intro read_members_text) (auto simp: n list_all_iff)
    moreover obtain ds where "commas ?ms = CHR 0x22 # ds"
      using False by (cases kvs) (simp_all add: commas_Cons string_text_def)
    ultimately show ?thesis by (simp add: n)
  qed
qed (auto simp: read_literal_def startsWith_iff string_text_def read_string_text Suc_le_eq
       dest!: less_imp_Suc_add split: if_splits)

lemma read_json_text: "json v \<Longrightarrow> read_json (json_text v) = Some v"
  using read_value_text [of v "length (json_text v)" "[]"] by (simp add: read_json_def)

lemma json_text_inject: "json v \<Longrightarrow> json w \<Longrightarrow> json_text v = json_text w \<longleftrightarrow> v = w"
  by (metis read_json_text option.inject)

end
