(* ===== verification/Canonical_Json.thy ===== *)
theory Canonical_Json
  imports Json_Text
begin

text \<open>
  The canonical serialisation behind every digest of identity
  (src/integrations/hermes/canonical-json.ts). The argument is an arbitrary JavaScript value, so objects live
  in a heap and are reached by reference: they may be shared, and they may form cycles. The specification
  is the finite tree a value unfolds to, printed in canonical order.
\<close>

section \<open>The heap of objects\<close>

type_synonym address = nat

datatype jvalue =
    JUndefined | JNull | JBoolean bool | JNumber js_number | JString string
  | JFunction | JSymbol | JBigint | JRef address

text \<open>
  An array by its elements (a hole reads as \<open>undefined\<close>), a plain object by its own enumerable properties,
  and any other object (Date, Map, class instance) by the name of its constructor.
\<close>

datatype jobject = O_Array "jvalue list" | O_Plain "(string \<times> jvalue) list" | O_Other string

type_synonym heap = "jobject list"

definition deref :: "heap \<Rightarrow> address \<Rightarrow> jobject option" where
  "deref h a = (if a < length h then Some (h ! a) else None)"

definition property :: "(string \<times> jvalue) list \<Rightarrow> string \<Rightarrow> jvalue" where
  "property kvs k = (case map_of kvs k of Some v \<Rightarrow> v | None \<Rightarrow> JUndefined)"

section \<open>\<open>encode\<close>\<close>

datatype canonical_error_code = Non_Finite | Unsupported_Type | Cycle | Forbidden_Key

type_synonym canonical_error = "canonical_error_code \<times> string"

definition FORBIDDEN_JSON_KEYS :: "string list" where
  "FORBIDDEN_JSON_KEYS = [''__proto__'', ''constructor'', ''prototype'']"

definition CANONICAL_JSON_VERSION :: nat where
  "CANONICAL_JSON_VERSION = 1"

definition unseen :: "heap \<Rightarrow> address set \<Rightarrow> nat" where
  "unseen h seen = card ({..<length h} - seen)"

lemma unseen_insert: "deref h a = Some ob \<Longrightarrow> a \<notin> seen \<Longrightarrow> unseen h (insert a seen) < unseen h seen"
  unfolding unseen_def deref_def
  by (rule psubset_card_mono) (auto split: if_splits)

text \<open>
  The result is the list of chunks pushed on \<open>out\<close>. \<open>seen\<close> holds the objects being encoded: the
  \<open>finally\<close> takes an object out again, so each call returns with the set it was given. A dangling reference
  does not exist in JavaScript.
\<close>

function (sequential) encode :: "heap \<Rightarrow> jvalue \<Rightarrow> string \<Rightarrow> address set \<Rightarrow> canonical_error + string list"
  and encode_elements ::
    "heap \<Rightarrow> jvalue list \<Rightarrow> nat \<Rightarrow> string \<Rightarrow> address set \<Rightarrow> canonical_error + string list"
  and encode_members ::
    "heap \<Rightarrow> (string \<times> jvalue) list \<Rightarrow> string list \<Rightarrow> bool \<Rightarrow> string \<Rightarrow> address set
       \<Rightarrow> canonical_error + string list" where
  "encode h v path seen =
     (case v of
        JNull \<Rightarrow> Inr [''null'']
      | JBoolean b \<Rightarrow> Inr [if b then ''true'' else ''false'']
      | JNumber x \<Rightarrow> (case x of Fin q \<Rightarrow> Inr [number_text q] | _ \<Rightarrow> Inl (Non_Finite, path))
      | JString s \<Rightarrow> Inr [string_text s]
      | JRef a \<Rightarrow>
          if a \<in> seen then Inl (Cycle, path)
          else (case deref h a of
                  None \<Rightarrow> Inl (Unsupported_Type, path)
                | Some ob \<Rightarrow>
                    (case ob of
                       O_Array xs \<Rightarrow>
                         (case encode_elements h xs 0 path (insert a seen) of
                            Inl e \<Rightarrow> Inl e
                          | Inr cs \<Rightarrow> Inr (''['' # cs @ ['']'']))
                     | O_Plain kvs \<Rightarrow>
                         (case encode_members h kvs (sort (map fst kvs)) True path (insert a seen) of
                            Inl e \<Rightarrow> Inl e
                          | Inr cs \<Rightarrow> Inr (''{'' # cs @ [''}'']))
                     | O_Other name \<Rightarrow> Inl (Unsupported_Type, path)))
      | _ \<Rightarrow> Inl (Unsupported_Type, path))"
| "encode_elements h [] i path seen = Inr []"
| "encode_elements h (x # xs) i path seen =
     (case encode h x (path @ ''['' @ decimal i @ '']'') seen of
        Inl e \<Rightarrow> Inl e
      | Inr cs \<Rightarrow>
          (case encode_elements h xs (Suc i) path seen of
             Inl e \<Rightarrow> Inl e
           | Inr ds \<Rightarrow> Inr ((if 0 < i then ['',''] else []) @ cs @ ds)))"
| "encode_members h kvs [] first path seen = Inr []"
| "encode_members h kvs (k # ks) first path seen =
     (if k \<in> set FORBIDDEN_JSON_KEYS then Inl (Forbidden_Key, path @ ''.'' @ k)
      else
        (case encode h (property kvs k) (path @ ''.'' @ k) seen of
           Inl e \<Rightarrow> Inl e
         | Inr cs \<Rightarrow>
             (case encode_members h kvs ks False path seen of
                Inl e \<Rightarrow> Inl e
              | Inr ds \<Rightarrow> Inr ((if first then [] else ['','']) @ [string_text k, '':''] @ cs @ ds))))"
  by pat_completeness auto
termination
  by (relation "measures
       [case_sum (\<lambda>(h, v, p, s). unseen h s)
          (case_sum (\<lambda>(h, xs, i, p, s). unseen h s) (\<lambda>(h, kvs, ks, f, p, s). unseen h s)),
        case_sum (\<lambda>_. 0)
          (case_sum (\<lambda>(h, xs, i, p, s). Suc (length xs)) (\<lambda>(h, kvs, ks, f, p, s). Suc (length ks)))]")
    (auto intro: unseen_insert)

declare encode.simps [simp del]

definition canonicalJsonStringify :: "heap \<Rightarrow> jvalue \<Rightarrow> canonical_error + string" where
  "canonicalJsonStringify h v =
     (case encode h v ''$'' {} of Inl e \<Rightarrow> Inl e | Inr out \<Rightarrow> Inr (concat out))"

text \<open>SHA-256 in hexadecimal is the parameter \<open>sha\<close>, of the two updates in order.\<close>

definition canonicalDigest :: "(string \<Rightarrow> string) \<Rightarrow> heap \<Rightarrow> jvalue \<Rightarrow> canonical_error + string" where
  "canonicalDigest sha h v =
     (case canonicalJsonStringify h v of
        Inl e \<Rightarrow> Inl e
      | Inr canonical \<Rightarrow>
          Inr (sha (''maia.canonical-json/v'' @ decimal CANONICAL_JSON_VERSION @ [CHR 0x0A] @ canonical)))"

definition canonicalByteLength :: "heap \<Rightarrow> jvalue \<Rightarrow> canonical_error + nat" where
  "canonicalByteLength h v =
     (case canonicalJsonStringify h v of Inl e \<Rightarrow> Inl e | Inr s \<Rightarrow> Inr (utf8_length s))"

section \<open>The tree of a value\<close>

text \<open>
  The tree is finite, so nothing that contains a cycle denotes one; a shared object occurs in it twice.
\<close>

inductive denotes :: "heap \<Rightarrow> jvalue \<Rightarrow> js \<Rightarrow> bool" for h where
  null: "denotes h JNull Null"
| boolean: "denotes h (JBoolean b) (Bool b)"
| number: "denotes h (JNumber x) (Num x)"
| string: "denotes h (JString s) (Str s)"
| array: "deref h a = Some (O_Array xs) \<Longrightarrow> list_all2 (denotes h) xs ts \<Longrightarrow> denotes h (JRef a) (Arr ts)"
| plain: "deref h a = Some (O_Plain kvs) \<Longrightarrow> (\<And>k. k \<in> fst ` set kvs \<Longrightarrow> denotes h (property kvs k) (f k)) \<Longrightarrow>
    denotes h (JRef a) (Obj (map (\<lambda>k. (k, f k)) (map fst kvs)))"

inductive_simps denotes_simps:
  "denotes h JNull t" "denotes h (JBoolean b) t" "denotes h (JNumber x) t" "denotes h (JString s) t"
  "denotes h JUndefined t" "denotes h JFunction t" "denotes h JSymbol t" "denotes h JBigint t"

lemma denotes_array_form:
  assumes "denotes h (JRef a) u" and "deref h a = Some (O_Array xs)"
  shows "\<exists>ts. u = Arr ts \<and> list_all2 (denotes h) xs ts"
  using assms(1)
proof cases
  case (array xs' ts)
  with assms(2) show ?thesis by simp
qed (use assms(2) in simp_all)

lemma denotes_plain_form:
  assumes "denotes h (JRef a) u" and "deref h a = Some (O_Plain kvs)"
  shows "\<exists>f. u = Obj (map (\<lambda>k. (k, f k)) (map fst kvs)) \<and> (\<forall>k \<in> fst ` set kvs. denotes h (property kvs k) (f k))"
  using assms(1)
proof cases
  case (plain kvs' f)
  with assms(2) have "kvs' = kvs" by simp
  with plain show ?thesis by blast
qed (use assms(2) in simp_all)

lemma denotes_unique: "denotes h v t \<Longrightarrow> denotes h v u \<Longrightarrow> u = t"
proof (induction arbitrary: u rule: denotes.induct)
  case (array a xs ts)
  obtain us where us: "u = Arr us" "list_all2 (denotes h) xs us"
    using denotes_array_form [OF \<open>denotes h (JRef a) u\<close> array.hyps(1)] by blast
  have "list_all2 (\<lambda>x t. \<forall>u. denotes h x u \<longrightarrow> u = t) xs ts"
    by (rule list_all2_mono [OF array.IH(1)]) blast
  then have "us = ts"
    using us(2) by (auto simp: list_all2_conv_all_nth intro: nth_equalityI)
  with us show ?case by simp
next
  case (plain a kvs f)
  obtain g where g: "u = Obj (map (\<lambda>k. (k, g k)) (map fst kvs))"
    "\<forall>k \<in> fst ` set kvs. denotes h (property kvs k) (g k)"
    using denotes_plain_form [OF \<open>denotes h (JRef a) u\<close> plain.hyps(1)] by blast
  have "\<And>k. k \<in> fst ` set kvs \<Longrightarrow> g k = f k" using plain.IH g(2) by blast
  then show ?case unfolding g(1) by simp
qed (simp_all add: denotes_simps)

definition tree :: "heap \<Rightarrow> jvalue \<Rightarrow> js" where
  "tree h v = (THE t. denotes h v t)"

lemma tree_eq: "denotes h v t \<Longrightarrow> tree h v = t"
  unfolding tree_def by (rule the_equality) (auto dest: denotes_unique)

fun encodable :: "js \<Rightarrow> bool" where
  "encodable Undef = False"
| "encodable (Num x) = (case x of Fin q \<Rightarrow> True | _ \<Rightarrow> False)"
| "encodable (Arr xs) = list_all encodable xs"
| "encodable (Obj kvs) = list_all (\<lambda>p. fst p \<notin> set FORBIDDEN_JSON_KEYS \<and> encodable (snd p)) kvs"
| "encodable v = True"

section \<open>Encoding prints the canonical tree\<close>

definition heap_ok :: "heap \<Rightarrow> bool" where
  "heap_ok h = list_all (\<lambda>ob. case ob of O_Plain kvs \<Rightarrow> distinct (map fst kvs) | _ \<Rightarrow> True) h"

lemma heap_ok_plain: "heap_ok h \<Longrightarrow> deref h a = Some (O_Plain kvs) \<Longrightarrow> distinct (map fst kvs)"
  by (force simp: heap_ok_def deref_def list_all_length split: if_splits)

text \<open>The text of one property in the tree.\<close>

definition member_text :: "heap \<Rightarrow> (string \<times> jvalue) list \<Rightarrow> string \<Rightarrow> string" where
  "member_text h kvs k = string_text k @ CHR '':'' # json_text (canon (tree h (property kvs k)))"

lemma own_map_pair: "k \<in> set ks \<Longrightarrow> own (map (\<lambda>k. (k, f k)) ks) k = f k"
  by (simp add: own_def map_of_map_restrict)

lemma json_text_plain:
  assumes "deref h a = Some (O_Plain kvs)" and "distinct (map fst kvs)"
    and "\<And>k. k \<in> fst ` set kvs \<Longrightarrow> denotes h (property kvs k) (f k)"
  shows "json_text (canon (Obj (map (\<lambda>k. (k, f k)) (map fst kvs))))
    = CHR ''{'' # commas (map (member_text h kvs) (sort (map fst kvs))) @ ''}''"
proof -
  let ?ps = "map (\<lambda>k. (k, f k)) (map fst kvs)"
  have keys: "map fst ?ps = map fst kvs" by (simp add: comp_def)
  have d: "distinct (map fst ?ps)" unfolding keys by (rule assms(2))
  have "string_text k @ CHR '':'' # json_text (canon (own ?ps k)) = member_text h kvs k"
    if "k \<in> set (sort (map fst kvs))" for k
    using that assms(3) [of k] own_map_pair [of k "map fst kvs" f] tree_eq [of h "property kvs k" "f k"]
    by (simp add: member_text_def)
  then have "map (\<lambda>k. string_text k @ CHR '':'' # json_text (canon (own ?ps k))) (sort (map fst kvs))
      = map (member_text h kvs) (sort (map fst kvs))" by (rule map_cong [OF refl])
  moreover have "json_text (canon (Obj ?ps)) = CHR ''{'' # commas
      (map (\<lambda>k. string_text k @ CHR '':'' # json_text (canon (own ?ps k))) (sort (map fst kvs))) @ ''}''"
    by (simp only: canon_Obj [OF d] keys json_text.simps) (simp only: map_map comp_def fst_conv snd_conv)
  ultimately show ?thesis by (simp only:)
qed

lemma concat_Cons_commas:
  "concat ((if first then [] else ['','']) @ cs @ ds)
     = (if first then [] else '','') @ concat cs @ concat ds"
  by simp

lemma commas_step:
  "x @ (if xs = [] then [] else '','' @ commas xs) = commas (x # xs)"
  by (simp add: commas_Cons)

lemma encode_sound:
  "heap_ok h \<Longrightarrow> encode h v path seen = Inr cs \<Longrightarrow>
     denotes h v (tree h v) \<and> encodable (tree h v) \<and> concat cs = json_text (canon (tree h v))"
  "heap_ok h \<Longrightarrow> encode_elements h xs i path seen = Inr cs \<Longrightarrow>
     (\<forall>x \<in> set xs. denotes h x (tree h x) \<and> encodable (tree h x))
     \<and> concat cs = (if 0 < i \<and> xs \<noteq> [] then '','' else [])
         @ commas (map (\<lambda>x. json_text (canon (tree h x))) xs)"
  "heap_ok h \<Longrightarrow> encode_members h kvs ks first path seen = Inr cs \<Longrightarrow>
     (\<forall>k \<in> set ks. k \<notin> set FORBIDDEN_JSON_KEYS
        \<and> denotes h (property kvs k) (tree h (property kvs k)) \<and> encodable (tree h (property kvs k)))
     \<and> concat cs = (if \<not> first \<and> ks \<noteq> [] then '','' else []) @ commas (map (member_text h kvs) ks)"
proof (induction h v path seen and h xs i path seen and h kvs ks first path seen arbitrary: cs and cs and cs
    rule: encode_encode_elements_encode_members.induct)
  case (1 h v path seen)
  show ?case
  proof (cases v)
    case (JNumber x)
    then obtain q where x: "x = Fin q" "cs = [number_text q]"
      using 1(4) by (cases x) (simp_all add: encode.simps)
    have "tree h v = Num x" using JNumber by (simp add: tree_eq denotes.number)
    with x JNumber show ?thesis by (simp add: denotes.number)
  next
    case (JRef a)
    then obtain ob where a: "a \<notin> seen" and ob: "deref h a = Some ob"
      using 1(4) by (simp add: encode.simps split: if_splits option.splits)
    show ?thesis
    proof (cases ob)
      case (O_Array xs)
      with 1(4) JRef a ob obtain ds where ds: "encode_elements h xs 0 path (insert a seen) = Inr ds"
        and cs: "cs = ''['' # ds @ ['']'']" by (auto simp: encode.simps split: sum.splits)
      note el = 1(1) [OF JRef a ob O_Array 1(3) ds]
      then have "list_all2 (denotes h) xs (map (tree h) xs)" by (simp add: list_all2_map2 list.rel_refl_strong)
      from denotes.array [OF _ this] ob O_Array have d: "denotes h v (Arr (map (tree h) xs))" by (simp add: JRef)
      show ?thesis unfolding tree_eq [OF d]
        using d el by (simp add: cs list_all_iff comp_def)
    next
      case (O_Plain kvs)
      let ?ks = "sort (map fst kvs)"
      from 1(4) JRef a ob O_Plain obtain ds
        where ds: "encode_members h kvs ?ks True path (insert a seen) = Inr ds"
          and cs: "cs = ''{'' # ds @ [''}'']" by (auto simp: encode.simps split: sum.splits)
      note mem = 1(2) [OF JRef a ob O_Plain 1(3) ds]
      let ?f = "\<lambda>k. tree h (property kvs k)"
      have ks: "\<And>k. k \<in> fst ` set kvs \<Longrightarrow> denotes h (property kvs k) (?f k)" using mem by force
      have d: "denotes h v (Obj (map (\<lambda>k. (k, ?f k)) (map fst kvs)))"
        unfolding JRef using ob O_Plain ks by (intro denotes.plain) auto
      have dist: "distinct (map fst kvs)" using heap_ok_plain [OF 1(3)] ob O_Plain by simp
      have enc: "encodable (Obj (map (\<lambda>k. (k, ?f k)) (map fst kvs)))" using mem by (auto simp: list_all_iff)
      have "concat cs = json_text (canon (Obj (map (\<lambda>k. (k, ?f k)) (map fst kvs))))"
        using json_text_plain [OF _ dist ks] ob O_Plain mem by (simp add: cs)
      then show ?thesis unfolding tree_eq [OF d] using d enc by blast
    next
      case (O_Other nm)
      then show ?thesis using 1(4) JRef a ob by (simp add: encode.simps)
    qed
  qed (use 1 in \<open>auto simp: encode.simps denotes_simps tree_eq [of _ _ Null] tree_eq [of _ _ "Bool _"]
         tree_eq [of _ _ "Str _"]\<close>)
next
  case (3 h x xs i path seen)
  from 3(4) obtain as ds where as: "encode h x (path @ ''['' @ decimal i @ '']'') seen = Inr as"
    and ds: "encode_elements h xs (Suc i) path seen = Inr ds"
    and cs: "cs = (if 0 < i then ['',''] else []) @ as @ ds"
    by (auto split: sum.splits)
  note hd = 3(1) [OF 3(3) as] and tl = 3(2) [OF as 3(3) ds]
  from hd tl show ?case by (auto simp: cs commas_Cons)
next
  case (5 h kvs k ks first path seen)
  from 5(4) obtain as ds where k: "k \<notin> set FORBIDDEN_JSON_KEYS"
    and as: "encode h (property kvs k) (path @ ''.'' @ k) seen = Inr as"
    and ds: "encode_members h kvs ks False path seen = Inr ds"
    and cs: "cs = (if first then [] else ['','']) @ [string_text k, '':''] @ as @ ds"
    by (auto split: sum.splits if_splits)
  note hd = 5(1) [OF k 5(3) as] and tl = 5(2) [OF k as 5(3) ds]
  from hd tl k show ?case by (auto simp: cs commas_Cons member_text_def)
qed simp_all

lemma encode_elements_total:
  "(\<And>x path. x \<in> set xs \<Longrightarrow> \<exists>cs. encode h x path seen = Inr cs) \<Longrightarrow>
     \<exists>cs. encode_elements h xs i path seen = Inr cs"
proof (induction xs arbitrary: i)
  case (Cons x xs)
  obtain as where "encode h x (path @ ''['' @ decimal i @ '']'') seen = Inr as" using Cons.prems by fastforce
  moreover obtain ds where "encode_elements h xs (Suc i) path seen = Inr ds"
    using Cons.IH [of "Suc i"] Cons.prems by auto
  ultimately show ?case by simp
qed simp

lemma encode_members_total:
  "(\<And>k path. k \<in> set ks \<Longrightarrow> k \<notin> set FORBIDDEN_JSON_KEYS \<and> (\<exists>cs. encode h (property kvs k) path seen = Inr cs)) \<Longrightarrow>
     \<exists>cs. encode_members h kvs ks first path seen = Inr cs"
proof (induction ks arbitrary: first)
  case (Cons k ks)
  have k: "k \<notin> set FORBIDDEN_JSON_KEYS" using Cons.prems by simp
  obtain as where "encode h (property kvs k) (path @ ''.'' @ k) seen = Inr as" using Cons.prems by fastforce
  moreover obtain ds where "encode_members h kvs ks False path seen = Inr ds"
    using Cons.IH [of False] Cons.prems by auto
  ultimately show ?case using k by simp
qed simp

text \<open>The objects on the way to a value unfold to larger trees, so none of them is met again.\<close>

definition above :: "heap \<Rightarrow> address set \<Rightarrow> js \<Rightarrow> bool" where
  "above h seen t \<longleftrightarrow> (\<forall>a \<in> seen. \<forall>u. denotes h (JRef a) u \<longrightarrow> size t < size u)"

lemma above_child:
  "above h seen u \<Longrightarrow> denotes h (JRef a) u \<Longrightarrow> size t < size u \<Longrightarrow> above h (insert a seen) t"
  unfolding above_def by (metis denotes_unique insertE order.strict_trans)

lemma above_fresh: "above h seen t \<Longrightarrow> denotes h (JRef a) t \<Longrightarrow> a \<notin> seen"
  unfolding above_def by blast

lemma encode_complete:
  "denotes h v t \<Longrightarrow> encodable t \<Longrightarrow> above h seen t \<Longrightarrow> \<exists>cs. encode h v path seen = Inr cs"
proof (induction arbitrary: seen path rule: denotes.induct)
  case (number x)
  then show ?case by (cases x) (simp_all add: encode.simps)
next
  case (array a xs ts)
  have d: "denotes h (JRef a) (Arr ts)"
    by (rule denotes.array [OF array.hyps(1)]) (rule list_all2_mono [OF array.IH(1)], blast)
  note fresh = above_fresh [OF array.prems(2) d]
  have "\<exists>cs. encode h x p (insert a seen) = Inr cs" if "x \<in> set xs" for x p
  proof -
    from that obtain i where i: "i < length xs" "x = xs ! i" by (auto simp: in_set_conv_nth)
    let ?t = "ts ! i"
    from i array.IH(1) have mem: "?t \<in> set ts" by (auto dest: list_all2_lengthD)
    have "encodable ?t" using array.prems(1) mem by (simp add: list_all_iff)
    moreover have "above h (insert a seen) ?t"
      by (rule above_child [OF array.prems(2) d size_member_less [OF mem]])
    ultimately show ?thesis using list_all2_nthD [OF array.IH(1) i(1)] i(2) by blast
  qed
  then obtain cs where "encode_elements h xs 0 path (insert a seen) = Inr cs"
    using encode_elements_total by blast
  with fresh array.hyps(1) show ?case by (simp add: encode.simps)
next
  case (plain a kvs f)
  let ?ps = "map (\<lambda>k. (k, f k)) (map fst kvs)"
  have d: "denotes h (JRef a) (Obj ?ps)" using plain by (intro denotes.plain)
  note fresh = above_fresh [OF plain.prems(2) d]
  have "k \<notin> set FORBIDDEN_JSON_KEYS \<and> (\<exists>cs. encode h (property kvs k) p (insert a seen) = Inr cs)"
    if k: "k \<in> set (sort (map fst kvs))" for k p
  proof -
    have kin: "k \<in> fst ` set kvs" and mem: "(k, f k) \<in> set ?ps" using k by force+
    have enc: "k \<notin> set FORBIDDEN_JSON_KEYS" "encodable (f k)"
      using plain.prems(1) mem by (auto simp: list_all_iff)
    have "above h (insert a seen) (f k)"
      by (rule above_child [OF plain.prems(2) d size_entry_less [OF mem]])
    with plain.IH [OF kin] enc show ?thesis by blast
  qed
  then obtain cs where "encode_members h kvs (sort (map fst kvs)) True path (insert a seen) = Inr cs"
    using encode_members_total by blast
  with fresh plain.hyps(1) show ?case by (simp add: encode.simps)
qed (simp_all add: encode.simps)

text \<open>
  Serialisation succeeds exactly on the values that unfold to a finite tree of JSON without
  a forbidden key (sharing is allowed, cycles and holes are not), and its result is that tree printed with the
  properties of every object in order.
\<close>

lemma canonical_text_iff:
  assumes "heap_ok h"
  shows "canonicalJsonStringify h v = Inr s \<longleftrightarrow>
    (\<exists>t. denotes h v t \<and> encodable t \<and> s = json_text (canon t))"
proof
  assume "canonicalJsonStringify h v = Inr s"
  then obtain cs where "encode h v ''$'' {} = Inr cs" and "s = concat cs"
    by (auto simp: canonicalJsonStringify_def split: sum.splits)
  with encode_sound(1) [OF assms] show "\<exists>t. denotes h v t \<and> encodable t \<and> s = json_text (canon t)" by blast
next
  assume "\<exists>t. denotes h v t \<and> encodable t \<and> s = json_text (canon t)"
  then obtain t where t: "denotes h v t" "encodable t" "s = json_text (canon t)" by blast
  have "above h {} t" by (simp add: above_def)
  from encode_complete [OF t(1,2) this] obtain cs where cs: "encode h v ''$'' {} = Inr cs" by blast
  from encode_sound(1) [OF assms cs] have "concat cs = s" using tree_eq [OF t(1)] t(3) by simp
  with cs show "canonicalJsonStringify h v = Inr s" by (simp add: canonicalJsonStringify_def)
qed

definition demo_heap :: heap where
  "demo_heap = [O_Plain [(''b'', JRef 1), (''a'', JRef 1)], O_Array [JBoolean True, JNull], O_Array [JRef 2]]"

lemma canonical_text_iff_witness:
  "\<exists>t. denotes demo_heap (JRef 0) t \<and> encodable t
     \<and> [CHR ''{'', CHR 0x22, CHR ''a'', CHR 0x22] @ '':[true,null],'' @ [CHR 0x22, CHR ''b'', CHR 0x22]
          @ '':[true,null]}'' = json_text (canon t)"
  by (rule canonical_text_iff [THEN iffD1]) (code_simp, code_simp)

lemma cycle_refused: "encode demo_heap (JRef 2) ''$'' {} = Inl (Cycle, ''$[0]'')"
  by code_simp

section \<open>Identity\<close>

definition value_double :: "jvalue \<Rightarrow> bool" where
  "value_double v = (case v of JNumber x \<Rightarrow> (case x of Fin q \<Rightarrow> is_double q | _ \<Rightarrow> True) | _ \<Rightarrow> True)"

definition heap_doubles :: "heap \<Rightarrow> bool" where
  "heap_doubles h = list_all (\<lambda>ob. case ob of
       O_Array xs \<Rightarrow> list_all value_double xs
     | O_Plain kvs \<Rightarrow> list_all (\<lambda>p. value_double (snd p)) kvs
     | O_Other name \<Rightarrow> True) h"

lemma heap_doubles_deref:
  "heap_doubles h \<Longrightarrow> deref h a = Some ob \<Longrightarrow> (case ob of
       O_Array xs \<Rightarrow> list_all value_double xs
     | O_Plain kvs \<Rightarrow> list_all (\<lambda>p. value_double (snd p)) kvs
     | O_Other name \<Rightarrow> True)"
  by (force simp: heap_doubles_def deref_def list_all_length split: if_splits)

lemma value_double_property:
  "list_all (\<lambda>p. value_double (snd p)) kvs \<Longrightarrow> value_double (property kvs k)"
  by (auto simp: property_def list_all_iff value_double_def [of JUndefined]
      split: option.splits dest!: map_of_SomeD)

lemma denotes_json:
  "denotes h v t \<Longrightarrow> heap_doubles h \<Longrightarrow> value_double v \<Longrightarrow> encodable t \<Longrightarrow> json t"
proof (induction rule: denotes.induct)
  case (number x)
  then show ?case by (cases x) (simp_all add: value_double_def)
next
  case (array a xs ts)
  then have xs: "list_all value_double xs" using heap_doubles_deref by fastforce
  have "json t" if "t \<in> set ts" for t
  proof -
    from that obtain i where i: "i < length ts" "t = ts ! i" by (auto simp: in_set_conv_nth)
    with array.IH have ix: "i < length xs" by (auto dest: list_all2_lengthD)
    with list_all2_nthD [OF array.IH ix] xs array.prems that i show ?thesis
      by (simp add: list_all_length)
  qed
  then show ?case by (simp add: list_all_iff)
next
  case (plain a kvs f)
  then have "list_all (\<lambda>p. value_double (snd p)) kvs" using heap_doubles_deref by fastforce
  then have "value_double (property kvs k)" for k by (rule value_double_property)
  then show ?case using plain.IH plain.prems by (fastforce simp: list_all_iff)
qed (simp_all)

lemma denotes_proper: "denotes h v t \<Longrightarrow> heap_ok h \<Longrightarrow> proper t"
proof (induction rule: denotes.induct)
  case (array a xs ts)
  then show ?case by (auto simp: list_all_length list_all2_conv_all_nth)
next
  case (plain a kvs f)
  then show ?case by (auto simp: list_all_iff comp_def dest: heap_ok_plain)
qed simp_all

lemma encodable_nan_free: "encodable t \<Longrightarrow> nan_free t"
  by (induction t rule: encodable.induct) (auto simp: list_all_iff split: js_number.splits)

lemma json_canon: "json (canon t) = json t"
  by (induction t rule: json.induct) (auto simp: list_all_iff)

text \<open>
  C40. Nothing is lost: parsing the canonical text gives the tree of the value back, with the
  properties of its objects in order.
\<close>

theorem canonical_roundtrip:
  assumes "heap_ok h" and "heap_doubles h" and "value_double v"
    and "canonicalJsonStringify h v = Inr s"
  shows "\<exists>t. denotes h v t \<and> read_json s = Some (canon t)"
proof -
  obtain cs where "encode h v ''$'' {} = Inr cs" and s: "s = concat cs"
    using assms(4) by (auto simp: canonicalJsonStringify_def split: sum.splits)
  with encode_sound(1) [OF assms(1)] have t: "denotes h v (tree h v)" "encodable (tree h v)"
    and printed: "s = json_text (canon (tree h v))" by auto
  have "json (canon (tree h v))" unfolding json_canon by (rule denotes_json [OF t(1) assms(2,3) t(2)])
  then have "read_json s = Some (canon (tree h v))" unfolding printed by (rule read_json_text)
  with t show ?thesis by blast
qed

theorem canonical_roundtrip_witness:
  "\<exists>t. denotes demo_heap (JRef 0) t \<and> read_json
     ([CHR ''{'', CHR 0x22, CHR ''a'', CHR 0x22] @ '':[true,null],'' @ [CHR 0x22, CHR ''b'', CHR 0x22]
       @ '':[true,null]}'') = Some (canon t)"
  by (rule canonical_roundtrip) code_simp+



end
