(* ===== verification/Usage_Accounting.thy ===== *)
theory Usage_Accounting
  imports Json_Text
begin

text \<open>
  The accounting of inference usage (src/integrations/hermes/cost-accounting.ts): a fold over
  identified events with amounts in decimal strings. The specification reads only the set of events, so
  redelivery and order do not matter.
\<close>

section \<open>Amounts\<close>

text \<open>\<open>BigInt(text)\<close> on the admitted texts, and \<open>toString\<close>.\<close>

definition uint_text :: "string \<Rightarrow> bool" where
  "uint_text s =
     (s = ''0'' \<or> (case s of [] \<Rightarrow> False | c # cs \<Rightarrow> is_digit c \<and> c \<noteq> CHR ''0'' \<and> list_all is_digit cs))"

definition decimal_int_text :: "string \<Rightarrow> bool" where
  "decimal_int_text s = (case s of [] \<Rightarrow> False | c # cs \<Rightarrow> if c = CHR ''-'' then uint_text cs else uint_text s)"

definition big_int :: "string \<Rightarrow> int" where
  "big_int s =
     (case s of [] \<Rightarrow> 0
      | c # cs \<Rightarrow> if c = CHR ''-'' then - the (read_digits 10 0 cs) else the (read_digits 10 0 s))"

definition int_text :: "int \<Rightarrow> string" where
  "int_text n = (if n < 0 then CHR ''-'' # decimal (nat (- n)) else decimal (nat n))"

lemma digit_char_zero_iff: "d < 10 \<Longrightarrow> digit_char d = CHR ''0'' \<longleftrightarrow> d = 0"
proof
  assume "d < 10" and "digit_char d = CHR ''0''"
  then have "48 + d = (of_char (CHR ''0'') :: nat)" by (metis digit_char_of)
  then show "d = 0" by simp
next
  assume "d = 0"
  then show "digit_char d = CHR ''0''" by (simp add: digit_char_def char_of_def bit_0)
qed

lemma decimal_first: "n \<noteq> 0 \<Longrightarrow> \<exists>c cs. decimal n = c # cs \<and> c \<noteq> CHR ''0''"
proof (induction n rule: decimal.induct)
  case (1 n)
  show ?case
  proof (cases "n < 10")
    case True
    with 1(2) show ?thesis by (simp add: decimal.simps [of n] digit_char_zero_iff)
  next
    case False
    then have "n div 10 \<noteq> 0" by simp
    with False 1(1) obtain c cs where "decimal (n div 10) = c # cs" "c \<noteq> CHR ''0''" by blast
    with False show ?thesis by (simp add: decimal.simps [of n])
  qed
qed

lemma uint_text_decimal: "uint_text (decimal n)"
proof (cases "n = 0")
  case True
  then show ?thesis by (simp add: uint_text_def decimal.simps digit_char_zero_iff)
next
  case False
  then obtain c cs where "decimal n = c # cs" "c \<noteq> CHR ''0''" using decimal_first by blast
  with decimal_digits [of n] show ?thesis by (simp add: uint_text_def)
qed

lemma uint_text_digits: "uint_text s \<Longrightarrow> list_all is_digit s \<and> s \<noteq> []"
  by (auto simp: uint_text_def zero_is_digit split: list.splits)

lemma minus_not_digit: "\<not> is_digit (CHR ''-'')"
  by (simp add: is_digit_def)

lemma digit_value_range: "is_digit c \<Longrightarrow> \<exists>d. digit_value c = Some d \<and> 0 \<le> d \<and> d < 10"
proof -
  assume "is_digit c"
  then have "48 \<le> (of_char c :: nat)" "(of_char c :: nat) \<le> 57" by (auto simp: is_digit_def Let_def)
  moreover have "(of_char c :: int) = int (of_char c)" by (rule of_nat_of_char [symmetric])
  ultimately show ?thesis by (simp add: digit_value_def)
qed

lemma read_digits_defined:
  "list_all is_digit s \<Longrightarrow> 0 \<le> a \<Longrightarrow> \<exists>n. read_digits 10 a s = Some n \<and> 0 \<le> n"
proof (induction s arbitrary: a)
  case (Cons c cs)
  then obtain d where "digit_value c = Some d" "0 \<le> d" "d < 10" using digit_value_range by fastforce
  with Cons show ?case by simp
qed simp

lemma big_int_nonneg:
  assumes "uint_text s"
  shows "0 \<le> big_int s"
proof -
  obtain c cs where s: "s = c # cs" "is_digit c" "list_all is_digit s"
    using uint_text_digits [OF assms] by (cases s) auto
  then have "c \<noteq> CHR ''-''" using minus_not_digit by auto
  moreover obtain n where "read_digits 10 0 s = Some n" "0 \<le> n" using read_digits_defined [OF s(3)] by auto
  ultimately show ?thesis using s(1) by (simp add: big_int_def)
qed

lemma big_int_text: "big_int (int_text n) = n"
proof (cases "n < 0")
  case True
  then show ?thesis by (simp add: big_int_def int_text_def read_digits_decimal)
next
  case False
  obtain c cs where c: "decimal (nat n) = c # cs" using decimal_nonempty by (cases "decimal (nat n)") auto
  then have "c \<noteq> CHR ''-''" using decimal_digits [of "nat n"] minus_not_digit by auto
  then show ?thesis using False c read_digits_decimal [of "nat n"] by (simp add: big_int_def int_text_def)
qed

lemma uint_text_int_text: "0 \<le> n \<Longrightarrow> uint_text (int_text n)"
  by (simp add: int_text_def uint_text_decimal)

section \<open>Events\<close>

datatype usage_kind = Reported | Estimated | Reconciled | Adjustment

datatype usage_source = Provider_Accounted | Engine_Reported | Gateway_Estimated | Unavailable

datatype accounting_status = Acc_Reserved | Acc_Estimated | Acc_Settled | Acc_Unknown

record usage_event =
  ue_id :: string
  ue_attempt :: string
  ue_kind :: usage_kind
  ue_delta :: "string option"            \<comment> \<open>\<open>delta_microusd\<close>\<close>
  ue_source :: usage_source

datatype usage_error =
    Usage_Conflict string | Malformed_Delta string | Negative_Delta string | Negative_Total

definition parseDelta :: "usage_event \<Rightarrow> usage_error + int option" where
  "parseDelta ev =
     (case ue_delta ev of
        None \<Rightarrow> Inr None
      | Some s \<Rightarrow>
          if \<not> decimal_int_text s then Inl (Malformed_Delta (ue_id ev))
          else let valor = big_int s
               in if valor < 0 \<and> ue_kind ev \<noteq> Adjustment then Inl (Negative_Delta (ue_id ev))
                  else Inr (Some valor))"

fun kind_text :: "usage_kind \<Rightarrow> string" where
  "kind_text Reported = ''reported''"
| "kind_text Estimated = ''estimated''"
| "kind_text Reconciled = ''reconciled''"
| "kind_text Adjustment = ''adjustment''"

fun source_text :: "usage_source \<Rightarrow> string" where
  "source_text Provider_Accounted = ''provider_accounted''"
| "source_text Engine_Reported = ''engine_reported''"
| "source_text Gateway_Estimated = ''gateway_estimated''"
| "source_text Unavailable = ''unavailable''"

text \<open>\<open>JSON.stringify\<close> of the four fields beside the id.\<close>

definition assinatura :: "usage_event \<Rightarrow> string" where
  "assinatura ev = json_text (Arr [Str (ue_attempt ev), Str (kind_text (ue_kind ev)),
     (case ue_delta ev of None \<Rightarrow> Null | Some s \<Rightarrow> Str s), Str (source_text (ue_source ev))])"

lemma kind_text_inj: "kind_text a = kind_text b \<longleftrightarrow> a = b"
  by (cases a; cases b) simp_all

lemma source_text_inj: "source_text a = source_text b \<longleftrightarrow> a = b"
  by (cases a; cases b) simp_all

lemma assinatura_eq:
  "assinatura a = assinatura b \<longleftrightarrow>
     ue_attempt a = ue_attempt b \<and> ue_kind a = ue_kind b \<and> ue_delta a = ue_delta b \<and> ue_source a = ue_source b"
  unfolding assinatura_def
  by (subst json_text_inject) (auto simp: kind_text_inj source_text_inj split: option.splits)

section \<open>The fold\<close>

record usage_fold =
  uf_seen :: "string \<rightharpoonup> string"            \<comment> \<open>\<open>vistos\<close>\<close>
  uf_counted :: "string list"
  uf_kinds :: "usage_kind list"
  uf_total :: int
  uf_duplicates :: nat
  uf_unknown :: nat

record accounting_fold =
  af_total :: string                     \<comment> \<open>\<open>total_microusd\<close>\<close>
  af_status :: accounting_status
  af_counted :: "string list"
  af_duplicates :: nat
  af_unknown :: nat

definition derivarStatus :: "nat \<Rightarrow> nat \<Rightarrow> usage_kind list \<Rightarrow> accounting_status" where
  "derivarStatus contados desconhecidos kinds =
     (if contados = 0 then Acc_Reserved
      else if 0 < desconhecidos then Acc_Unknown
      else if Estimated \<in> set kinds then Acc_Estimated
      else Acc_Settled)"

definition fold_event :: "usage_event \<Rightarrow> usage_fold \<Rightarrow> usage_error + usage_fold" where
  "fold_event ev st =
     (case uf_seen st (ue_id ev) of
        Some anterior \<Rightarrow>
          if anterior \<noteq> assinatura ev then Inl (Usage_Conflict (ue_id ev))
          else Inr (st\<lparr>uf_duplicates := uf_duplicates st + 1\<rparr>)
      | None \<Rightarrow>
          (case parseDelta ev of
             Inl e \<Rightarrow> Inl e
           | Inr delta \<Rightarrow>
               Inr (st\<lparr>uf_seen := (uf_seen st)(ue_id ev \<mapsto> assinatura ev),
                       uf_counted := uf_counted st @ [ue_id ev],
                       uf_kinds := uf_kinds st @ [ue_kind ev],
                       uf_total := uf_total st + (case delta of None \<Rightarrow> 0 | Some v \<Rightarrow> v),
                       uf_unknown := uf_unknown st + (case delta of None \<Rightarrow> 1 | Some v \<Rightarrow> 0)\<rparr>)))"

fun fold_events :: "usage_event list \<Rightarrow> usage_fold \<Rightarrow> usage_error + usage_fold" where
  "fold_events [] st = Inr st"
| "fold_events (ev # evs) st =
     (case fold_event ev st of Inl e \<Rightarrow> Inl e | Inr st' \<Rightarrow> fold_events evs st')"

definition foldUsageEvents :: "usage_event list \<Rightarrow> usage_error + accounting_fold" where
  "foldUsageEvents events =
     (case fold_events events \<lparr>uf_seen = Map.empty, uf_counted = [], uf_kinds = [], uf_total = 0,
            uf_duplicates = 0, uf_unknown = 0\<rparr> of
        Inl e \<Rightarrow> Inl e
      | Inr st \<Rightarrow>
          if uf_total st < 0 then Inl Negative_Total
          else Inr \<lparr>af_total = int_text (uf_total st),
                    af_status = derivarStatus (length (uf_counted st)) (uf_unknown st) (uf_kinds st),
                    af_counted = uf_counted st, af_duplicates = uf_duplicates st,
                    af_unknown = uf_unknown st\<rparr>)"

section \<open>Specification\<close>

text \<open>
  An id determines its event, and every amount is well formed. \<open>firsts\<close> are the events in the order
  of their first delivery.
\<close>

definition consistent :: "usage_event list \<Rightarrow> bool" where
  "consistent evs \<longleftrightarrow>
     (\<forall>a \<in> set evs. (\<forall>b \<in> set evs. ue_id a = ue_id b \<longrightarrow> assinatura a = assinatura b)
        \<and> (\<exists>v. parseDelta a = Inr v))"

definition amount :: "usage_event \<Rightarrow> int" where
  "amount ev = (case ue_delta ev of None \<Rightarrow> 0 | Some s \<Rightarrow> big_int s)"

definition known_by :: "usage_event list \<Rightarrow> usage_event \<Rightarrow> bool" where
  "known_by evs e = (ue_id e \<in> ue_id ` set evs)"

definition firsts :: "usage_event list \<Rightarrow> usage_event list" where
  "firsts evs = fold (\<lambda>e acc. if known_by acc e then acc else acc @ [e]) evs []"

lemma firsts_Nil [simp]: "firsts [] = []"
  by (simp add: firsts_def)

lemma firsts_snoc: "firsts (evs @ [e]) = (if known_by (firsts evs) e then firsts evs else firsts evs @ [e])"
  by (simp add: firsts_def)

lemma firsts_subset: "set (firsts evs) \<subseteq> set evs"
  by (induction evs rule: rev_induct) (auto simp: firsts_snoc)

lemma firsts_ids: "ue_id ` set (firsts evs) = ue_id ` set evs"
  by (induction evs rule: rev_induct) (auto simp: firsts_snoc known_by_def)

lemma distinct_firsts: "distinct (map ue_id (firsts evs))"
  by (induction evs rule: rev_induct) (auto simp: firsts_snoc known_by_def)

lemma distinct_first_events: "distinct (firsts evs)"
  using distinct_firsts by (rule distinct_map [THEN iffD1, THEN conjunct1])

lemma consistent_snoc:
  "consistent (evs @ [e]) \<longleftrightarrow> consistent evs \<and> (\<exists>v. parseDelta e = Inr v)
     \<and> (\<forall>a \<in> set evs. ue_id a = ue_id e \<longrightarrow> assinatura a = assinatura e)"
  by (auto simp: consistent_def)

lemma set_firsts: "consistent evs \<Longrightarrow> set (firsts evs) = set evs"
proof (induction evs rule: rev_induct)
  case (snoc e evs)
  then have c: "consistent evs" and same: "\<And>a. a \<in> set evs \<Longrightarrow> ue_id a = ue_id e \<Longrightarrow> assinatura a = assinatura e"
    by (auto simp: consistent_snoc)
  note IH = snoc.IH [OF c]
  show ?case
  proof (cases "known_by (firsts evs) e")
    case True
    then obtain a where a: "a \<in> set evs" "ue_id a = ue_id e" using IH by (auto simp: known_by_def)
    with same have "assinatura a = assinatura e" by blast
    with a(2) have "a = e" by (simp add: assinatura_eq)
    with True a(1) IH show ?thesis by (auto simp: firsts_snoc)
  qed (simp add: firsts_snoc IH)
qed simp

definition summary :: "usage_event list \<Rightarrow> usage_fold" where
  "summary evs =
     \<lparr>uf_seen = (\<lambda>i. map_option assinatura (List.find (\<lambda>e. ue_id e = i) (firsts evs))),
      uf_counted = map ue_id (firsts evs), uf_kinds = map ue_kind (firsts evs),
      uf_total = sum_list (map amount (firsts evs)),
      uf_duplicates = length evs - length (firsts evs),
      uf_unknown = length (filter (\<lambda>e. ue_delta e = None) (firsts evs))\<rparr>"

lemma length_firsts: "length (firsts evs) \<le> length evs"
  by (induction evs rule: rev_induct) (auto simp: firsts_snoc)

lemma seen_summary:
  "uf_seen (summary evs) i = map_option assinatura (List.find (\<lambda>e. ue_id e = i) (firsts evs))"
  by (simp add: summary_def)

lemma find_snoc:
  "List.find p (xs @ [x]) = (case List.find p xs of None \<Rightarrow> if p x then Some x else None | Some y \<Rightarrow> Some y)"
  by (induction xs) auto

lemma seen_snoc:
  assumes "\<not> known_by es e"
  shows "(\<lambda>i. map_option assinatura (List.find (\<lambda>a. ue_id a = i) (es @ [e])))
    = (\<lambda>i. map_option assinatura (List.find (\<lambda>a. ue_id a = i) es))(ue_id e \<mapsto> assinatura e)"
proof
  fix i
  have "List.find (\<lambda>a. ue_id a = ue_id e) es = None"
    using assms unfolding known_by_def find_None_iff_all by (metis imageI)
  then show "map_option assinatura (List.find (\<lambda>a. ue_id a = i) (es @ [e]))
    = ((\<lambda>i. map_option assinatura (List.find (\<lambda>a. ue_id a = i) es))(ue_id e \<mapsto> assinatura e)) i"
    by (cases "i = ue_id e") (auto simp: find_snoc split: option.splits)
qed

lemma parseDelta_amount:
  "parseDelta e = Inr v \<Longrightarrow> amount e = (case v of None \<Rightarrow> 0 | Some n \<Rightarrow> n) \<and> (v = None \<longleftrightarrow> ue_delta e = None)"
  by (auto simp: parseDelta_def amount_def Let_def split: option.splits if_splits)

lemma fold_event_summary:
  assumes "consistent evs"
  shows "(\<exists>st. fold_event e (summary evs) = Inr st) \<longleftrightarrow> consistent (evs @ [e])"
    and "consistent (evs @ [e]) \<Longrightarrow> fold_event e (summary evs) = Inr (summary (evs @ [e]))"
proof -
  have "fold_event e (summary evs) = Inr (summary (evs @ [e]))" if "consistent (evs @ [e])"
  proof (cases "List.find (\<lambda>a. ue_id a = ue_id e) (firsts evs)")
    case (Some a)
    then have "a \<in> set (firsts evs)" "ue_id a = ue_id e" by (auto dest: find_SomeD)
    moreover from this have "assinatura a = assinatura e"
      using that firsts_subset [of evs] by (auto simp: consistent_snoc)
    moreover have "known_by (firsts evs) e" using calculation unfolding known_by_def by (metis imageI)
    ultimately show ?thesis using Some length_firsts [of evs]
      by (simp add: fold_event_def seen_summary) (simp add: summary_def firsts_snoc Suc_diff_le)
  next
    case None
    then have new: "\<not> known_by (firsts evs) e" by (auto simp: known_by_def find_None_iff_all)
    from that obtain v where v: "parseDelta e = Inr v" by (auto simp: consistent_snoc)
    have "summary (evs @ [e]) = (summary evs)\<lparr>uf_seen := (uf_seen (summary evs))(ue_id e \<mapsto> assinatura e),
         uf_counted := uf_counted (summary evs) @ [ue_id e], uf_kinds := uf_kinds (summary evs) @ [ue_kind e],
         uf_total := uf_total (summary evs) + amount e,
         uf_unknown := uf_unknown (summary evs) + (if ue_delta e = None then 1 else 0)\<rparr>"
      using length_firsts [of evs]
      by (simp only: summary_def firsts_snoc new if_False seen_snoc [OF new]) simp
    moreover have "uf_seen (summary evs) (ue_id e) = None" using None by (simp add: seen_summary)
    moreover note parseDelta_amount [OF v]
    ultimately show ?thesis by (cases v) (simp_all add: fold_event_def v)
  qed
  moreover have "consistent (evs @ [e])" if "fold_event e (summary evs) = Inr st" for st
  proof (cases "List.find (\<lambda>a. ue_id a = ue_id e) (firsts evs)")
    case (Some a)
    then have a: "a \<in> set evs" "ue_id a = ue_id e" using firsts_subset [of evs] by (auto dest: find_SomeD)
    with that Some have sig: "assinatura a = assinatura e"
      by (simp add: fold_event_def seen_summary split: if_splits)
    with a(2) have "a = e" by (simp add: assinatura_eq)
    with a(1) have "set (evs @ [e]) = set evs" by auto
    with assms show ?thesis unfolding consistent_def by (simp only:)
  next
    case None
    then have "e' \<in> set evs \<Longrightarrow> ue_id e' \<noteq> ue_id e" for e'
      using firsts_ids [of evs] by (force simp: find_None_iff_all)
    moreover have "\<exists>v. parseDelta e = Inr v"
      using that None by (simp add: fold_event_def seen_summary split: sum.splits)
    ultimately show ?thesis using assms by (auto simp: consistent_snoc)
  qed
  ultimately show "(\<exists>st. fold_event e (summary evs) = Inr st) \<longleftrightarrow> consistent (evs @ [e])"
    and "consistent (evs @ [e]) \<Longrightarrow> fold_event e (summary evs) = Inr (summary (evs @ [e]))" by blast+
qed

lemma consistent_prefix: "consistent (evs @ es) \<Longrightarrow> consistent evs"
  by (auto simp: consistent_def)

lemma fold_events_summary:
  "consistent ps \<Longrightarrow> fold_events evs (summary ps) = Inr st \<longleftrightarrow> consistent (ps @ evs) \<and> st = summary (ps @ evs)"
proof (induction evs arbitrary: ps)
  case (Cons e evs)
  show ?case
  proof (cases "consistent (ps @ [e])")
    case True
    with fold_event_summary(2) [OF Cons.prems True] Cons.IH [OF True] show ?thesis by simp
  next
    case False
    with fold_event_summary(1) [OF Cons.prems, of e] obtain err where "fold_event e (summary ps) = Inl err"
      by (cases "fold_event e (summary ps)") auto
    moreover have "\<not> consistent (ps @ e # evs)" using False consistent_prefix [of "ps @ [e]" evs] by auto
    ultimately show ?thesis by simp
  qed
qed auto


end
