(* ===== verification/Inference_Grant.thy ===== *)
theory Inference_Grant
  imports Usage_Accounting
begin

text \<open>
  The pure decisions of the inference gateway: the admission against a budget account
  (src/integrations/hermes/cost-reservation.ts), and the validation of a grant, the pairing of tool results
  and the errors of the wire (src/integrations/hermes/inference-gateway.ts). Amounts are decimal strings; an
  instant is what \<open>Date.parse\<close> reads, \<open>None\<close> where it reads nothing.
\<close>

section \<open>Admission against a budget\<close>

datatype admission_guarantee = Admission_Only

record budget_account =
  ba_limit :: string
  ba_reserved :: string
  ba_settled :: string
  ba_version :: nat

record admission_request =
  ar_estimate :: "string option"
  ar_calls :: nat
  ar_max_calls :: nat

datatype admission_refusal =
  Budget_Exhausted | Inference_Limit_Exceeded | Admission_Unavailable | Unknown_Price

datatype admission_decision =
    Admit admission_guarantee string     \<comment> \<open>\<open>reserve_microusd\<close>\<close>
  | Refuse admission_guarantee admission_refusal

definition ADMISSION_GUARANTEE :: admission_guarantee where
  "ADMISSION_GUARANTEE = Admission_Only"

text \<open>\<open>uint\<close>: the TypeError names the field.\<close>

definition uint_of :: "string \<Rightarrow> string \<Rightarrow> string + int" where
  "uint_of valor campo = (if \<not> uint_text valor then Inl campo else Inr (big_int valor))"

definition decideAdmission :: "budget_account option \<Rightarrow> admission_request \<Rightarrow> string + admission_decision" where
  "decideAdmission account request =
     (case account of
        None \<Rightarrow> Inr (Refuse ADMISSION_GUARANTEE Admission_Unavailable)
      | Some acc \<Rightarrow>
          if ar_max_calls request \<le> ar_calls request
          then Inr (Refuse ADMISSION_GUARANTEE Inference_Limit_Exceeded)
          else
            (case ar_estimate request of
               None \<Rightarrow> Inr (Refuse ADMISSION_GUARANTEE Unknown_Price)
             | Some estimate \<Rightarrow>
                 (case uint_of estimate ''estimate_microusd'' of Inl e \<Rightarrow> Inl e | Inr estimativa \<Rightarrow>
                 (case uint_of (ba_limit acc) ''limit_microusd'' of Inl e \<Rightarrow> Inl e | Inr limite \<Rightarrow>
                 (case uint_of (ba_reserved acc) ''reserved_microusd'' of Inl e \<Rightarrow> Inl e | Inr reservado \<Rightarrow>
                 (case uint_of (ba_settled acc) ''settled_microusd'' of Inl e \<Rightarrow> Inl e | Inr liquidado \<Rightarrow>
                    let exposicao = reservado + liquidado + estimativa
                    in if exposicao > limite then Inr (Refuse ADMISSION_GUARANTEE Budget_Exhausted)
                       else Inr (Admit ADMISSION_GUARANTEE (int_text estimativa))))))))"

definition applyAdmission :: "budget_account \<Rightarrow> admission_decision \<Rightarrow> string + budget_account" where
  "applyAdmission account decision =
     (case decision of
        Refuse _ _ \<Rightarrow> Inr account
      | Admit _ reserve \<Rightarrow>
          (case uint_of (ba_reserved account) ''reserved_microusd'' of Inl e \<Rightarrow> Inl e | Inr reservado \<Rightarrow>
          (case uint_of reserve ''reserve_microusd'' of Inl e \<Rightarrow> Inl e | Inr acrescimo \<Rightarrow>
             Inr (account\<lparr>ba_reserved := int_text (reservado + acrescimo),
                          ba_version := ba_version account + 1\<rparr>))))"

text \<open>The account of a row of the table, whose amounts are not negative.\<close>

definition account_texts :: "int \<Rightarrow> int \<Rightarrow> int \<Rightarrow> nat \<Rightarrow> budget_account" where
  "account_texts limit reserved settled version =
     \<lparr>ba_limit = int_text limit, ba_reserved = int_text reserved, ba_settled = int_text settled,
      ba_version = version\<rparr>"

lemma uint_of_int_text: "0 \<le> n \<Longrightarrow> uint_of (int_text n) f = Inr n"
  by (simp add: uint_of_def uint_text_int_text big_int_text)

lemma uint_ofE: "uint_of s f = Inr n \<Longrightarrow> uint_text s \<and> n = big_int s \<and> 0 \<le> n"
  by (auto simp: uint_of_def big_int_nonneg split: if_splits)

lemma decideAdmission_admit:
  assumes "0 \<le> limit" and "0 \<le> reserved" and "0 \<le> settled"
    and "decideAdmission (Some (account_texts limit reserved settled version)) request = Inr (Admit g reserve)"
  obtains e where "reserve = int_text e" and "0 \<le> e" and "reserved + settled + e \<le> limit"
    and "ar_calls request < ar_max_calls request" and "ar_estimate request \<noteq> None"
proof -
  from assms(4) obtain s where calls: "ar_calls request < ar_max_calls request" and s: "ar_estimate request = Some s"
    and u: "uint_of s ''estimate_microusd'' = Inr (big_int s)" "0 \<le> big_int s"
    by (auto simp: decideAdmission_def dest: uint_ofE split: option.splits if_splits sum.splits)
  with assms that [of "big_int s"] show ?thesis
    by (auto simp: decideAdmission_def account_texts_def uint_of_int_text Let_def split: if_splits)
qed

lemma applyAdmission_admit:
  assumes "0 \<le> reserved" and "0 \<le> e"
  shows "applyAdmission (account_texts limit reserved settled version) (Admit g (int_text e))
    = Inr (account_texts limit (reserved + e) settled (version + 1))"
  using assms by (simp add: applyAdmission_def account_texts_def uint_of_int_text)

section \<open>Errors of the wire\<close>

datatype inference_error =
    Err_Invalid_Request | Err_Unsupported_Parameter | Err_Invalid_Grant | Err_Run_Revoked
  | Err_Model_Not_Allowed | Err_Tool_Surface_Mismatch | Err_Run_Not_Active | Err_Payload_Too_Large
  | Err_Budget_Exhausted | Err_Limit_Exceeded | Err_Admission_Unavailable | Err_Provider_Unavailable

fun INFERENCE_ERROR_STATUS :: "inference_error \<Rightarrow> nat" where
  "INFERENCE_ERROR_STATUS Err_Invalid_Request = 400"
| "INFERENCE_ERROR_STATUS Err_Unsupported_Parameter = 400"
| "INFERENCE_ERROR_STATUS Err_Invalid_Grant = 401"
| "INFERENCE_ERROR_STATUS Err_Run_Revoked = 403"
| "INFERENCE_ERROR_STATUS Err_Model_Not_Allowed = 403"
| "INFERENCE_ERROR_STATUS Err_Tool_Surface_Mismatch = 403"
| "INFERENCE_ERROR_STATUS Err_Run_Not_Active = 409"
| "INFERENCE_ERROR_STATUS Err_Payload_Too_Large = 413"
| "INFERENCE_ERROR_STATUS Err_Budget_Exhausted = 429"
| "INFERENCE_ERROR_STATUS Err_Limit_Exceeded = 429"
| "INFERENCE_ERROR_STATUS Err_Admission_Unavailable = 503"
| "INFERENCE_ERROR_STATUS Err_Provider_Unavailable = 503"

fun INFERENCE_ERROR_TYPE :: "inference_error \<Rightarrow> string" where
  "INFERENCE_ERROR_TYPE Err_Invalid_Request = ''invalid_request_error''"
| "INFERENCE_ERROR_TYPE Err_Unsupported_Parameter = ''invalid_request_error''"
| "INFERENCE_ERROR_TYPE Err_Invalid_Grant = ''authentication_error''"
| "INFERENCE_ERROR_TYPE Err_Run_Revoked = ''permission_error''"
| "INFERENCE_ERROR_TYPE Err_Model_Not_Allowed = ''permission_error''"
| "INFERENCE_ERROR_TYPE Err_Tool_Surface_Mismatch = ''permission_error''"
| "INFERENCE_ERROR_TYPE Err_Run_Not_Active = ''conflict_error''"
| "INFERENCE_ERROR_TYPE Err_Payload_Too_Large = ''invalid_request_error''"
| "INFERENCE_ERROR_TYPE Err_Budget_Exhausted = ''quota_error''"
| "INFERENCE_ERROR_TYPE Err_Limit_Exceeded = ''quota_error''"
| "INFERENCE_ERROR_TYPE Err_Admission_Unavailable = ''service_unavailable_error''"
| "INFERENCE_ERROR_TYPE Err_Provider_Unavailable = ''service_unavailable_error''"

record wire_error =
  we_status :: nat
  we_type :: string
  we_code :: inference_error

definition toWireError :: "inference_error \<Rightarrow> wire_error" where
  "toWireError code = \<lparr>we_status = INFERENCE_ERROR_STATUS code, we_type = INFERENCE_ERROR_TYPE code,
     we_code = code\<rparr>"

section \<open>Pairs of tool calls and results\<close>

text \<open>Messages by what the pairing reads: the ids an assistant announces, the id a tool answers.\<close>

datatype chat_message = Assistant_Message "string list" | Tool_Message string | Other_Message

fun orphan_from :: "string set \<Rightarrow> nat \<Rightarrow> chat_message list \<Rightarrow> nat option" where
  "orphan_from anunciadas i [] = None"
| "orphan_from anunciadas i (m # ms) =
     (case m of
        Assistant_Message ids \<Rightarrow> orphan_from (anunciadas \<union> set ids) (Suc i) ms
      | Tool_Message r \<Rightarrow> if r \<notin> anunciadas then Some i else orphan_from anunciadas (Suc i) ms
      | Other_Message \<Rightarrow> orphan_from anunciadas (Suc i) ms)"

definition primeiroToolResultOrfao :: "chat_message list \<Rightarrow> nat option" where
  "primeiroToolResultOrfao messages = orphan_from {} 0 messages"

fun announced :: "chat_message \<Rightarrow> string set" where
  "announced (Assistant_Message ids) = set ids"
| "announced _ = {}"

definition orphan_at :: "chat_message list \<Rightarrow> nat \<Rightarrow> bool" where
  "orphan_at ms i \<longleftrightarrow> i < length ms
     \<and> (\<exists>r. ms ! i = Tool_Message r \<and> r \<notin> (\<Union>m \<in> set (take i ms). announced m))"

lemma orphan_from_spec:
  "case orphan_from A k ms of
     Some j \<Rightarrow> \<exists>i. j = k + i \<and> i < length ms
       \<and> (\<exists>r. ms ! i = Tool_Message r \<and> r \<notin> A \<union> (\<Union>m \<in> set (take i ms). announced m))
   | None \<Rightarrow> \<forall>i < length ms. \<forall>r. ms ! i = Tool_Message r \<longrightarrow> r \<in> A \<union> (\<Union>m \<in> set (take i ms). announced m)"
proof (induction ms arbitrary: A k)
  case (Cons m ms)
  have first: "(\<exists>i. j = k + i \<and> i < length (m # ms)
        \<and> (\<exists>r. (m # ms) ! i = Tool_Message r \<and> r \<notin> A \<union> (\<Union>x \<in> set (take i (m # ms)). announced x)))"
    if "\<exists>i. j = Suc k + i \<and> i < length ms
        \<and> (\<exists>r. ms ! i = Tool_Message r \<and> r \<notin> (A \<union> announced m) \<union> (\<Union>x \<in> set (take i ms). announced x))" for j
  proof -
    from that obtain i r where "j = Suc k + i" "i < length ms" "ms ! i = Tool_Message r"
      "r \<notin> (A \<union> announced m) \<union> (\<Union>x \<in> set (take i ms). announced x)" by blast
    then show ?thesis by (intro exI [of _ "Suc i"]) simp
  qed
  have none: "\<forall>i < length (m # ms). \<forall>r. (m # ms) ! i = Tool_Message r
        \<longrightarrow> r \<in> A \<union> (\<Union>x \<in> set (take i (m # ms)). announced x)"
    if "\<forall>i < length ms. \<forall>r. ms ! i = Tool_Message r
        \<longrightarrow> r \<in> (A \<union> announced m) \<union> (\<Union>x \<in> set (take i ms). announced x)"
      and "\<And>r. m = Tool_Message r \<Longrightarrow> r \<in> A"
    using that by (auto simp: nth_Cons take_Cons split: nat.splits)
  show ?case
  proof (cases m)
    case (Assistant_Message ids)
    with Cons.IH [of "A \<union> set ids" "Suc k"] first none show ?thesis
      by (cases "orphan_from (A \<union> set ids) (Suc k) ms") simp_all
  next
    case (Tool_Message r)
    show ?thesis
    proof (cases "r \<in> A")
      case True
      with Cons.IH [of A "Suc k"] first none Tool_Message show ?thesis
        by (cases "orphan_from A (Suc k) ms") simp_all
    qed (simp add: Tool_Message)
  next
    case Other_Message
    with Cons.IH [of A "Suc k"] first none show ?thesis
      by (cases "orphan_from A (Suc k) ms") simp_all
  qed
qed simp

lemma orphan_result_iff: "primeiroToolResultOrfao ms = None \<longleftrightarrow> \<not> (\<exists>i. orphan_at ms i)"
proof (cases "orphan_from {} 0 ms")
  case None
  with orphan_from_spec [where A = "{}" and k = 0 and ms = ms] show ?thesis by (auto simp: primeiroToolResultOrfao_def orphan_at_def)
next
  case (Some j)
  with orphan_from_spec [where A = "{}" and k = 0 and ms = ms] show ?thesis by (auto simp: primeiroToolResultOrfao_def orphan_at_def)
qed

section \<open>Validation of a grant\<close>

text \<open>\<open>EngineRunPhaseV1\<close> of src/runtime/engines/contracts.ts.\<close>

datatype run_phase =
    Run_Prepared | Run_Submitting | Run_Submission_Unknown | Run_Running | Run_Cancelling
  | Run_Reconciling | Run_Result_Ready | Run_Blocked | Run_Closed

record inference_grant =
  ig_run :: uuid
  ig_tenant :: string
  ig_agent :: string
  ig_epoch :: nat
  ig_audience :: string
  ig_model :: string
  ig_manifest :: string
  ig_tools :: "string list"
  ig_expires :: "instant option"
  ig_revoked :: "instant option"
  ig_max_calls :: nat

record inference_context =
  ic_audience :: string
  ic_now :: "instant option"
  ic_phase :: run_phase
  ic_calls :: nat
  ic_model :: string
  ic_manifest :: string
  ic_tools :: "string list"

datatype grant_audit_reason =
    Ga_Absent | Ga_Audience_Mismatch | Ga_Expired | Ga_Revoked | Ga_Run_Not_Active
  | Ga_Model_Not_Allowed | Ga_Manifest_Mismatch | Ga_Tool_Not_In_Manifest | Ga_Call_Cap_Reached

datatype grant_validation = Grant_Ok | Grant_Refused inference_error grant_audit_reason

definition expirou :: "instant option \<Rightarrow> instant option \<Rightarrow> bool" where
  "expirou now expires_at =
     (case (now, expires_at) of (Some agora, Some fim) \<Rightarrow> agora > fim | _ \<Rightarrow> True)"

definition validateInferenceGrant :: "inference_grant option \<Rightarrow> inference_context \<Rightarrow> grant_validation" where
  "validateInferenceGrant grant ctx =
     (case grant of
        None \<Rightarrow> Grant_Refused Err_Invalid_Grant Ga_Absent
      | Some g \<Rightarrow>
          if length (ic_audience ctx) = 0 \<or> ic_audience ctx \<noteq> ig_audience g
          then Grant_Refused Err_Invalid_Grant Ga_Audience_Mismatch
          else if expirou (ic_now ctx) (ig_expires g) then Grant_Refused Err_Invalid_Grant Ga_Expired
          else if ig_revoked g \<noteq> None then Grant_Refused Err_Run_Revoked Ga_Revoked
          else if ic_phase ctx \<noteq> Run_Running then Grant_Refused Err_Run_Not_Active Ga_Run_Not_Active
          else if ic_model ctx \<noteq> ig_model g then Grant_Refused Err_Model_Not_Allowed Ga_Model_Not_Allowed
          else if ic_manifest ctx \<noteq> ig_manifest g
          then Grant_Refused Err_Tool_Surface_Mismatch Ga_Manifest_Mismatch
          else if list_ex (\<lambda>nome. nome \<notin> set (ig_tools g)) (ic_tools ctx)
          then Grant_Refused Err_Tool_Surface_Mismatch Ga_Tool_Not_In_Manifest
          else if ig_max_calls g \<le> ic_calls ctx then Grant_Refused Err_Limit_Exceeded Ga_Call_Cap_Reached
          else Grant_Ok)"

definition authenticated :: "inference_grant option \<Rightarrow> inference_context \<Rightarrow> bool" where
  "authenticated grant ctx \<longleftrightarrow>
     (\<exists>g n x. grant = Some g \<and> ic_audience ctx \<noteq> [] \<and> ic_audience ctx = ig_audience g
        \<and> ic_now ctx = Some n \<and> ig_expires g = Some x \<and> n \<le> x)"

lemma expirou_iff: "expirou n x \<longleftrightarrow> \<not> (\<exists>a b. n = Some a \<and> x = Some b \<and> a \<le> b)"
  by (cases n; cases x) (auto simp: expirou_def)

lemma validate_ok_iff:
  "validateInferenceGrant (Some g) ctx = Grant_Ok \<longleftrightarrow>
     authenticated (Some g) ctx \<and> ig_revoked g = None \<and> ic_phase ctx = Run_Running
     \<and> ic_model ctx = ig_model g \<and> ic_manifest ctx = ig_manifest g
     \<and> set (ic_tools ctx) \<subseteq> set (ig_tools g) \<and> ic_calls ctx < ig_max_calls g"
  by (auto simp: validateInferenceGrant_def authenticated_def expirou_iff list_ex_iff not_le)

text \<open>
  Who does not present a live credential for its audience learns nothing of the run: the
  refusal on the wire is the same whatever the grant, its run, model, tools and budget are.
\<close>

lemma unauthenticated_learns_nothing:
  assumes "\<not> authenticated grant ctx" and "\<not> authenticated grant' ctx'"
    and "validateInferenceGrant grant ctx = Grant_Refused code reason"
    and "validateInferenceGrant grant' ctx' = Grant_Refused code' reason'"
  shows "toWireError code = toWireError code'"
proof -
  have "code = Err_Invalid_Grant"
    if "\<not> authenticated grant ctx" "validateInferenceGrant grant ctx = Grant_Refused code reason"
    for grant ctx code reason
    using that by (cases grant) (auto simp: validateInferenceGrant_def authenticated_def expirou_iff split: if_splits)
  with assms show ?thesis by metis
qed

lemma unauthenticated_learns_nothing_witness:
  "toWireError Err_Invalid_Grant = toWireError Err_Invalid_Grant"
proof (rule unauthenticated_learns_nothing)
  let ?ctx = "\<lparr>ic_audience = [], ic_now = None, ic_phase = Run_Running, ic_calls = 0, ic_model = [],
    ic_manifest = [], ic_tools = []\<rparr>"
  show "\<not> authenticated None ?ctx" and "\<not> authenticated None ?ctx" by (simp_all add: authenticated_def)
  show "validateInferenceGrant None ?ctx = Grant_Refused Err_Invalid_Grant Ga_Absent"
    and "validateInferenceGrant None ?ctx = Grant_Refused Err_Invalid_Grant Ga_Absent"
    by (simp_all add: validateInferenceGrant_def)
qed

end
