(* ===== verification/Inference_Ledger.thy ===== *)
theory Inference_Ledger
  imports Inference_Grant Turn_Store
begin

text \<open>
  The ledger of the inference gateway (src/db/repositories/inference-repos.ts over the tables of
  src/migrations/144_hermes_inference_ledger.sql): grants, admission with reservation, settlement,
  revocation and budget accounts. Each transaction is one step; the row locks of the code order them.
  The clock of the database, generated ids and the token are arguments. A violated constraint
  raises, and the transaction leaves nothing.
\<close>

section \<open>Tables\<close>

record run_row =
  rr_id :: uuid
  rr_tenant :: string
  rr_agent :: string
  rr_turn :: uuid
  rr_control :: uuid
  rr_claim :: uuid                       \<comment> \<open>\<open>origin_claim_token\<close>\<close>
  rr_attempt :: nat                      \<comment> \<open>\<open>origin_turn_attempt\<close>\<close>
  rr_phase :: run_phase
  rr_epoch :: nat
  rr_manifest :: string
  rr_deadline :: instant
  rr_revoked :: "instant option"         \<comment> \<open>\<open>capabilities_revoked_at\<close>\<close>

record grant_row =
  gr_id :: uuid
  gr_tenant :: string
  gr_agent :: string
  gr_run :: uuid
  gr_token_hash :: string
  gr_audience :: string
  gr_model :: string
  gr_epoch :: nat
  gr_manifest :: string
  gr_surface :: "(string \<times> string) list"
  gr_max_calls :: nat
  gr_max_tokens :: nat
  gr_expires :: instant
  gr_created :: instant
  gr_revoked :: "instant option"
  gr_revoke_reason :: "string option"

record account_row =
  ac_id :: uuid
  ac_tenant :: string
  ac_agent :: string
  ac_period :: int                       \<comment> \<open>\<open>period_start_utc\<close>, in days\<close>
  ac_limit :: int
  ac_reserved :: int
  ac_settled :: int
  ac_version :: nat

datatype attempt_state = At_Reserved | At_Not_Sent | At_Completed | At_Failed_After_Send

record attempt_row =
  at_id :: uuid
  at_tenant :: string
  at_agent :: string
  at_run :: uuid
  at_grant :: uuid
  at_account :: uuid
  at_seq :: nat
  at_provider :: string
  at_model :: string
  at_hash :: string                      \<comment> \<open>\<open>request_hash\<close>\<close>
  at_state :: attempt_state
  at_accounting :: accounting_status
  at_reserved :: "int option"
  at_settled :: "int option"
  at_tariff :: "string option"
  at_prompt :: "int option"
  at_completion :: "int option"
  at_error :: "string option"
  at_finished :: "instant option"

record event_row =
  ev_tenant :: string
  ev_agent :: string
  ev_run :: uuid
  ev_attempt :: uuid
  ev_key :: string
  ev_kind :: usage_kind
  ev_source :: usage_source
  ev_delta :: "int option"

record quota_audit =
  qa_tenant :: string
  qa_agent :: string
  qa_grant :: uuid                       \<comment> \<open>\<open>alvo_id\<close>\<close>
  qa_code :: inference_error
  qa_reason :: string
  qa_attempt :: uuid
  qa_model :: string
  qa_estimate :: "string option"

record ledger =
  l_turns :: "turn list"
  l_controls :: "conversation_control list"
  l_runs :: "run_row list"
  l_grants :: "grant_row list"
  l_accounts :: "account_row list"
  l_attempts :: "attempt_row list"
  l_events :: "event_row list"
  l_audits :: "quota_audit list"

section \<open>Constraints\<close>

datatype sql_error = Check_Violation | Unique_Violation | Numeric_Out_Of_Range | Type_Error

type_synonym 'r ledger_result = "sql_error + 'r \<times> ledger"

definition bigint_ok :: "int \<Rightarrow> bool" where
  "bigint_ok n = (- (2 ^ 63) \<le> n \<and> n < 2 ^ 63)"

definition int4_ok :: "int \<Rightarrow> bool" where
  "int4_ok n = (- (2 ^ 31) \<le> n \<and> n < 2 ^ 31)"

definition hex_digest :: "string \<Rightarrow> bool" where
  "hex_digest s = (length s = 64 \<and> list_all (\<lambda>c. is_digit c \<or> c \<in> set ''abcdef'') s)"

definition length_between :: "nat \<Rightarrow> nat \<Rightarrow> string \<Rightarrow> bool" where
  "length_between a b s = (a \<le> length s \<and> length s \<le> b)"

text \<open>The CHECKs of the four tables, apart from the size of the text of \<open>tool_surface\<close>.\<close>

definition scope_check :: "scope \<Rightarrow> bool" where
  "scope_check sc = (fst sc \<noteq> ''default'' \<and> snd sc \<noteq> ''default'' \<and> 0 < length (fst sc) \<and> 0 < length (snd sc))"

definition account_check :: "account_row \<Rightarrow> bool" where
  "account_check a = (0 \<le> ac_limit a \<and> 0 \<le> ac_reserved a \<and> 0 \<le> ac_settled a
     \<and> scope_check (ac_tenant a, ac_agent a))"

definition grant_check :: "grant_row \<Rightarrow> bool" where
  "grant_check g = (hex_digest (gr_token_hash g) \<and> length_between 1 128 (gr_audience g)
     \<and> length_between 1 256 (gr_model g) \<and> hex_digest (gr_manifest g) \<and> 0 < gr_max_tokens g
     \<and> gr_created g < gr_expires g \<and> (gr_revoked g = None \<longleftrightarrow> gr_revoke_reason g = None)
     \<and> (case gr_revoke_reason g of None \<Rightarrow> True | Some r \<Rightarrow> length_between 1 64 r)
     \<and> scope_check (gr_tenant g, gr_agent g))"

definition nonneg_null :: "int option \<Rightarrow> bool" where
  "nonneg_null v = (case v of None \<Rightarrow> True | Some n \<Rightarrow> 0 \<le> n)"

definition attempt_check :: "attempt_row \<Rightarrow> bool" where
  "attempt_check t = (0 < at_seq t \<and> length_between 1 64 (at_provider t) \<and> length_between 1 256 (at_model t)
     \<and> hex_digest (at_hash t) \<and> nonneg_null (at_reserved t) \<and> nonneg_null (at_settled t)
     \<and> (case at_tariff t of None \<Rightarrow> True | Some v \<Rightarrow> length_between 1 128 v)
     \<and> nonneg_null (at_prompt t) \<and> nonneg_null (at_completion t)
     \<and> (case at_error t of None \<Rightarrow> True | Some e \<Rightarrow> length e \<le> 64)
     \<and> (at_state t = At_Reserved \<longleftrightarrow> at_finished t = None)
     \<and> (at_accounting t = Acc_Settled \<longrightarrow> at_settled t \<noteq> None)
     \<and> (at_accounting t = Acc_Unknown \<longrightarrow> at_settled t = None)
     \<and> scope_check (at_tenant t, at_agent t))"

definition int4_null :: "int option \<Rightarrow> bool" where
  "int4_null v = (case v of None \<Rightarrow> True | Some n \<Rightarrow> int4_ok n)"

definition bigint_null :: "int option \<Rightarrow> bool" where
  "bigint_null v = (case v of None \<Rightarrow> True | Some n \<Rightarrow> bigint_ok n)"

section \<open>Selections\<close>

definition run_of :: "scope \<Rightarrow> uuid \<Rightarrow> ledger \<Rightarrow> run_row option" where
  "run_of sc rid l = List.find (\<lambda>r. rr_tenant r = fst sc \<and> rr_agent r = snd sc \<and> rr_id r = rid) (l_runs l)"

definition grant_of :: "scope \<Rightarrow> uuid \<Rightarrow> ledger \<Rightarrow> grant_row option" where
  "grant_of sc gid l = List.find (\<lambda>g. gr_tenant g = fst sc \<and> gr_agent g = snd sc \<and> gr_id g = gid) (l_grants l)"

definition attempt_of :: "scope \<Rightarrow> uuid \<Rightarrow> ledger \<Rightarrow> attempt_row option" where
  "attempt_of sc aid l =
     List.find (\<lambda>t. at_tenant t = fst sc \<and> at_agent t = snd sc \<and> at_id t = aid) (l_attempts l)"

definition lockControlByRun :: "scope \<Rightarrow> uuid \<Rightarrow> ledger \<Rightarrow> conversation_control option" where
  "lockControlByRun sc rid l =
     (case run_of sc rid l of
        None \<Rightarrow> None
      | Some r \<Rightarrow> List.find (\<lambda>c. c_tenant c = fst sc \<and> c_agent c = snd sc \<and> c_id c = rr_control r) (l_controls l))"

definition utc_day :: "instant \<Rightarrow> int" where
  "utc_day now = now div 86400000"

definition account_of_day :: "scope \<Rightarrow> instant \<Rightarrow> ledger \<Rightarrow> account_row option" where
  "account_of_day sc now l =
     List.find (\<lambda>a. ac_tenant a = fst sc \<and> ac_agent a = snd sc \<and> ac_period a = utc_day now) (l_accounts l)"

definition grantV1 :: "grant_row \<Rightarrow> run_row \<Rightarrow> inference_grant" where
  "grantV1 g run =
     \<lparr>ig_run = gr_run g, ig_tenant = gr_tenant g, ig_agent = gr_agent g, ig_epoch = gr_epoch g,
      ig_audience = gr_audience g, ig_model = gr_model g, ig_manifest = gr_manifest g,
      ig_tools = map fst (gr_surface g), ig_expires = Some (gr_expires g),
      ig_revoked = (case gr_revoked g of None \<Rightarrow> rr_revoked run | Some r \<Rightarrow> Some r),
      ig_max_calls = gr_max_calls g\<rparr>"

definition contarTentativas :: "scope \<Rightarrow> uuid \<Rightarrow> ledger \<Rightarrow> nat" where
  "contarTentativas sc rid l =
     length (filter (\<lambda>t. at_tenant t = fst sc \<and> at_agent t = snd sc \<and> at_run t = rid) (l_attempts l))"

datatype turn_ownership = Own_Ok | Own_Stale_Claim | Own_Turn_Not_Running

definition posseDoTurno :: "scope \<Rightarrow> instant \<Rightarrow> run_row \<Rightarrow> ledger \<Rightarrow> turn_ownership" where
  "posseDoTurno sc now run l =
     (case List.find (\<lambda>t. is_turn sc (rr_turn run) t) (l_turns l) of
        None \<Rightarrow> Own_Stale_Claim
      | Some t \<Rightarrow>
          if t_token t \<noteq> Some (rr_claim run)
             \<or> \<not> (case t_lease t of None \<Rightarrow> False | Some x \<Rightarrow> now < x)
             \<or> t_attempts t \<noteq> rr_attempt run
          then Own_Stale_Claim
          else if t_status t = Running then Own_Ok else Own_Turn_Not_Running)"

definition controleOk :: "conversation_control option \<Rightarrow> run_row \<Rightarrow> grant_row \<Rightarrow> bool" where
  "controleOk controle run grant =
     (case controle of
        None \<Rightarrow> False
      | Some c \<Rightarrow> c_mode c = Bot \<and> c_epoch c = gr_epoch grant \<and> rr_epoch run = gr_epoch grant)"

section \<open>Emission, reading and revocation of grants\<close>

datatype issue_rejection = Iss_Run_Not_Found | Iss_Run_Revoked | Iss_Run_Closed

record issue_input =
  is_run :: uuid
  is_audience :: string
  is_model :: string
  is_surface :: "(string \<times> string) list"
  is_max_calls :: nat
  is_max_tokens :: nat
  is_ttl_ms :: int

record issued_grant =
  gi_grant :: uuid
  gi_token :: string
  gi_expires :: instant

text \<open>The token and the id are generated; \<open>sha\<close> is \<open>hashInferenceToken\<close>.\<close>

definition issueGrant :: "(string \<Rightarrow> string) \<Rightarrow> scope \<Rightarrow> instant \<Rightarrow> uuid \<Rightarrow> string \<Rightarrow> issue_input \<Rightarrow> ledger
    \<Rightarrow> (issue_rejection + issued_grant) ledger_result" where
  "issueGrant sha sc now gid token i l =
     (case run_of sc (is_run i) l of
        None \<Rightarrow> Inr (Inl Iss_Run_Not_Found, l)
      | Some run \<Rightarrow>
          if rr_revoked run \<noteq> None then Inr (Inl Iss_Run_Revoked, l)
          else if rr_phase run = Run_Closed then Inr (Inl Iss_Run_Closed, l)
          else
            let g = \<lparr>gr_id = gid, gr_tenant = fst sc, gr_agent = snd sc, gr_run = is_run i,
                     gr_token_hash = sha token, gr_audience = is_audience i, gr_model = is_model i,
                     gr_epoch = rr_epoch run, gr_manifest = rr_manifest run, gr_surface = is_surface i,
                     gr_max_calls = is_max_calls i, gr_max_tokens = is_max_tokens i,
                     gr_expires = now + is_ttl_ms i, gr_created = now, gr_revoked = None,
                     gr_revoke_reason = None\<rparr>
            in if \<not> grant_check g then Inl Check_Violation
               else if \<not> int4_ok (int (gr_max_calls g)) \<or> \<not> int4_ok (int (gr_max_tokens g))
               then Inl Numeric_Out_Of_Range
               else if gid \<in> gr_id ` set (l_grants l) \<or> sha token \<in> gr_token_hash ` set (l_grants l)
               then Inl Unique_Violation
               else Inr (Inr \<lparr>gi_grant = gid, gi_token = token, gi_expires = gr_expires g\<rparr>,
                         l\<lparr>l_grants := l_grants l @ [g]\<rparr>))"

definition resolveGrantScope :: "string \<Rightarrow> ledger \<Rightarrow> (uuid \<times> string \<times> string) option" where
  "resolveGrantScope token_hash l =
     map_option (\<lambda>g. (gr_id g, gr_tenant g, gr_agent g))
       (List.find (\<lambda>g. gr_token_hash g = token_hash) (l_grants l))"

record grant_state =
  gs_grant :: inference_grant
  gs_surface :: "(string \<times> string) list"
  gs_max_tokens :: nat
  gs_phase :: run_phase
  gs_manifest :: string
  gs_deadline :: instant
  gs_calls :: nat
  gs_control_ok :: bool
  gs_owner :: turn_ownership
  gs_now :: instant

definition loadGrantState :: "scope \<Rightarrow> instant \<Rightarrow> uuid \<Rightarrow> ledger \<Rightarrow> grant_state option" where
  "loadGrantState sc now gid l =
     (case grant_of sc gid l of
        None \<Rightarrow> None
      | Some g \<Rightarrow>
          (case run_of sc (gr_run g) l of
             None \<Rightarrow> None
           | Some run \<Rightarrow>
               Some \<lparr>gs_grant = grantV1 g run, gs_surface = gr_surface g, gs_max_tokens = gr_max_tokens g,
                     gs_phase = rr_phase run, gs_manifest = rr_manifest run, gs_deadline = rr_deadline run,
                     gs_calls = contarTentativas sc (gr_run g) l,
                     gs_control_ok = controleOk (lockControlByRun sc (gr_run g) l) run g,
                     gs_owner = posseDoTurno sc now run l, gs_now = now\<rparr>))"

definition revoked_grant :: "instant \<Rightarrow> string \<Rightarrow> grant_row \<Rightarrow> grant_row" where
  "revoked_grant now reason g = g\<lparr>gr_revoked := Some now, gr_revoke_reason := Some (take 64 reason)\<rparr>"

definition revocable :: "scope \<Rightarrow> uuid \<Rightarrow> grant_row \<Rightarrow> bool" where
  "revocable sc rid g = (gr_tenant g = fst sc \<and> gr_agent g = snd sc \<and> gr_run g = rid \<and> gr_revoked g = None)"

definition revokeGrantsForRun :: "scope \<Rightarrow> instant \<Rightarrow> uuid \<Rightarrow> string \<Rightarrow> ledger \<Rightarrow> nat ledger_result" where
  "revokeGrantsForRun sc now rid reason l =
     (let hit = filter (revocable sc rid) (l_grants l)
      in if \<not> list_all (\<lambda>g. grant_check (revoked_grant now reason g)) hit then Inl Check_Violation
         else Inr (length hit,
                   l\<lparr>l_grants := update_where (revocable sc rid) (revoked_grant now reason) (l_grants l)\<rparr>))"

section \<open>Budget accounts\<close>

definition openBudgetAccount :: "scope \<Rightarrow> uuid \<Rightarrow> int \<Rightarrow> int \<Rightarrow> ledger \<Rightarrow> (uuid \<times> bool) ledger_result" where
  "openBudgetAccount sc aid period limit l =
     (let a = \<lparr>ac_id = aid, ac_tenant = fst sc, ac_agent = snd sc, ac_period = period, ac_limit = limit,
               ac_reserved = 0, ac_settled = 0, ac_version = 0\<rparr>
      in if \<not> bigint_ok limit then Inl Numeric_Out_Of_Range
         else if \<not> account_check a then Inl Check_Violation
         else
           (case List.find (\<lambda>b. ac_tenant b = fst sc \<and> ac_agent b = snd sc \<and> ac_period b = period) (l_accounts l) of
              Some b \<Rightarrow> Inr ((ac_id b, False), l)
            | None \<Rightarrow>
                if aid \<in> ac_id ` set (l_accounts l) then Inl Unique_Violation
                else Inr ((aid, True), l\<lparr>l_accounts := l_accounts l @ [a]\<rparr>)))"

section \<open>Admission\<close>

record admit_input =
  ai_grant :: uuid
  ai_attempt :: uuid
  ai_hash :: string
  ai_provider :: string
  ai_audience :: string
  ai_model :: string
  ai_tools :: "string list"
  ai_estimate :: "string option"
  ai_tariff :: "string option"

record admitted_attempt =
  ad_attempt :: uuid
  ad_seq :: nat
  ad_reserved :: string

type_synonym admit_refusal = "inference_error \<times> string"

fun audit_reason_text :: "grant_audit_reason \<Rightarrow> string" where
  "audit_reason_text Ga_Absent = ''absent''"
| "audit_reason_text Ga_Audience_Mismatch = ''audience_mismatch''"
| "audit_reason_text Ga_Expired = ''expired''"
| "audit_reason_text Ga_Revoked = ''revoked''"
| "audit_reason_text Ga_Run_Not_Active = ''run_not_active''"
| "audit_reason_text Ga_Model_Not_Allowed = ''model_not_allowed''"
| "audit_reason_text Ga_Manifest_Mismatch = ''manifest_mismatch''"
| "audit_reason_text Ga_Tool_Not_In_Manifest = ''tool_not_in_manifest''"
| "audit_reason_text Ga_Call_Cap_Reached = ''call_cap_reached''"

fun admission_wire :: "admission_refusal \<Rightarrow> admit_refusal" where
  "admission_wire Budget_Exhausted = (Err_Budget_Exhausted, ''admission_budget_exhausted'')"
| "admission_wire Inference_Limit_Exceeded = (Err_Limit_Exceeded, ''admission_inference_limit_exceeded'')"
| "admission_wire Admission_Unavailable = (Err_Admission_Unavailable, ''admission_admission_unavailable'')"
| "admission_wire Unknown_Price = (Err_Budget_Exhausted, ''admission_unknown_price'')"

definition recusaDeCota :: "inference_error \<Rightarrow> bool" where
  "recusaDeCota code = (code = Err_Budget_Exhausted \<or> code = Err_Limit_Exceeded)"

definition recusa :: "scope \<Rightarrow> admit_input \<Rightarrow> ledger \<Rightarrow> admit_refusal
    \<Rightarrow> (admit_refusal + admitted_attempt) ledger_result" where
  "recusa sc i l r =
     Inr (Inl r,
          if recusaDeCota (fst r)
          then l\<lparr>l_audits := l_audits l @ [\<lparr>qa_tenant = fst sc, qa_agent = snd sc, qa_grant = ai_grant i,
                   qa_code = fst r, qa_reason = snd r, qa_attempt = ai_attempt i, qa_model = ai_model i,
                   qa_estimate = ai_estimate i\<rparr>]\<rparr>
          else l)"

text \<open>The checks of authority, in their order; \<open>None\<close> when all pass.\<close>

definition admission_refused :: "scope \<Rightarrow> instant \<Rightarrow> admit_input \<Rightarrow> run_row \<Rightarrow> grant_row \<Rightarrow> ledger
    \<Rightarrow> admit_refusal option" where
  "admission_refused sc now i run grant l =
     (case validateInferenceGrant (Some (grantV1 grant run))
             \<lparr>ic_audience = ai_audience i, ic_now = Some now, ic_phase = rr_phase run,
              ic_calls = contarTentativas sc (rr_id run) l, ic_model = ai_model i,
              ic_manifest = rr_manifest run, ic_tools = ai_tools i\<rparr> of
        Grant_Refused code reason \<Rightarrow> Some (code, audit_reason_text reason)
      | Grant_Ok \<Rightarrow>
          (case posseDoTurno sc now run l of
             Own_Stale_Claim \<Rightarrow> Some (Err_Run_Revoked, ''stale_claim'')
           | Own_Turn_Not_Running \<Rightarrow> Some (Err_Run_Not_Active, ''turn_not_running'')
           | Own_Ok \<Rightarrow>
               if \<not> controleOk (lockControlByRun sc (rr_id run) l) run grant
               then Some (Err_Run_Revoked, ''control_changed'')
               else if rr_deadline run \<le> now then Some (Err_Run_Not_Active, ''deadline_passed'')
               else None))"

definition account_hit :: "scope \<Rightarrow> account_row \<Rightarrow> account_row \<Rightarrow> bool" where
  "account_hit sc a b = (ac_tenant b = fst sc \<and> ac_agent b = snd sc \<and> ac_id b = ac_id a \<and> ac_version b = ac_version a)"

definition new_attempt :: "scope \<Rightarrow> admit_input \<Rightarrow> run_row \<Rightarrow> grant_row \<Rightarrow> account_row \<Rightarrow> nat \<Rightarrow> int \<Rightarrow> attempt_row" where
  "new_attempt sc i run grant acc seq reserve =
     \<lparr>at_id = ai_attempt i, at_tenant = fst sc, at_agent = snd sc, at_run = rr_id run, at_grant = gr_id grant,
      at_account = ac_id acc, at_seq = seq, at_provider = ai_provider i, at_model = ai_model i,
      at_hash = ai_hash i, at_state = At_Reserved, at_accounting = Acc_Reserved, at_reserved = Some reserve,
      at_settled = None, at_tariff = ai_tariff i, at_prompt = None, at_completion = None, at_error = None,
      at_finished = None\<rparr>"

text \<open>
  The reservation on the account of the day. The amounts the account is written back with are the
  texts of \<open>applyAdmission\<close>, cast to \<open>bigint\<close>.
\<close>

definition reserve_on :: "scope \<Rightarrow> admit_input \<Rightarrow> run_row \<Rightarrow> grant_row \<Rightarrow> account_row \<Rightarrow> ledger
    \<Rightarrow> (admit_refusal + admitted_attempt) ledger_result" where
  "reserve_on sc i run grant acc l =
     (let calls = contarTentativas sc (rr_id run) l;
          account = account_texts (ac_limit acc) (ac_reserved acc) (ac_settled acc) (ac_version acc)
      in case decideAdmission (Some account)
                \<lparr>ar_estimate = ai_estimate i, ar_calls = calls, ar_max_calls = gr_max_calls grant\<rparr> of
           Inl field \<Rightarrow> recusa sc i l (Err_Admission_Unavailable, ''money_format'')
         | Inr decisao \<Rightarrow>
             (case decisao of
                Refuse _ code \<Rightarrow> recusa sc i l (admission_wire code)
              | Admit _ reserve \<Rightarrow>
                  (case applyAdmission account decisao of
                     Inl field \<Rightarrow> Inl Type_Error
                   | Inr proxima \<Rightarrow>
                       let reserved = big_int (ba_reserved proxima);
                           hit = account_hit sc acc;
                           t = new_attempt sc i run grant acc (calls + 1) (big_int reserve)
                       in if \<not> bigint_ok reserved \<or> \<not> bigint_ok (big_int reserve) then Inl Numeric_Out_Of_Range
                          else if filter hit (l_accounts l) = []
                          then recusa sc i l (Err_Admission_Unavailable, ''account_cas'')
                          else if \<not> attempt_check t then Inl Check_Violation
                          else if \<not> int4_ok (int (at_seq t)) then Inl Numeric_Out_Of_Range
                          else if ai_attempt i \<in> at_id ` set (l_attempts l)
                             \<or> (\<exists>u \<in> set (l_attempts l). at_tenant u = fst sc \<and> at_agent u = snd sc
                                  \<and> at_run u = rr_id run \<and> at_seq u = calls + 1)
                          then Inl Unique_Violation
                          else Inr (Inr \<lparr>ad_attempt = ai_attempt i, ad_seq = calls + 1, ad_reserved = reserve\<rparr>,
                                    l\<lparr>l_accounts := update_where hit
                                         (\<lambda>b. b\<lparr>ac_reserved := reserved, ac_version := ba_version proxima\<rparr>)
                                         (l_accounts l),
                                      l_attempts := l_attempts l @ [t]\<rparr>))))"

definition admitAttempt :: "scope \<Rightarrow> instant \<Rightarrow> admit_input \<Rightarrow> ledger
    \<Rightarrow> (admit_refusal + admitted_attempt) ledger_result" where
  "admitAttempt sc now i l =
     (case grant_of sc (ai_grant i) l of
        None \<Rightarrow> recusa sc i l (Err_Invalid_Grant, ''absent'')
      | Some grant \<Rightarrow>
          (case run_of sc (gr_run grant) l of
             None \<Rightarrow> recusa sc i l (Err_Invalid_Grant, ''absent'')
           | Some run \<Rightarrow>
               (case admission_refused sc now i run grant l of
                  Some r \<Rightarrow> recusa sc i l r
                | None \<Rightarrow>
                    (case account_of_day sc now l of
                       None \<Rightarrow>
                         (case decideAdmission None \<lparr>ar_estimate = ai_estimate i,
                                 ar_calls = contarTentativas sc (rr_id run) l, ar_max_calls = gr_max_calls grant\<rparr> of
                            Inr (Refuse _ code) \<Rightarrow> recusa sc i l (admission_wire code)
                          | _ \<Rightarrow> recusa sc i l (Err_Admission_Unavailable, ''no_account''))
                     | Some acc \<Rightarrow> reserve_on sc i run grant acc l))))"

section \<open>Settlement\<close>

datatype settle_outcome =
    Not_Sent string
  | Sent_Completed "int option" "int option" "int option" usage_source
      \<comment> \<open>prompt and completion tokens, \<open>cost_microusd\<close>, source\<close>
  | Failed_After_Send string

datatype settle_result = Settle_Not_Found | Settled_As bool accounting_status   \<comment> \<open>\<open>already\<close>\<close>

definition settle_key :: "uuid \<Rightarrow> string" where
  "settle_key aid = ''attempt:'' @ decimal aid @ '':settle''"

definition evento :: "scope \<Rightarrow> attempt_row \<Rightarrow> int option \<Rightarrow> usage_source \<Rightarrow> ledger \<Rightarrow> ledger" where
  "evento sc t delta source l =
     (if \<exists>e \<in> set (l_events l). ev_tenant e = fst sc \<and> ev_agent e = snd sc \<and> ev_key e = settle_key (at_id t)
      then l
      else l\<lparr>l_events := l_events l @ [\<lparr>ev_tenant = fst sc, ev_agent = snd sc, ev_run = at_run t,
               ev_attempt = at_id t, ev_key = settle_key (at_id t), ev_kind = Reported, ev_source = source,
               ev_delta = delta\<rparr>]\<rparr>)"

text \<open>The row of the attempt after the outcome, and what the account gives back and takes.\<close>

fun settled_row :: "instant \<Rightarrow> settle_outcome \<Rightarrow> attempt_row \<Rightarrow> attempt_row" where
  "settled_row now (Not_Sent code) t =
     t\<lparr>at_state := At_Not_Sent, at_accounting := Acc_Settled, at_settled := Some 0,
       at_error := Some (take 64 code), at_finished := Some now\<rparr>"
| "settled_row now (Sent_Completed prompt completion (Some cost) source) t =
     t\<lparr>at_state := At_Completed, at_accounting := Acc_Settled, at_settled := Some cost,
       at_prompt := prompt, at_completion := completion, at_finished := Some now\<rparr>"
| "settled_row now (Sent_Completed prompt completion None source) t =
     t\<lparr>at_state := At_Completed, at_accounting := Acc_Unknown, at_prompt := prompt,
       at_completion := completion, at_error := None, at_finished := Some now\<rparr>"
| "settled_row now (Failed_After_Send code) t =
     t\<lparr>at_state := At_Failed_After_Send, at_accounting := Acc_Unknown, at_prompt := None,
       at_completion := None, at_error := Some (take 64 code), at_finished := Some now\<rparr>"

definition is_attempt :: "scope \<Rightarrow> uuid \<Rightarrow> attempt_row \<Rightarrow> bool" where
  "is_attempt sc aid t = (at_tenant t = fst sc \<and> at_agent t = snd sc \<and> at_id t = aid)"

definition is_account :: "scope \<Rightarrow> uuid \<Rightarrow> account_row \<Rightarrow> bool" where
  "is_account sc aid a = (ac_tenant a = fst sc \<and> ac_agent a = snd sc \<and> ac_id a = aid)"

definition write_attempt :: "scope \<Rightarrow> instant \<Rightarrow> settle_outcome \<Rightarrow> attempt_row \<Rightarrow> ledger \<Rightarrow> sql_error + ledger" where
  "write_attempt sc now outcome t l =
     (let t' = settled_row now outcome t
      in if \<not> attempt_check t' then Inl Check_Violation
         else if \<not> bigint_null (at_settled t') \<or> \<not> int4_null (at_prompt t') \<or> \<not> int4_null (at_completion t')
         then Inl Numeric_Out_Of_Range
         else Inr (l\<lparr>l_attempts := update_where (is_attempt sc (at_id t)) (settled_row now outcome) (l_attempts l)\<rparr>))"

definition moved_account :: "int \<Rightarrow> int \<Rightarrow> account_row \<Rightarrow> account_row" where
  "moved_account released cost a =
     a\<lparr>ac_reserved := ac_reserved a - released, ac_settled := ac_settled a + cost, ac_version := ac_version a + 1\<rparr>"

definition move_account :: "scope \<Rightarrow> uuid \<Rightarrow> int \<Rightarrow> int \<Rightarrow> ledger \<Rightarrow> sql_error + ledger" where
  "move_account sc aid released cost l =
     (let hit = filter (is_account sc aid) (l_accounts l); moved = moved_account released cost
      in if list_ex (\<lambda>a. \<not> bigint_ok (ac_settled (moved a))) hit then Inl Numeric_Out_Of_Range
         else if list_ex (\<lambda>a. \<not> account_check (moved a)) hit then Inl Check_Violation
         else Inr (l\<lparr>l_accounts := update_where (is_account sc aid) moved (l_accounts l)\<rparr>))"

definition settleAttempt :: "scope \<Rightarrow> instant \<Rightarrow> uuid \<Rightarrow> settle_outcome \<Rightarrow> ledger \<Rightarrow> settle_result ledger_result" where
  "settleAttempt sc now aid outcome l =
     (case attempt_of sc aid l of
        None \<Rightarrow> Inr (Settle_Not_Found, l)
      | Some t \<Rightarrow>
          if at_state t \<noteq> At_Reserved then Inr (Settled_As True (at_accounting t), l)
          else
            let reservado = (case at_reserved t of None \<Rightarrow> 0 | Some r \<Rightarrow> r)
            in case write_attempt sc now outcome t l of
                 Inl e \<Rightarrow> Inl e
               | Inr l1 \<Rightarrow>
                   (case outcome of
                      Not_Sent code \<Rightarrow>
                        (case move_account sc (at_account t) reservado 0 l1 of
                           Inl e \<Rightarrow> Inl e
                         | Inr l2 \<Rightarrow> Inr (Settled_As False Acc_Settled, l2))
                    | Sent_Completed prompt completion (Some cost) source \<Rightarrow>
                        (case move_account sc (at_account t) reservado cost l1 of
                           Inl e \<Rightarrow> Inl e
                         | Inr l2 \<Rightarrow> Inr (Settled_As False Acc_Settled, evento sc t (Some cost) source l2))
                    | _ \<Rightarrow> Inr (Settled_As False Acc_Unknown, evento sc t None Unavailable l1)))"

end
