(* ===== verification/Conversation_Control.thy ===== *)
theory Conversation_Control
  imports Turn_Methods Inference_Ledger Canonical_Json
begin

text \<open>
  Pause, reconciliation and resume of a conversation (src/db/repositories/conversation-control-repo.ts with
  conversation-control-sql.ts, over the tables of migrations 140 and 141): the command log with its
  idempotency keys, the epoch that fences whatever was authorised before, the drain, and the discard of the
  backlog a hold retained. A transaction reads the command before it holds the lock of the control and
  again under it, so each operation takes the state of its first read and the state at the lock.
\<close>

section \<open>Vocabulary and tables\<close>

datatype pause_reason = Operator_Takeover | Customer_Requested | Safety_Review | Handoff_Accepted

datatype resume_reason = Human_Resolved | Operator_Release | Supervised_Recovery

fun pause_reason_text :: "pause_reason \<Rightarrow> string" where
  "pause_reason_text Operator_Takeover = ''operator_takeover''"
| "pause_reason_text Customer_Requested = ''customer_requested''"
| "pause_reason_text Safety_Review = ''safety_review''"
| "pause_reason_text Handoff_Accepted = ''handoff_accepted''"

fun resume_reason_text :: "resume_reason \<Rightarrow> string" where
  "resume_reason_text Human_Resolved = ''human_resolved''"
| "resume_reason_text Operator_Release = ''operator_release''"
| "resume_reason_text Supervised_Recovery = ''supervised_recovery''"

datatype command_kind = Pause_Command | Resume_Command

fun command_kind_text :: "command_kind \<Rightarrow> string" where
  "command_kind_text Pause_Command = ''pause''"
| "command_kind_text Resume_Command = ''resume''"

datatype command_status = Command_Pending | Command_Accepted | Command_Conflict | Command_Failed

datatype control_refusal =
    Payload_Conflict | Epoch_Mismatch | Mode_Not_Allowed | Control_Not_Found | Forbidden
  | Reconciliation_Required

datatype drain_status = Drain_Pending | Drain_Complete | Drain_Reconciliation_Required

record control_command =
  cc_id :: uuid
  cc_tenant :: string
  cc_agent :: string
  cc_control :: uuid
  cc_kind :: command_kind
  cc_key :: uuid                         \<comment> \<open>\<open>idempotency_key\<close>\<close>
  cc_hash :: string                      \<comment> \<open>\<open>request_hash\<close>\<close>
  cc_expected :: nat
  cc_result :: "nat option"              \<comment> \<open>\<open>result_epoch\<close>\<close>
  cc_user :: string                      \<comment> \<open>\<open>requested_by_app_user_id\<close>\<close>
  cc_status :: command_status
  cc_outcome :: "control_refusal option"
  cc_barrier :: bool
  cc_drain :: "drain_status option"
  cc_inflight :: nat
  cc_unknown :: nat
  cc_updated :: instant

datatype call_state =
    Call_Received | Call_Dispatching | Call_Handler_Started | Call_Effect_Unknown | Call_Approval_Required
  | Call_Settled string                  \<comment> \<open>any other state\<close>

record tool_call =
  tc_tenant :: string
  tc_agent :: string
  tc_turn :: uuid
  tc_run :: uuid
  tc_state :: call_state
  tc_unknown :: bool                     \<comment> \<open>\<open>effect_evidence = 'unknown'\<close>\<close>

record outbound_row =
  om_id :: uuid
  om_tenant :: string
  om_agent :: string
  om_turn :: "uuid option"
  om_status :: string

datatype control_audit =
    Audit_Conflict "uuid option" uuid control_refusal
  | Audit_Pause_Requested uuid uuid string nat pause_reason string
      \<comment> \<open>command, control, \<open>epoch_before\<close>, \<open>epoch_after\<close>, reason, principal\<close>
  | Audit_Acquired uuid nat string
  | Audit_Resume_Requested uuid uuid string resume_reason string
  | Audit_Automation_Resumed uuid uuid string nat nat nat
      \<comment> \<open>command, control, \<open>epoch_before\<close>, \<open>epoch_after\<close>, watermark, \<open>backlog_cancelled\<close>\<close>

record control_db =
  k_db :: db
  k_commands :: "control_command list"
  k_runs :: "run_row list"
  k_calls :: "tool_call list"
  k_outbound :: "outbound_row list"
  k_audits :: "(scope \<times> control_audit) list"

datatype control_exception =
    Digest_Failed canonical_error | Control_Violation sql_error | Turn_Failed turn_exception

type_synonym 'r control_result = "control_exception + 'r \<times> control_db"

definition audit_control :: "scope \<Rightarrow> control_audit \<Rightarrow> control_db \<Rightarrow> control_db" where
  "audit_control sc a k = k\<lparr>k_audits := k_audits k @ [(sc, a)]\<rparr>"

definition set_controls :: "conversation_control list \<Rightarrow> control_db \<Rightarrow> control_db" where
  "set_controls cs k = k\<lparr>k_db := (k_db k)\<lparr>controls := cs\<rparr>\<rparr>"

section \<open>The identity of a command\<close>

record command_identity =
  id_kind :: command_kind
  id_control :: uuid
  id_epoch :: string
  id_user :: string
  id_reason :: string
  id_policy :: "string option"
  id_payload :: jvalue

definition CONVERSATION_CONTROL_COMMAND_CONTRACT :: string where
  "CONVERSATION_CONTROL_COMMAND_CONTRACT = ''maia.conversation_control_command/v1''"

definition or_null :: "jvalue \<Rightarrow> jvalue" where
  "or_null v = (if v = JUndefined then JNull else v)"

text \<open>The object literal is new: it takes the first free address of the heap.\<close>

definition identity_object :: "command_identity \<Rightarrow> jobject" where
  "identity_object i = O_Plain
     [(''contract'', JString CONVERSATION_CONTROL_COMMAND_CONTRACT),
      (''kind'', JString (command_kind_text (id_kind i))),
      (''control_id'', JString (decimal (id_control i))),
      (''expected_epoch'', JString (id_epoch i)),
      (''requested_by_app_user_id'', JString (id_user i)),
      (''reason_code'', JString (id_reason i)),
      (''resume_policy'', (case id_policy i of None \<Rightarrow> JNull | Some p \<Rightarrow> JString p)),
      (''request_payload'', or_null (id_payload i))]"

definition conversationControlCommandDigest ::
    "(string \<Rightarrow> string) \<Rightarrow> heap \<Rightarrow> command_identity \<Rightarrow> canonical_error + string" where
  "conversationControlCommandDigest sha h i = canonicalDigest sha (h @ [identity_object i]) (JRef (length h))"

section \<open>Replay\<close>

definition lerComandoPorChave :: "scope \<Rightarrow> uuid \<Rightarrow> control_db \<Rightarrow> control_command option" where
  "lerComandoPorChave sc key k =
     List.find (\<lambda>c. cc_tenant c = fst sc \<and> cc_agent c = snd sc \<and> cc_key c = key) (k_commands k)"

record control_refused =
  rf_reason :: control_refusal
  rf_command :: "uuid option"
  rf_epoch :: "nat option"
  rf_mode :: "control_mode option"

definition refused :: "control_refusal \<Rightarrow> control_refused" where
  "refused r = \<lparr>rf_reason = r, rf_command = None, rf_epoch = None, rf_mode = None\<rparr>"

definition refused_at :: "control_refusal \<Rightarrow> conversation_control \<Rightarrow> control_refused" where
  "refused_at r c = \<lparr>rf_reason = r, rf_command = None, rf_epoch = Some (c_epoch c), rf_mode = Some (c_mode c)\<rparr>"

text \<open>\<open>Inl\<close>: the refusal a recorded command calls for, with the state after its audit.\<close>

definition recusaDoComandoGravado ::
    "scope \<Rightarrow> control_command \<Rightarrow> string \<Rightarrow> uuid \<Rightarrow> control_db \<Rightarrow> (control_refused \<times> control_db) option" where
  "recusaDoComandoGravado sc existente hash cid k =
     (if cc_hash existente \<noteq> hash
      then Some (refused Payload_Conflict, audit_control sc (Audit_Conflict (Some (cc_id existente)) cid Payload_Conflict) k)
      else if cc_status existente \<noteq> Command_Accepted
      then Some ((refused (case cc_outcome existente of None \<Rightarrow> Forbidden | Some r \<Rightarrow> r))
                   \<lparr>rf_command := Some (cc_id existente)\<rparr>, k)
      else None)"

record pause_ok =
  po_idempotent :: bool
  po_command :: uuid
  po_control :: uuid
  po_mode :: control_mode
  po_epoch :: nat
  po_barrier :: bool
  po_drain :: "drain_status option"
  po_inflight :: nat
  po_unknown :: nat
  po_updated :: instant

definition responderPausaGravada ::
    "scope \<Rightarrow> control_command \<Rightarrow> string \<Rightarrow> uuid \<Rightarrow> control_db \<Rightarrow> (control_refused + pause_ok) \<times> control_db" where
  "responderPausaGravada sc existente hash cid k =
     (case recusaDoComandoGravado sc existente hash cid k of
        Some (r, k') \<Rightarrow> (Inl r, k')
      | None \<Rightarrow>
          (Inr \<lparr>po_idempotent = True, po_command = cc_id existente, po_control = cc_control existente,
                po_mode = Pausing, po_epoch = (case cc_result existente of None \<Rightarrow> 0 | Some e \<Rightarrow> e),
                po_barrier = cc_barrier existente, po_drain = cc_drain existente,
                po_inflight = cc_inflight existente, po_unknown = cc_unknown existente,
                po_updated = cc_updated existente\<rparr>, k))"

section \<open>Pause\<close>

definition is_control :: "scope \<Rightarrow> uuid \<Rightarrow> conversation_control \<Rightarrow> bool" where
  "is_control sc cid c = (c_tenant c = fst sc \<and> c_agent c = snd sc \<and> c_id c = cid)"

definition lockControlById :: "scope \<Rightarrow> uuid \<Rightarrow> control_db \<Rightarrow> conversation_control option" where
  "lockControlById sc cid k = List.find (is_control sc cid) (controls (k_db k))"

text \<open>The CHECKs of the two tables a row written here can break.\<close>

definition control_check :: "conversation_control \<Rightarrow> bool" where
  "control_check c = (c_mode c = Bot \<or> (c_owner c \<notin> {None, Some []} \<and> c_paused_at c \<noteq> None))"

definition command_check :: "control_command \<Rightarrow> bool" where
  "command_check c = (cc_user c \<noteq> [] \<and> hex_digest (cc_hash c))"

definition insert_command :: "control_command \<Rightarrow> control_db \<Rightarrow> sql_error + control_db" where
  "insert_command c k =
     (if \<not> command_check c then Inl Check_Violation
      else if \<exists>d \<in> set (k_commands k). cc_id d = cc_id c
             \<or> (cc_tenant d = cc_tenant c \<and> cc_agent d = cc_agent c \<and> cc_key d = cc_key c)
      then Inl Unique_Violation
      else Inr (k\<lparr>k_commands := k_commands k @ [c]\<rparr>))"

record pause_input =
  pi_control :: uuid
  pi_epoch :: string                     \<comment> \<open>\<open>expected_epoch\<close>\<close>
  pi_key :: uuid
  pi_user :: string
  pi_reason :: pause_reason
  pi_payload :: jvalue

definition pause_identity :: "pause_input \<Rightarrow> command_identity" where
  "pause_identity i = \<lparr>id_kind = Pause_Command, id_control = pi_control i, id_epoch = pi_epoch i,
     id_user = pi_user i, id_reason = pause_reason_text (pi_reason i), id_policy = None,
     id_payload = pi_payload i\<rparr>"

definition paused :: "instant \<Rightarrow> uuid \<Rightarrow> pause_input \<Rightarrow> conversation_control \<Rightarrow> conversation_control" where
  "paused now cmd i c = c\<lparr>c_mode := Pausing, c_epoch := c_epoch c + 1, c_owner := Some (pi_user i),
     c_paused_at := Some now, c_reason := Some (pause_reason_text (pi_reason i)), c_last_command := Some cmd,
     c_updated := now\<rparr>"

definition pause_command :: "scope \<Rightarrow> instant \<Rightarrow> uuid \<Rightarrow> string \<Rightarrow> pause_input \<Rightarrow> conversation_control \<Rightarrow> control_command" where
  "pause_command sc now cmd hash i c =
     \<lparr>cc_id = cmd, cc_tenant = fst sc, cc_agent = snd sc, cc_control = pi_control i, cc_kind = Pause_Command,
      cc_key = pi_key i, cc_hash = hash, cc_expected = c_epoch c, cc_result = Some (c_epoch c + 1),
      cc_user = pi_user i, cc_status = Command_Accepted, cc_outcome = None, cc_barrier = True,
      cc_drain = Some Drain_Pending, cc_inflight = 0, cc_unknown = 0, cc_updated = now\<rparr>"

text \<open>The transaction from the lock of the control on; the expected epoch is compared as text.\<close>

definition pause_transition ::
    "scope \<Rightarrow> instant \<Rightarrow> uuid \<Rightarrow> string \<Rightarrow> pause_input \<Rightarrow> conversation_control \<Rightarrow> control_db
      \<Rightarrow> (control_refused + pause_ok) control_result" where
  "pause_transition sc now cmd hash i controle k =
     (if decimal (c_epoch controle) \<noteq> pi_epoch i
      then Inr (Inl (refused_at Epoch_Mismatch controle),
                audit_control sc (Audit_Conflict None (c_id controle) Epoch_Mismatch) k)
      else if c_mode controle \<noteq> Bot
      then Inr (Inl (refused_at Mode_Not_Allowed controle),
                audit_control sc (Audit_Conflict None (c_id controle) Mode_Not_Allowed) k)
      else
        let c' = paused now cmd i controle;
            k1 = set_controls (update_where (is_control sc (pi_control i)) (paused now cmd i) (controls (k_db k))) k;
            comando = pause_command sc now cmd hash i controle
        in if \<not> bigint_ok (int (c_epoch c')) then Inl (Control_Violation Numeric_Out_Of_Range)
           else if \<not> control_check c' then Inl (Control_Violation Check_Violation)
           else
             (case insert_command comando k1 of
                Inl e \<Rightarrow> Inl (Control_Violation e)
              | Inr k2 \<Rightarrow>
                  Inr (Inr \<lparr>po_idempotent = False, po_command = cmd, po_control = pi_control i, po_mode = c_mode c',
                            po_epoch = c_epoch c', po_barrier = cc_barrier comando, po_drain = cc_drain comando,
                            po_inflight = cc_inflight comando, po_unknown = cc_unknown comando,
                            po_updated = c_updated c'\<rparr>,
                       audit_control sc (Audit_Pause_Requested cmd (pi_control i) (pi_epoch i) (c_epoch c')
                         (pi_reason i) (pi_user i)) k2)))"

definition pauseInTx ::
    "(string \<Rightarrow> string) \<Rightarrow> heap \<Rightarrow> scope \<Rightarrow> instant \<Rightarrow> uuid \<Rightarrow> pause_input \<Rightarrow> control_db \<Rightarrow> control_db
      \<Rightarrow> (control_refused + pause_ok) control_result" where
  "pauseInTx sha h sc now cmd i k0 k =
     (case conversationControlCommandDigest sha h (pause_identity i) of
        Inl e \<Rightarrow> Inl (Digest_Failed e)
      | Inr hash \<Rightarrow>
          (case lerComandoPorChave sc (pi_key i) k0 of
             Some existente \<Rightarrow> Inr (responderPausaGravada sc existente hash (pi_control i) k)
           | None \<Rightarrow>
               (case lockControlById sc (pi_control i) k of
                  None \<Rightarrow> Inr (Inl (refused Control_Not_Found), k)
                | Some controle \<Rightarrow>
                    (case lerComandoPorChave sc (pi_key i) k of
                       Some gravado \<Rightarrow> Inr (responderPausaGravada sc gravado hash (pi_control i) k)
                     | None \<Rightarrow> pause_transition sc now cmd hash i controle k))))"

section \<open>Reconciliation\<close>

definition ESTADOS_EM_VOO :: "call_state list" where
  "ESTADOS_EM_VOO = [Call_Received, Call_Dispatching, Call_Handler_Started, Call_Effect_Unknown]"

definition OUTBOUND_TURN_FINAL_ARTIFACT_STATUSES :: "string list" where
  "OUTBOUND_TURN_FINAL_ARTIFACT_STATUSES = [''completed'', ''failed_terminal'', ''cancelled'', ''dead_letter'']"

definition run_of_control :: "scope \<Rightarrow> uuid \<Rightarrow> run_row \<Rightarrow> bool" where
  "run_of_control sc cid r = (rr_tenant r = fst sc \<and> rr_agent r = snd sc \<and> rr_control r = cid)"

text \<open>The three counts; a call joins exactly one run, an outbound row is counted once.\<close>

definition runs_abertos :: "scope \<Rightarrow> uuid \<Rightarrow> control_db \<Rightarrow> nat" where
  "runs_abertos sc cid k = length (filter (\<lambda>r. run_of_control sc cid r \<and> rr_phase r \<noteq> Run_Closed) (k_runs k))"

definition call_of_control :: "scope \<Rightarrow> uuid \<Rightarrow> control_db \<Rightarrow> tool_call \<Rightarrow> bool" where
  "call_of_control sc cid k c =
     (tc_tenant c = fst sc \<and> tc_agent c = snd sc
      \<and> (\<exists>r \<in> set (k_runs k). run_of_control sc cid r \<and> rr_turn r = tc_turn c \<and> rr_id r = tc_run c))"

definition calls_em_voo :: "scope \<Rightarrow> uuid \<Rightarrow> control_db \<Rightarrow> nat" where
  "calls_em_voo sc cid k =
     length (filter (\<lambda>c. call_of_control sc cid k c \<and> tc_state c \<in> set ESTADOS_EM_VOO) (k_calls k))"

definition outbound_of_control :: "scope \<Rightarrow> uuid \<Rightarrow> control_db \<Rightarrow> outbound_row \<Rightarrow> bool" where
  "outbound_of_control sc cid k m =
     (om_tenant m = fst sc \<and> om_agent m = snd sc
      \<and> (\<exists>r \<in> set (k_runs k). run_of_control sc cid r \<and> om_turn m = Some (rr_turn r)))"

definition entregas_desconhecidas :: "scope \<Rightarrow> uuid \<Rightarrow> control_db \<Rightarrow> nat" where
  "entregas_desconhecidas sc cid k =
     length (filter (\<lambda>c. call_of_control sc cid k c \<and> tc_unknown c) (k_calls k))
     + card (om_id ` set (filter (\<lambda>m. outbound_of_control sc cid k m
         \<and> om_status m \<notin> set OUTBOUND_TURN_FINAL_ARTIFACT_STATUSES) (k_outbound k)))"

record reconcile_ok =
  ro_idempotent :: bool
  ro_control :: uuid
  ro_mode :: control_mode
  ro_epoch :: nat
  ro_drain :: drain_status
  ro_inflight :: nat
  ro_unknown :: nat

definition reconciled :: "bool \<Rightarrow> conversation_control \<Rightarrow> control_mode \<Rightarrow> drain_status \<Rightarrow> nat \<Rightarrow> nat \<Rightarrow> reconcile_ok" where
  "reconciled idem c m d inflight unknown =
     \<lparr>ro_idempotent = idem, ro_control = c_id c, ro_mode = m, ro_epoch = c_epoch c, ro_drain = d,
      ro_inflight = inflight, ro_unknown = unknown\<rparr>"

definition acquired :: "instant \<Rightarrow> conversation_control \<Rightarrow> conversation_control" where
  "acquired now c = c\<lparr>c_mode := Human, c_updated := now\<rparr>"

definition reconcileInTx ::
    "scope \<Rightarrow> instant \<Rightarrow> uuid \<Rightarrow> string \<Rightarrow> string \<Rightarrow> control_db \<Rightarrow> (control_refused + reconcile_ok) control_result" where
  "reconcileInTx sc now cid expected user k =
     (case lockControlById sc cid k of
        None \<Rightarrow> Inr (Inl (refused Control_Not_Found), k)
      | Some controle \<Rightarrow>
          if decimal (c_epoch controle) \<noteq> expected then Inr (Inl (refused_at Epoch_Mismatch controle), k)
          else if c_mode controle = Human then Inr (Inr (reconciled True controle Human Drain_Complete 0 0), k)
          else if c_mode controle \<noteq> Pausing then Inr (Inl (refused_at Mode_Not_Allowed controle), k)
          else
            let inflight = runs_abertos sc cid k + calls_em_voo sc cid k;
                desconhecidas = entregas_desconhecidas sc cid k
            in if 0 < inflight \<or> 0 < desconhecidas
               then Inr (Inr (reconciled False controle Pausing Drain_Reconciliation_Required inflight desconhecidas), k)
               else Inr (Inr (reconciled False controle Human Drain_Complete 0 0),
                         audit_control sc (Audit_Acquired cid (c_epoch controle) user)
                           (set_controls (update_where (\<lambda>c. is_control sc cid c \<and> c_mode c = Pausing) (acquired now)
                              (controls (k_db k))) k)))"

section \<open>Resume\<close>

record resume_input =
  re_control :: uuid
  re_epoch :: string
  re_key :: uuid
  re_user :: string
  re_reason :: resume_reason
  re_payload :: jvalue

definition resume_policy :: string where
  "resume_policy = ''future_only''"

definition resume_identity :: "resume_input \<Rightarrow> command_identity" where
  "resume_identity i = \<lparr>id_kind = Resume_Command, id_control = re_control i, id_epoch = re_epoch i,
     id_user = re_user i, id_reason = resume_reason_text (re_reason i), id_policy = Some resume_policy,
     id_payload = re_payload i\<rparr>"

record resume_ok =
  so_idempotent :: bool
  so_command :: uuid
  so_control :: uuid
  so_mode :: control_mode
  so_epoch :: nat
  so_after :: nat                        \<comment> \<open>\<open>resume_after_ingress_seq\<close>\<close>
  so_cancelled :: nat                    \<comment> \<open>\<open>backlog_cancelled\<close>\<close>
  so_updated :: instant

definition responderRetomadaGravada ::
    "scope \<Rightarrow> control_command \<Rightarrow> string \<Rightarrow> uuid \<Rightarrow> control_db \<Rightarrow> (control_refused + resume_ok) \<times> control_db" where
  "responderRetomadaGravada sc existente hash cid k =
     (case recusaDoComandoGravado sc existente hash cid k of
        Some (r, k') \<Rightarrow> (Inl r, k')
      | None \<Rightarrow>
          let atual = lockControlById sc (cc_control existente) k
          in (Inr \<lparr>so_idempotent = True, so_command = cc_id existente, so_control = cc_control existente,
                   so_mode = (case atual of None \<Rightarrow> Bot | Some c \<Rightarrow> c_mode c),
                   so_epoch = (case cc_result existente of None \<Rightarrow> 0 | Some e \<Rightarrow> e),
                   so_after = (case atual of None \<Rightarrow> 0 | Some c \<Rightarrow> coalesce (c_resume_after c) 0),
                   so_cancelled = 0, so_updated = cc_updated existente\<rparr>, k))"

text \<open>The watermark: the counter of the stream or the greatest number of its turns.\<close>

definition stream_counter :: "scope \<Rightarrow> string \<Rightarrow> db \<Rightarrow> nat" where
  "stream_counter sc s d =
     (case List.find (\<lambda>q. s_tenant q = fst sc \<and> s_agent q = snd sc \<and> s_stream q = s) (sequences d) of
        None \<Rightarrow> 0 | Some q \<Rightarrow> s_last_seq q)"

definition stream_turns :: "scope \<Rightarrow> string \<Rightarrow> db \<Rightarrow> turn list" where
  "stream_turns sc s d = filter (\<lambda>t. in_scope sc t \<and> t_stream t = Some s) (turns d)"

definition watermark :: "scope \<Rightarrow> string \<Rightarrow> db \<Rightarrow> nat" where
  "watermark sc s d =
     max (stream_counter sc s d) (foldr max (map (\<lambda>t. coalesce (t_last_seq t) 0) (stream_turns sc s d)) 0)"

text \<open>\<open>turnWithoutPendingEffectSql\<close> and the selection of the backlog, in the order of the ids.\<close>

definition turnWithoutPendingEffect :: "scope \<Rightarrow> control_db \<Rightarrow> turn \<Rightarrow> bool" where
  "turnWithoutPendingEffect sc k t =
     (\<not> list_ex (\<lambda>r. rr_tenant r = fst sc \<and> rr_agent r = snd sc \<and> rr_turn r = t_id t \<and> rr_phase r \<noteq> Run_Closed) (k_runs k)
      \<and> \<not> list_ex (\<lambda>c. tc_tenant c = fst sc \<and> tc_agent c = snd sc \<and> tc_turn c = t_id t
            \<and> (tc_state c \<in> set ESTADOS_EM_VOO \<or> tc_unknown c)) (k_calls k))"

definition held_for_cancellation :: "scope \<Rightarrow> string \<Rightarrow> nat \<Rightarrow> control_db \<Rightarrow> turn \<Rightarrow> bool" where
  "held_for_cancellation sc s w k t =
     (in_scope sc t \<and> t_stream t = Some s \<and> t_status t \<in> set ESTADOS_DESCARTAVEIS_DO_BACKLOG
      \<and> (case t_last_seq t of None \<Rightarrow> False | Some n \<Rightarrow> n \<le> w) \<and> turnWithoutPendingEffect sc k t)"

definition heldBacklogForCancellation :: "scope \<Rightarrow> string \<Rightarrow> nat \<Rightarrow> control_db \<Rightarrow> (uuid \<times> nat) list" where
  "heldBacklogForCancellation sc s w k =
     map (\<lambda>t. (t_id t, t_version t)) (sort_key t_id (filter (held_for_cancellation sc s w k) (turns (k_db k))))"

fun cancel_all :: "turn_config \<Rightarrow> instant \<Rightarrow> uuid \<Rightarrow> scope \<Rightarrow> (uuid \<times> nat) list \<Rightarrow> db \<Rightarrow> turn_exception + db" where
  "cancel_all cfg now bid sc [] d = Inr d"
| "cancel_all cfg now bid sc ((tid, v) # ts) d =
     (case cancelHeldBacklogTurnInTx cfg now bid sc tid v d of
        Inl e \<Rightarrow> Inl e
      | Inr (ok, d') \<Rightarrow> cancel_all cfg now bid sc ts d')"

definition resumed :: "instant \<Rightarrow> uuid \<Rightarrow> nat \<Rightarrow> resume_input \<Rightarrow> conversation_control \<Rightarrow> conversation_control" where
  "resumed now cmd w i c = c\<lparr>c_mode := Bot, c_epoch := c_epoch c + 1, c_resumed_at := Some now,
     c_reason := Some (resume_reason_text (re_reason i)), c_resume_after := Some w, c_last_command := Some cmd,
     c_updated := now\<rparr>"

definition resume_command :: "scope \<Rightarrow> instant \<Rightarrow> uuid \<Rightarrow> string \<Rightarrow> resume_input \<Rightarrow> conversation_control \<Rightarrow> control_command" where
  "resume_command sc now cmd hash i c =
     \<lparr>cc_id = cmd, cc_tenant = fst sc, cc_agent = snd sc, cc_control = re_control i, cc_kind = Resume_Command,
      cc_key = re_key i, cc_hash = hash, cc_expected = c_epoch c, cc_result = Some (c_epoch c + 1),
      cc_user = re_user i, cc_status = Command_Accepted, cc_outcome = None, cc_barrier = True,
      cc_drain = Some Drain_Complete, cc_inflight = 0, cc_unknown = 0, cc_updated = now\<rparr>"

definition resume_transition ::
    "turn_config \<Rightarrow> uuid \<Rightarrow> scope \<Rightarrow> instant \<Rightarrow> uuid \<Rightarrow> string \<Rightarrow> resume_input \<Rightarrow> conversation_control \<Rightarrow> control_db
      \<Rightarrow> (control_refused + resume_ok) control_result" where
  "resume_transition cfg bid sc now cmd hash i controle k =
     (if decimal (c_epoch controle) \<noteq> re_epoch i then Inr (Inl (refused_at Epoch_Mismatch controle), k)
      else if c_mode controle \<noteq> Human then Inr (Inl (refused_at Mode_Not_Allowed controle), k)
      else
        let w = watermark sc (c_stream controle) (k_db k);
            c' = resumed now cmd w i controle;
            k1 = set_controls (update_where (\<lambda>c. is_control sc (re_control i) c \<and> c_mode c = Human)
                                 (resumed now cmd w i) (controls (k_db k))) k;
            retidos = heldBacklogForCancellation sc (c_stream controle) w k1
        in if \<not> bigint_ok (int (c_epoch c')) then Inl (Control_Violation Numeric_Out_Of_Range)
           else
             (case cancel_all cfg now bid sc retidos (k_db k1) of
                Inl e \<Rightarrow> Inl (Turn_Failed e)
              | Inr d \<Rightarrow>
                  (case insert_command (resume_command sc now cmd hash i controle) (k1\<lparr>k_db := d\<rparr>) of
                     Inl e \<Rightarrow> Inl (Control_Violation e)
                   | Inr k2 \<Rightarrow>
                       Inr (Inr \<lparr>so_idempotent = False, so_command = cmd, so_control = re_control i,
                                 so_mode = c_mode c', so_epoch = c_epoch c', so_after = w,
                                 so_cancelled = length retidos, so_updated = c_updated c'\<rparr>,
                            audit_control sc (Audit_Automation_Resumed cmd (re_control i) (re_epoch i) (c_epoch c') w (length retidos))
                              (audit_control sc (Audit_Resume_Requested cmd (re_control i) (re_epoch i) (re_reason i) (re_user i)) k2)))))"

definition resumeInTx ::
    "(string \<Rightarrow> string) \<Rightarrow> heap \<Rightarrow> turn_config \<Rightarrow> uuid \<Rightarrow> scope \<Rightarrow> instant \<Rightarrow> uuid \<Rightarrow> resume_input \<Rightarrow> control_db \<Rightarrow> control_db
      \<Rightarrow> (control_refused + resume_ok) control_result" where
  "resumeInTx sha h cfg bid sc now cmd i k0 k =
     (case conversationControlCommandDigest sha h (resume_identity i) of
        Inl e \<Rightarrow> Inl (Digest_Failed e)
      | Inr hash \<Rightarrow>
          (case lerComandoPorChave sc (re_key i) k0 of
             Some existente \<Rightarrow> Inr (responderRetomadaGravada sc existente hash (re_control i) k)
           | None \<Rightarrow>
               (case lockControlById sc (re_control i) k of
                  None \<Rightarrow> Inr (Inl (refused Control_Not_Found), k)
                | Some controle \<Rightarrow>
                    (case lerComandoPorChave sc (re_key i) k of
                       Some gravado \<Rightarrow> Inr (responderRetomadaGravada sc gravado hash (re_control i) k)
                     | None \<Rightarrow> resume_transition cfg bid sc now cmd hash i controle k))))"

end
