(* ===== verification/Control_Backlog.thy ===== *)
theory Control_Backlog
  imports Conversation_Control
begin

text \<open>
  The discard of a retained backlog, one turn after the other in the transaction of the resume: what a
  discard that commits leaves, and when it commits.
\<close>

section \<open>One turn\<close>

definition cancel_args :: "uuid \<Rightarrow> nat \<Rightarrow> transition_args" where
  "cancel_args tid v =
     \<lparr>ra_turn = tid, ra_to = Ignored, ra_outcome = Some Operator_Cancelled,
      ra_sources = ESTADOS_DESCARTAVEIS_DO_BACKLOG, ra_version = Some v, ra_token = None, ra_absorber = None,
      ra_patch = no_patch\<lparr>p_next_attempt := Some None, p_clear := True\<rparr>, ra_block = None, ra_guard = False\<rparr>"

lemma cancel_transition:
  "cancelHeldBacklogTurnInTx cfg now bid sc tid v d
     = raise_conflict (runTransitionOnExecutor cfg now bid sc (cancel_args tid v) Fence_None d)"
  by (simp add: cancelHeldBacklogTurnInTx_def descartaveis_allowed cancel_args_def)

definition cancelled :: "turn \<Rightarrow> bool" where
  "cancelled t \<longleftrightarrow> t_status t = Ignored \<and> t_outcome t = Some Operator_Cancelled"

lemma cancelled_row: "cancelled (transition_row now (cancel_args tid v) r)"
  by (simp add: cancelled_def cancel_args_def)

lemma cancelled_stays: "row_evolves False sc fresh r r' \<Longrightarrow> cancelled r \<Longrightarrow> cancelled r'"
  by (auto simp: row_evolution cancelled_def isTerminalTurnStatus_def status_simps)

lemma transition_block_controls: "controls (snd (transition_block now bid sc a t d)) = controls d"
  by (auto simp: transition_block_def project_processed_def blockStreamForPoison_def Let_def split: option.splits)

lemma transition_promotion_controls: "controls (snd (transition_promotion cfg now sc a d)) = controls d"
  by (auto simp: transition_promotion_def promoteStreamSuccessor_def split: option.splits)

lemma runTransitionOnExecutor_controls:
  "runTransitionOnExecutor cfg now bid sc a fence d = Inr (x, d') \<Longrightarrow> controls d' = controls d"
  by (auto simp: runTransitionOnExecutor_def Let_def split: option.splits if_splits prod.splits)
    (metis (no_types, lifting) db.select_convs(4) db.surjective db.update_convs(1) snd_conv transition_block_controls
      transition_promotion_controls)

lemma cancel_committed:
  assumes "cancelHeldBacklogTurnInTx cfg now bid sc tid v d = Inr (ok, d')"
  obtains "runTransitionOnExecutor cfg now bid sc (cancel_args tid v) Fence_None d = Inr (Inr ok, d')"
  using assms by (auto simp: cancel_transition raise_conflict_def split: sum.splits prod.splits)

lemma cancel_evolves:
  assumes "cancelHeldBacklogTurnInTx cfg now bid sc tid v d = Inr (ok, d')" and "distinct (map t_id (turns d))"
  shows "db_evolves False sc None d d' \<and> controls d' = controls d"
proof -
  from cancel_committed [OF assms(1)] have "controls d' = controls d"
    by (blast dest: runTransitionOnExecutor_controls)
  then show ?thesis using backlog_cancel.evolves [OF assms(2), of sc cfg now bid tid v] assms(1) by simp
qed

lemma cancel_marks:
  assumes "cancelHeldBacklogTurnInTx cfg now bid sc tid v d = Inr (ok, d')" and "distinct (map t_id (turns d))"
  shows "\<exists>r \<in> set (turns d'). t_id r = tid \<and> cancelled r"
proof -
  from cancel_committed [OF assms(1)] obtain r d3
    where r: "List.find (transition_cond d now sc (cancel_args tid v) Fence_None) (turns d) = Some r"
      and d3: "turns d3 = update_where (transition_cond d now sc (cancel_args tid v) Fence_None)
                 (transition_row now (cancel_args tid v)) (turns d)"
      and p: "transition_promotion cfg now sc (cancel_args tid v) d3 = (ok_promotion ok, d')"
    by (blast elim: runTransitionOnExecutor_ok)
  let ?q = "transition_row now (cancel_args tid v) r"
  have cond: "transition_cond d now sc (cancel_args tid v) Fence_None r" and rd: "r \<in> set (turns d)"
    using find_SomeD [OF r] by auto
  have "is_turn sc tid r" using transition_condD(1) [OF cond] by (simp add: cancel_args_def)
  have "?q \<in> set (turns d3)" using cond rd by (force simp: d3 update_where_def)
  have "map t_id (turns d3) = map t_id (turns d)" unfolding d3 by (rule map_update_where_same) simp
  then have "distinct (map t_id (turns d3))" using assms(2) by simp
  from transition_promotion_evolves [OF this] have "db_evolves False sc None d3 (snd (transition_promotion cfg now sc (cancel_args tid v) d3))" .
  then have "db_evolves False sc None d3 d'" by (simp add: p)
  with \<open>?q \<in> set (turns d3)\<close> obtain q' where q': "q' \<in> set (turns d')" "row_evolves False sc None ?q q'"
    by (blast elim: db_evolves_forward)
  then show ?thesis
    using cancelled_stays [OF q'(2) cancelled_row] row_evolves_key(1) [OF q'(2)] \<open>is_turn sc tid r\<close>
    by (intro bexI [of _ q']) (auto simp: is_turn_def)
qed

section \<open>The backlog\<close>

lemma cancel_all_evolves:
  assumes "cancel_all cfg now bid sc ts d = Inr d'" and "distinct (map t_id (turns d))"
  shows "db_evolves False sc None d d' \<and> controls d' = controls d
    \<and> (\<forall>(tid, v) \<in> set ts. \<exists>r \<in> set (turns d'). t_id r = tid \<and> cancelled r)"
  using assms
proof (induction cfg now bid sc ts d arbitrary: d' rule: cancel_all.induct)
  case (2 cfg now bid sc tid v ts d)
  then obtain ok e where c: "cancelHeldBacklogTurnInTx cfg now bid sc tid v d = Inr (ok, e)"
    and rest: "cancel_all cfg now bid sc ts e = Inr d'" by (auto split: sum.splits)
  note e = cancel_evolves [OF c 2(3)]
  have ids: "distinct (map t_id (turns e))" using e 2(3) db_evolves_ids by blast
  note ih = 2(1) [OF c refl rest ids]
  obtain r where "r \<in> set (turns e)" "t_id r = tid" "cancelled r" using cancel_marks [OF c 2(3)] by blast
  then obtain r' where "r' \<in> set (turns d')" "t_id r' = tid" "cancelled r'"
    using ih by (metis db_evolves_forward cancelled_stays row_evolves_key(1))
  with ih e show ?case by (auto intro: db_evolves_trans)
qed auto

lemma cancel_all_controls: "cancel_all cfg now bid sc ts d = Inr d' \<Longrightarrow> controls d' = controls d"
proof (induction cfg now bid sc ts d arbitrary: d' rule: cancel_all.induct)
  case (2 cfg now bid sc tid v ts d)
  then obtain ok e where c: "cancelHeldBacklogTurnInTx cfg now bid sc tid v d = Inr (ok, e)"
    and "cancel_all cfg now bid sc ts e = Inr d'" by (auto split: sum.splits)
  moreover from cancel_committed [OF c] have "controls e = controls d" by (blast dest: runTransitionOnExecutor_controls)
  ultimately show ?case using 2(1) by metis
qed simp

text \<open>
  Without the promotion of successors a discard touches the row of its turn only, so every turn of the
  backlog still has the version it was selected with when its own discard comes.
\<close>

definition discardable :: "scope \<Rightarrow> db \<Rightarrow> uuid \<times> nat \<Rightarrow> bool" where
  "discardable sc d p \<longleftrightarrow>
     (\<exists>r \<in> set (turns d). is_turn sc (fst p) r \<and> t_version r = snd p
        \<and> t_status r \<in> set ESTADOS_DESCARTAVEIS_DO_BACKLOG)"

lemma cancel_succeeds:
  assumes "\<not> promotionEnabled cfg" and "store_ok d" and "discardable sc d (tid, v)"
  shows "\<exists>ok d'. cancelHeldBacklogTurnInTx cfg now bid sc tid v d = Inr (ok, d')
    \<and> turns d' = update_where (is_turn sc tid) (transition_row now (cancel_args tid v)) (turns d)"
proof -
  from assms(3) obtain r where r: "r \<in> set (turns d)" "is_turn sc tid r" "t_version r = v"
    "t_status r \<in> set ESTADOS_DESCARTAVEIS_DO_BACKLOG" by (auto simp: discardable_def)
  have cond: "transition_cond d now sc (cancel_args tid v) Fence_None q \<longleftrightarrow> is_turn sc tid q" if "q \<in> set (turns d)" for q
  proof
    assume "is_turn sc tid q"
    with that r store_ok_ids [OF assms(2)] have "q = r" by (auto simp: is_turn_def dest: distinct_map_eqD)
    with r show "transition_cond d now sc (cancel_args tid v) Fence_None q"
      by (simp add: transition_cond_def turnWriteConditions_def cancel_args_def)
  qed (use transition_condD(1) in \<open>fastforce simp: cancel_args_def\<close>)
  let ?row = "transition_row now (cancel_args tid v)"
  have upd: "update_where (transition_cond d now sc (cancel_args tid v) Fence_None) ?row (turns d)
      = update_where (is_turn sc tid) ?row (turns d)"
    unfolding update_where_def by (rule map_cong [OF refl]) (simp add: cond)
  obtain q where q: "List.find (transition_cond d now sc (cancel_args tid v) Fence_None) (turns d) = Some q"
    using cond r(1,2) by (cases "List.find (transition_cond d now sc (cancel_args tid v) Fence_None) (turns d)")
      (auto simp: find_None_iff)
  from find_SomeD [OF q] cond have "q \<in> set (turns d)" "is_turn sc tid q" by auto
  with r store_ok_ids [OF assms(2)] have "q = r" by (auto simp: is_turn_def dest: distinct_map_eqD)
  have live: "\<not> isTerminalTurnStatus (t_status r)" using r(4) by (auto simp: status_simps isTerminalTurnStatus_def)
  have chk: "row_checks (?row r)"
    using row_checks_live [OF store_ok_checks [OF assms(2) r(1)] live] store_ok_checks [OF assms(2) r(1)]
    by (simp add: row_checks_def agent_turns_superseded_by_chk_def cancel_args_def transition_row_def no_patch_def)
  have uq: "agent_turns_stream_active_uq (update_where (is_turn sc tid) ?row (turns d))"
    by (rule uq_update [OF store_ok_uq [OF assms(2)]])
      (simp add: vacates_def stream_slot_def occupies_def status_simps cancel_args_def)
  have pr: "transition_promotion cfg now sc (cancel_args tid v) e = (None, e)" for e
    using assms(1) by (simp add: transition_promotion_def)
  show ?thesis
    using chk uq
    by (simp add: cancel_transition raise_conflict_def runTransitionOnExecutor_def q \<open>q = r\<close> Let_def upd pr
        split: prod.splits) (metis transition_block_turns snd_conv db.select_convs(1) db.surjective db.update_convs(1))
qed

lemma cancel_all_commits:
  assumes "\<not> promotionEnabled cfg" and "store_ok d" and "distinct (map fst ts)"
    and "\<forall>p \<in> set ts. discardable sc d p"
  shows "\<exists>d'. cancel_all cfg now bid sc ts d = Inr d'"
  using assms
proof (induction cfg now bid sc ts d rule: cancel_all.induct)
  case (2 cfg now bid sc tid v ts d)
  from cancel_succeeds [OF 2(2,3)] 2(5) obtain ok e
    where c: "cancelHeldBacklogTurnInTx cfg now bid sc tid v d = Inr (ok, e)"
      and e: "turns e = update_where (is_turn sc tid) (transition_row now (cancel_args tid v)) (turns d)" by fastforce
  have "store_ok (committed (cancelHeldBacklogTurnInTx cfg now bid sc tid v d) d)"
    by (rule backlog_cancel.preserves [OF 2(3)])
  then have "store_ok e" using c by simp
  moreover have "discardable sc e p" if "p \<in> set ts" for p
  proof -
    have "fst p \<noteq> tid" using 2(4) that by (auto simp: image_iff)
    moreover have "discardable sc d p" using 2(5) that by simp
    ultimately show ?thesis unfolding discardable_def e update_where_def by (force simp: is_turn_def)
  qed
  ultimately obtain d' where "cancel_all cfg now bid sc ts e = Inr d'" using 2(1) [OF c refl 2(2)] 2(4) by auto
  with c show ?case by simp
qed simp

end
