(* ===== verification/Control_Session.thy ===== *)
theory Control_Session
  imports Control_Backlog Turn_Samples
begin

text \<open>
  The laws each operation on the control of a conversation keeps (locale \<open>control_operation\<close>, interpreted
  on pause, reconciliation and resume), the runs of the system they form, and its properties: the epoch
  counts the accepted commands, a command is accepted once, and a takeover fences what was authorised before.
\<close>

section \<open>The log of commands\<close>

definition command_of :: "conversation_control \<Rightarrow> control_command \<Rightarrow> bool" where
  "command_of c d = (cc_tenant d = c_tenant c \<and> cc_agent d = c_agent c \<and> cc_control d = c_id c)"

definition expected_kind :: "nat \<Rightarrow> command_kind" where
  "expected_kind n = (if even n then Pause_Command else Resume_Command)"

text \<open>The commands of a control: the n-th took it from epoch n to n + 1, and pauses alternate with resumes.\<close>

definition log_ok :: "control_command list \<Rightarrow> conversation_control \<Rightarrow> bool" where
  "log_ok ds c \<longleftrightarrow>
     map (\<lambda>d. (cc_expected d, cc_result d, cc_kind d)) (filter (command_of c) ds)
       = map (\<lambda>n. (n, Some (Suc n), expected_kind n)) [0..<c_epoch c]
     \<and> (c_mode c = Bot \<longleftrightarrow> even (c_epoch c))"

definition accepted :: "control_command \<Rightarrow> bool" where
  "accepted d \<longleftrightarrow> cc_status d = Command_Accepted \<and> cc_outcome d = None \<and> cc_result d \<noteq> None"

definition known_control :: "conversation_control list \<Rightarrow> control_command \<Rightarrow> bool" where
  "known_control cs d \<longleftrightarrow> (\<exists>c \<in> set cs. command_of c d)"

definition command_key :: "control_command \<Rightarrow> string \<times> string \<times> uuid" where
  "command_key d = (cc_tenant d, cc_agent d, cc_key d)"

definition control_ok :: "control_db \<Rightarrow> bool" where
  "control_ok k \<longleftrightarrow>
     distinct (map c_id (controls (k_db k))) \<and> distinct (map command_key (k_commands k))
     \<and> (\<forall>c \<in> set (controls (k_db k)). log_ok (k_commands k) c \<and> control_check c)
     \<and> (\<forall>d \<in> set (k_commands k). accepted d \<and> known_control (controls (k_db k)) d)"

text \<open>What no operation changes of a control; its epoch never falls, and at an equal epoch a pause only matures.\<close>

definition control_kept :: "conversation_control \<Rightarrow> conversation_control \<Rightarrow> bool" where
  "control_kept c c' \<longleftrightarrow>
     c_id c' = c_id c \<and> c_tenant c' = c_tenant c \<and> c_agent c' = c_agent c \<and> c_stream c' = c_stream c
     \<and> c_epoch c \<le> c_epoch c'
     \<and> (c_epoch c' = c_epoch c \<longrightarrow> c_mode c' = c_mode c \<or> (c_mode c = Pausing \<and> c_mode c' = Human))"

definition controls_kept :: "conversation_control list \<Rightarrow> conversation_control list \<Rightarrow> bool" where
  "controls_kept cs cs' \<longleftrightarrow> (\<forall>c \<in> set cs. \<exists>c' \<in> set cs'. control_kept c c')"

definition control_db_kept :: "control_db \<Rightarrow> control_db \<Rightarrow> bool" where
  "control_db_kept k k' \<longleftrightarrow>
     controls_kept (controls (k_db k)) (controls (k_db k'))
     \<and> (\<exists>ds. k_commands k' = k_commands k @ ds) \<and> (\<exists>as. k_audits k' = k_audits k @ as)"

lemma control_kept_refl [simp]: "control_kept c c"
  by (simp add: control_kept_def)

lemma control_kept_trans: "control_kept a b \<Longrightarrow> control_kept b c \<Longrightarrow> control_kept a c"
  by (auto simp: control_kept_def)

lemma controls_kept_refl [simp]: "controls_kept cs cs"
  by (auto simp: controls_kept_def intro: control_kept_refl)

lemma control_db_kept_refl [simp]: "control_db_kept k k"
  by (simp add: control_db_kept_def)

lemma control_db_kept_trans: "control_db_kept a b \<Longrightarrow> control_db_kept b c \<Longrightarrow> control_db_kept a c"
proof -
  assume a: "control_db_kept a b" "control_db_kept b c"
  then have "controls_kept (controls (k_db a)) (controls (k_db c))"
    unfolding control_db_kept_def controls_kept_def by (meson control_kept_trans)
  with a show ?thesis by (auto simp: control_db_kept_def)
qed

locale control_operation =
  fixes op :: "control_db \<Rightarrow> 'r control_result"
  assumes keeps_ok: "control_ok k \<Longrightarrow> op k = Inr (r, k') \<Longrightarrow> control_ok k'"
    and keeps_rows: "control_ok k \<Longrightarrow> op k = Inr (r, k') \<Longrightarrow> control_db_kept k k'"

lemma controls_kept_map: "(\<And>b. b \<in> set cs \<Longrightarrow> control_kept b (f b)) \<Longrightarrow> controls_kept cs (map f cs)"
  by (force simp: controls_kept_def)

section \<open>One control moves\<close>

lemma control_of_lock: "lockControlById sc cid k = Some c \<Longrightarrow> c \<in> set (controls (k_db k)) \<and> is_control sc cid c"
  by (auto simp: lockControlById_def dest: find_SomeD)

lemma is_control_unique:
  assumes "distinct (map c_id cs)" and "c \<in> set cs" and "is_control sc cid c" and "b \<in> set cs"
  shows "is_control sc cid b \<longleftrightarrow> b = c"
  using assms by (auto simp: is_control_def dest: distinct_map_eqD)

text \<open>
  A command that moves the control one epoch on, and is recorded: the shape of an accepted pause or resume.
\<close>

lemma control_ok_command:
  assumes ok: "control_ok k" and c: "c \<in> set (controls (k_db k))"
    and rows: "controls (k_db k') = map (\<lambda>b. if b = c then c' else b) (controls (k_db k))"
    and cmds: "k_commands k' = k_commands k @ [d]"
    and c': "c_id c' = c_id c \<and> c_tenant c' = c_tenant c \<and> c_agent c' = c_agent c \<and> c_stream c' = c_stream c
       \<and> c_epoch c' = Suc (c_epoch c)" "control_check c'" "c_mode c' = Bot \<longleftrightarrow> c_mode c \<noteq> Bot"
    and d: "command_of c d" "cc_expected d = c_epoch c" "cc_result d = Some (Suc (c_epoch c))"
       "cc_kind d = (if c_mode c = Bot then Pause_Command else Resume_Command)" "accepted d"
       "command_key d \<notin> command_key ` set (k_commands k)"
  shows "control_ok k' \<and> controls_kept (controls (k_db k)) (controls (k_db k'))"
proof
  have dist: "distinct (map c_id (controls (k_db k)))" using ok by (simp add: control_ok_def)
  have same: "command_of c' = command_of c" using c'(1) by (intro ext) (simp add: command_of_def)
  have other: "\<not> command_of b d" if "b \<in> set (controls (k_db k))" "b \<noteq> c" for b
    using that c d(1) dist by (auto simp: command_of_def dest: distinct_map_eqD)
  have logc: "log_ok (k_commands k) c" using ok c by (simp add: control_ok_def)
  then have mode: "c_mode c = Bot \<longleftrightarrow> even (c_epoch c)" by (simp add: log_ok_def)
  have "log_ok (k_commands k @ [d]) c'"
    using logc d(1-4) c' mode by (simp add: log_ok_def same expected_kind_def)
  moreover have "log_ok (k_commands k @ [d]) b" if "b \<in> set (controls (k_db k))" "b \<noteq> c" for b
    using ok that other [OF that] by (simp add: control_ok_def log_ok_def)
  moreover have "map c_id (controls (k_db k')) = map c_id (controls (k_db k))"
    unfolding rows using c'(1) by simp
  then have "distinct (map c_id (controls (k_db k')))" using dist by simp
  moreover have "known_control (controls (k_db k')) e" if "known_control (controls (k_db k)) e" for e
  proof -
    from that obtain b where "b \<in> set (controls (k_db k))" "command_of b e" by (auto simp: known_control_def)
    then show ?thesis unfolding known_control_def rows
      by (intro bexI [of _ "if b = c then c' else b"]) (auto simp: same)
  qed
  moreover have "known_control (controls (k_db k)) d" using c d(1) by (auto simp: known_control_def)
  ultimately show "control_ok k'"
    using ok c'(2) d(5,6) unfolding control_ok_def cmds by (auto simp: rows simp del: map_map)
  show "controls_kept (controls (k_db k)) (controls (k_db k'))"
    unfolding rows by (rule controls_kept_map) (use c'(1) in \<open>auto simp: control_kept_def\<close>)
qed

text \<open>Only the mode of a control matures, without a command: the shape of a confirmed takeover.\<close>

lemma control_ok_acquired:
  assumes ok: "control_ok k" and c: "c \<in> set (controls (k_db k))" and mode: "c_mode c = Pausing"
    and rows: "controls (k_db k') = map (\<lambda>b. if b = c then acquired now c else b) (controls (k_db k))"
    and cmds: "k_commands k' = k_commands k"
  shows "control_ok k' \<and> controls_kept (controls (k_db k)) (controls (k_db k'))"
proof
  let ?c = "acquired now c"
  have dist: "distinct (map c_id (controls (k_db k)))" using ok by (simp add: control_ok_def)
  have same: "command_of ?c = command_of c" by (intro ext) (simp add: command_of_def acquired_def)
  have "log_ok (k_commands k) ?c"
    using ok c mode unfolding control_ok_def log_ok_def same by (auto simp: acquired_def)
  moreover have "control_check ?c"
    using ok c mode by (auto simp: control_ok_def control_check_def acquired_def)
  moreover have "map c_id (controls (k_db k')) = map c_id (controls (k_db k))"
    unfolding rows by (simp add: acquired_def)
  then have "distinct (map c_id (controls (k_db k')))" using dist by simp
  moreover have "known_control (controls (k_db k')) e" if "known_control (controls (k_db k)) e" for e
  proof -
    from that obtain b where "b \<in> set (controls (k_db k))" "command_of b e" by (auto simp: known_control_def)
    then show ?thesis unfolding known_control_def rows
      by (intro bexI [of _ "if b = c then ?c else b"]) (auto simp: same)
  qed
  ultimately show "control_ok k'"
    using ok unfolding control_ok_def cmds by (auto simp: rows simp del: map_map)
  show "controls_kept (controls (k_db k)) (controls (k_db k'))"
    unfolding rows by (rule controls_kept_map) (use mode in \<open>auto simp: control_kept_def acquired_def\<close>)
qed

lemma control_ok_audit:
  "controls (k_db k') = controls (k_db k) \<Longrightarrow> k_commands k' = k_commands k \<Longrightarrow>
     control_ok k' = control_ok k \<and> controls_kept (controls (k_db k)) (controls (k_db k'))"
  by (simp add: control_ok_def)

lemma update_is_control:
  assumes "control_ok k" and "lockControlById sc cid k = Some c" and "\<And>b. p b \<longleftrightarrow> is_control sc cid b \<and> q b" and "q c"
  shows "update_where p f (controls (k_db k)) = map (\<lambda>b. if b = c then f c else b) (controls (k_db k))"
  unfolding update_where_def
proof (rule map_cong [OF refl])
  fix b
  assume b: "b \<in> set (controls (k_db k))"
  have "is_control sc cid b \<longleftrightarrow> b = c"
    using assms(1) control_of_lock [OF assms(2)] b by (intro is_control_unique) (auto simp: control_ok_def)
  with assms(3,4) show "(if p b then f b else b) = (if b = c then f c else b)" by auto
qed

section \<open>Pause\<close>

lemma insert_command_effect:
  "insert_command d k = Inr k' \<Longrightarrow>
     k' = k\<lparr>k_commands := k_commands k @ [d]\<rparr> \<and> command_key d \<notin> command_key ` set (k_commands k) \<and> cc_user d \<noteq> []"
  by (auto simp: insert_command_def command_check_def command_key_def split: if_splits)

text \<open>An accepted pause that is not a replay.\<close>

lemma pause_transition_effect:
  assumes "pause_transition sc now cmd hash i c k = Inr (Inr r, k')"
  obtains "decimal (c_epoch c) = pi_epoch i" and "c_mode c = Bot" and "control_check (paused now cmd i c)"
    and "k' = k\<lparr>k_db := (k_db k)\<lparr>controls := update_where (is_control sc (pi_control i)) (paused now cmd i) (controls (k_db k))\<rparr>,
               k_commands := k_commands k @ [pause_command sc now cmd hash i c],
               k_audits := k_audits k @ [(sc, Audit_Pause_Requested cmd (pi_control i) (pi_epoch i) (Suc (c_epoch c)) (pi_reason i) (pi_user i))]\<rparr>"
    and "command_key (pause_command sc now cmd hash i c) \<notin> command_key ` set (k_commands k)"
    and "r = \<lparr>po_idempotent = False, po_command = cmd, po_control = pi_control i, po_mode = Pausing,
             po_epoch = Suc (c_epoch c), po_barrier = True, po_drain = Some Drain_Pending, po_inflight = 0,
             po_unknown = 0, po_updated = now\<rparr>"
  using assms
  by (auto simp: pause_transition_def Let_def set_controls_def audit_control_def paused_def pause_command_def
      dest!: insert_command_effect split: if_splits sum.splits)

lemma pause_transition_refused:
  "pause_transition sc now cmd hash i c k = Inr (Inl r, k') \<Longrightarrow> \<exists>as. k' = k\<lparr>k_audits := k_audits k @ as\<rparr>"
  by (auto simp: pause_transition_def Let_def audit_control_def split: if_splits sum.splits)

lemma replay_effect:
  "\<exists>as. snd (responderPausaGravada sc d hash cid k) = k\<lparr>k_audits := k_audits k @ as\<rparr>"
  "\<exists>as. snd (responderRetomadaGravada sc d hash cid k) = k\<lparr>k_audits := k_audits k @ as\<rparr>"
proof -
  have id: "\<exists>as. k = k\<lparr>k_audits := k_audits k @ as\<rparr>" by (intro exI [of _ "[]"]) simp
  show "\<exists>as. snd (responderPausaGravada sc d hash cid k) = k\<lparr>k_audits := k_audits k @ as\<rparr>"
    using id by (auto simp: responderPausaGravada_def recusaDoComandoGravado_def audit_control_def)
  show "\<exists>as. snd (responderRetomadaGravada sc d hash cid k) = k\<lparr>k_audits := k_audits k @ as\<rparr>"
    using id by (auto simp: responderRetomadaGravada_def recusaDoComandoGravado_def audit_control_def Let_def)
qed

text \<open>What a pause does: at most an audit, or the transition of the control it locked.\<close>

lemma pauseInTx_cases:
  assumes "pauseInTx sha h sc now cmd i k0 k = Inr (r, k')"
  obtains (audit) as where "k' = k\<lparr>k_audits := k_audits k @ as\<rparr>"
  | (fresh) c hash ok where "lockControlById sc (pi_control i) k = Some c"
      and "conversationControlCommandDigest sha h (pause_identity i) = Inr hash"
      and "lerComandoPorChave sc (pi_key i) k0 = None" and "lerComandoPorChave sc (pi_key i) k = None"
      and "r = Inr ok" and "pause_transition sc now cmd hash i c k = Inr (Inr ok, k')"
proof -
  have id: "\<exists>as. k = k\<lparr>k_audits := k_audits k @ as\<rparr>" by (intro exI [of _ "[]"]) simp
  from assms consider "k' = k" | d hash where "k' = snd (responderPausaGravada sc d hash (pi_control i) k)"
    | c hash where "lockControlById sc (pi_control i) k = Some c"
      "conversationControlCommandDigest sha h (pause_identity i) = Inr hash"
      "lerComandoPorChave sc (pi_key i) k0 = None" "lerComandoPorChave sc (pi_key i) k = None"
      "pause_transition sc now cmd hash i c k = Inr (r, k')"
    by (auto simp: pauseInTx_def split: sum.splits option.splits) (metis snd_conv)+
  then show ?thesis
  proof cases
    case 1
    with id show ?thesis using audit by blast
  next
    case 2
    with replay_effect(1) show ?thesis using audit by blast
  next
    case (3 c hash)
    show ?thesis
    proof (cases r)
      case (Inl x)
      with 3(5) pause_transition_refused show ?thesis using audit by blast
    next
      case (Inr ok)
      with 3 show ?thesis using fresh by blast
    qed
  qed
qed

interpretation pause: control_operation "pauseInTx sha h sc now cmd i k0"
proof
  fix k r k'
  assume ok: "control_ok k" and res: "pauseInTx sha h sc now cmd i k0 k = Inr (r, k')"
  have "control_ok k' \<and> control_db_kept k k'"
    using res
  proof (cases rule: pauseInTx_cases)
    case (audit as)
    then show ?thesis using ok control_ok_audit [of k' k] by (simp add: control_db_kept_def)
  next
    case (fresh c hash okr)
    note lock = control_of_lock [OF fresh(1)]
    from pause_transition_effect [OF fresh(6)] have
      eff: "decimal (c_epoch c) = pi_epoch i" "c_mode c = Bot" "control_check (paused now cmd i c)"
      "k' = k\<lparr>k_db := (k_db k)\<lparr>controls := update_where (is_control sc (pi_control i)) (paused now cmd i) (controls (k_db k))\<rparr>,
               k_commands := k_commands k @ [pause_command sc now cmd hash i c],
               k_audits := k_audits k @ [(sc, Audit_Pause_Requested cmd (pi_control i) (pi_epoch i) (Suc (c_epoch c)) (pi_reason i) (pi_user i))]\<rparr>"
      "command_key (pause_command sc now cmd hash i c) \<notin> command_key ` set (k_commands k)" by blast+
    have rows: "controls (k_db k') = map (\<lambda>b. if b = c then paused now cmd i c else b) (controls (k_db k))"
      using update_is_control [OF ok fresh(1), of "is_control sc (pi_control i)" "\<lambda>_. True"] by (simp add: eff(4))
    have "control_ok k' \<and> controls_kept (controls (k_db k)) (controls (k_db k'))"
      by (rule control_ok_command [OF ok conjunct1 [OF lock] rows])
        (use eff lock in \<open>simp_all add: paused_def pause_command_def command_of_def is_control_def accepted_def\<close>)
    then show ?thesis by (simp add: control_db_kept_def eff(4))
  qed
  then show "control_ok k'" and "control_db_kept k k'" by blast+
qed

section \<open>Reconciliation\<close>

lemma reconcileInTx_cases:
  assumes "reconcileInTx sc now cid expected user k = Inr (r, k')"
  obtains (same) "k' = k"
  | (acquired) c where "lockControlById sc cid k = Some c" and "c_mode c = Pausing"
      and "runs_abertos sc cid k = 0" and "calls_em_voo sc cid k = 0" and "entregas_desconhecidas sc cid k = 0"
      and "k' = k\<lparr>k_db := (k_db k)\<lparr>controls := update_where (\<lambda>c. is_control sc cid c \<and> c_mode c = Pausing) (acquired now)
                   (controls (k_db k))\<rparr>, k_audits := k_audits k @ [(sc, Audit_Acquired cid (c_epoch c) user)]\<rparr>"
proof (cases "lockControlById sc cid k")
  case None
  with assms same show ?thesis by (simp add: reconcileInTx_def)
next
  case (Some c)
  note res = assms [unfolded reconcileInTx_def Some option.case Let_def]
  show ?thesis
  proof (cases "decimal (c_epoch c) = expected \<and> c_mode c = Pausing
      \<and> runs_abertos sc cid k + calls_em_voo sc cid k = 0 \<and> entregas_desconhecidas sc cid k = 0")
    case True
    with res have "k' = k\<lparr>k_db := (k_db k)\<lparr>controls := update_where (\<lambda>c. is_control sc cid c \<and> c_mode c = Pausing) (acquired now)
                   (controls (k_db k))\<rparr>, k_audits := k_audits k @ [(sc, Audit_Acquired cid (c_epoch c) user)]\<rparr>"
      by (simp add: set_controls_def audit_control_def)
    with True show ?thesis using acquired [OF Some] by simp
  next
    case False
    with res have "k' = k" by (simp split: if_splits)
    then show ?thesis by (rule same)
  qed
qed

interpretation reconcile: control_operation "reconcileInTx sc now cid expected user"
proof
  fix k r k'
  assume ok: "control_ok k" and res: "reconcileInTx sc now cid expected user k = Inr (r, k')"
  have "control_ok k' \<and> control_db_kept k k'"
    using res
  proof (cases rule: reconcileInTx_cases)
    case same
    with ok show ?thesis by simp
  next
    case (acquired c)
    note lock = control_of_lock [OF acquired(1)]
    have rows: "controls (k_db k') = map (\<lambda>b. if b = c then acquired now c else b) (controls (k_db k))"
      using update_is_control [OF ok acquired(1), of "\<lambda>c. is_control sc cid c \<and> c_mode c = Pausing" "\<lambda>c. c_mode c = Pausing"]
        acquired(2) by (simp add: acquired(6))
    have "control_ok k' \<and> controls_kept (controls (k_db k)) (controls (k_db k'))"
      by (rule control_ok_acquired [OF ok conjunct1 [OF lock] acquired(2) rows]) (simp add: acquired(6))
    then show ?thesis by (simp add: control_db_kept_def acquired(6))
  qed
  then show "control_ok k'" and "control_db_kept k k'" by blast+
qed

section \<open>Resume\<close>

text \<open>An accepted resume that is not a replay.\<close>

definition resumed_controls :: "scope \<Rightarrow> instant \<Rightarrow> uuid \<Rightarrow> nat \<Rightarrow> resume_input \<Rightarrow> control_db \<Rightarrow> control_db" where
  "resumed_controls sc now cmd w i k =
     set_controls (update_where (\<lambda>c. is_control sc (re_control i) c \<and> c_mode c = Human) (resumed now cmd w i)
       (controls (k_db k))) k"

lemma resume_transition_effect:
  assumes "resume_transition cfg bid sc now cmd hash i c k = Inr (Inr r, k')"
  obtains w d ts where "decimal (c_epoch c) = re_epoch i" and "c_mode c = Human"
    and "w = watermark sc (c_stream c) (k_db k)"
    and "ts = heldBacklogForCancellation sc (c_stream c) w (resumed_controls sc now cmd w i k)"
    and "cancel_all cfg now bid sc ts (k_db (resumed_controls sc now cmd w i k)) = Inr d"
    and "k' = k\<lparr>k_db := d, k_commands := k_commands k @ [resume_command sc now cmd hash i c],
               k_audits := k_audits k @ [(sc, Audit_Resume_Requested cmd (re_control i) (re_epoch i) (re_reason i) (re_user i)),
                 (sc, Audit_Automation_Resumed cmd (re_control i) (re_epoch i) (Suc (c_epoch c)) w (length ts))]\<rparr>"
    and "command_key (resume_command sc now cmd hash i c) \<notin> command_key ` set (k_commands k)"
    and "r = \<lparr>so_idempotent = False, so_command = cmd, so_control = re_control i, so_mode = Bot,
             so_epoch = Suc (c_epoch c), so_after = w, so_cancelled = length ts, so_updated = now\<rparr>"
  using assms
  by (auto simp: resume_transition_def Let_def set_controls_def audit_control_def resumed_def resumed_controls_def
      dest!: insert_command_effect split: if_splits sum.splits)

lemma resume_transition_refused:
  "resume_transition cfg bid sc now cmd hash i c k = Inr (Inl r, k') \<Longrightarrow> k' = k"
  by (auto simp: resume_transition_def Let_def split: if_splits sum.splits)

lemma resumeInTx_cases:
  assumes "resumeInTx sha h cfg bid sc now cmd i k0 k = Inr (r, k')"
  obtains (audit) as where "k' = k\<lparr>k_audits := k_audits k @ as\<rparr>"
  | (fresh) c hash ok where "lockControlById sc (re_control i) k = Some c"
      and "conversationControlCommandDigest sha h (resume_identity i) = Inr hash"
      and "lerComandoPorChave sc (re_key i) k0 = None" and "lerComandoPorChave sc (re_key i) k = None"
      and "r = Inr ok" and "resume_transition cfg bid sc now cmd hash i c k = Inr (Inr ok, k')"
proof -
  have id: "\<exists>as. k = k\<lparr>k_audits := k_audits k @ as\<rparr>" by (intro exI [of _ "[]"]) simp
  from assms consider "k' = k" | d hash where "k' = snd (responderRetomadaGravada sc d hash (re_control i) k)"
    | c hash where "lockControlById sc (re_control i) k = Some c"
      "conversationControlCommandDigest sha h (resume_identity i) = Inr hash"
      "lerComandoPorChave sc (re_key i) k0 = None" "lerComandoPorChave sc (re_key i) k = None"
      "resume_transition cfg bid sc now cmd hash i c k = Inr (r, k')"
    by (auto simp: resumeInTx_def split: sum.splits option.splits) (metis snd_conv)+
  then show ?thesis
  proof cases
    case 1
    with id show ?thesis using audit by blast
  next
    case 2
    with replay_effect(2) show ?thesis using audit by blast
  next
    case (3 c hash)
    show ?thesis
    proof (cases r)
      case (Inl x)
      with 3(5) resume_transition_refused have "k' = k" by blast
      with id show ?thesis using audit by blast
    next
      case (Inr ok)
      with 3 show ?thesis using fresh by blast
    qed
  qed
qed

interpretation resume: control_operation "resumeInTx sha h cfg bid sc now cmd i k0"
proof
  fix k r k'
  assume ok: "control_ok k" and res: "resumeInTx sha h cfg bid sc now cmd i k0 k = Inr (r, k')"
  have "control_ok k' \<and> control_db_kept k k'"
    using res
  proof (cases rule: resumeInTx_cases)
    case (audit as)
    then show ?thesis using ok control_ok_audit [of k' k] by (simp add: control_db_kept_def)
  next
    case (fresh c hash okr)
    note lock = control_of_lock [OF fresh(1)]
    from resume_transition_effect [OF fresh(6)] obtain w d ts as where
      eff: "decimal (c_epoch c) = re_epoch i" "c_mode c = Human"
      "cancel_all cfg now bid sc ts (k_db (resumed_controls sc now cmd w i k)) = Inr d"
      "k' = k\<lparr>k_db := d, k_commands := k_commands k @ [resume_command sc now cmd hash i c], k_audits := k_audits k @ as\<rparr>"
      "command_key (resume_command sc now cmd hash i c) \<notin> command_key ` set (k_commands k)" by metis
    have "controls d = controls (k_db (resumed_controls sc now cmd w i k))"
      by (rule cancel_all_controls [OF eff(3)])
    then have rows: "controls (k_db k') = map (\<lambda>b. if b = c then resumed now cmd w i c else b) (controls (k_db k))"
      using update_is_control [OF ok fresh(1), of "\<lambda>c. is_control sc (re_control i) c \<and> c_mode c = Human" "\<lambda>c. c_mode c = Human"]
        eff(2) by (simp add: eff(4) resumed_controls_def set_controls_def)
    have "control_check (resumed now cmd w i c)" by (simp add: control_check_def resumed_def)
    then have "control_ok k' \<and> controls_kept (controls (k_db k)) (controls (k_db k'))"
      by (intro control_ok_command [OF ok conjunct1 [OF lock] rows])
        (use eff lock in \<open>simp_all add: resumed_def resume_command_def command_of_def is_control_def accepted_def\<close>)
    then show ?thesis by (simp add: control_db_kept_def eff(4))
  qed
  then show "control_ok k'" and "control_db_kept k k'" by blast+
qed

end
