(* ===== verification/Inference_Session.thy ===== *)
theory Inference_Session
  imports Inference_Ledger
begin

text \<open>
  The laws every transaction of the inference ledger keeps (locale \<open>ledger_operation\<close>, interpreted on
  each of them), the transactions as the steps of one system, and the properties of what it reaches: the
  books balance, exposure stays within the limit, attempts are numbered, what was settled or revoked stays.
\<close>

section \<open>Sums over a table\<close>

lemma sum_list_update_where:
  fixes f :: "'r \<Rightarrow> int"
  assumes "distinct (map k rs)" and "r \<in> set rs" and "\<And>x. x \<in> set rs \<Longrightarrow> p x \<longleftrightarrow> k x = k r"
  shows "sum_list (map f (update_where p g rs)) = sum_list (map f rs) - f r + f (g r)"
  using assms
proof (induction rs)
  case (Cons x rs)
  show ?case
  proof (cases "x = r")
    case True
    then have "\<forall>y \<in> set rs. \<not> p y" using Cons.prems by (auto simp: image_iff)
    then have "update_where p g rs = rs" by (rule update_where_none)
    then show ?thesis using True Cons.prems(3) [of x] by simp
  next
    case False
    then have "r \<in> set rs" using Cons.prems(2) by simp
    then have "k x \<noteq> k r" using Cons.prems(1) by force
    then have "\<not> p x" using Cons.prems(3) [of x] by simp
    then show ?thesis using Cons.IH Cons.prems \<open>r \<in> set rs\<close> by simp
  qed
qed simp

lemma filter_update_where:
  assumes "\<And>r. r \<in> set rs \<Longrightarrow> q (g r) = q r"
  shows "filter q (update_where p g rs) = update_where p g (filter q rs)"
  using assms by (induction rs) auto

section \<open>The books\<close>

definition or_zero :: "int option \<Rightarrow> int" where
  "or_zero v = (case v of None \<Rightarrow> 0 | Some n \<Rightarrow> n)"

lemma or_zero_simps [simp]: "or_zero None = 0" "or_zero (Some n) = n"
  by (simp_all add: or_zero_def)

text \<open>
  What an attempt holds of its account: its reservation until a cost is known, the cost from then on, and
  by how much the cost went beyond the reservation.
\<close>

definition exposure :: "attempt_row \<Rightarrow> int" where
  "exposure t = (if at_accounting t = Acc_Settled then 0 else or_zero (at_reserved t))"

definition charge :: "attempt_row \<Rightarrow> int" where
  "charge t = or_zero (at_settled t)"

definition overrun :: "attempt_row \<Rightarrow> int" where
  "overrun t = max 0 (charge t - or_zero (at_reserved t))"

definition total :: "(attempt_row \<Rightarrow> int) \<Rightarrow> uuid \<Rightarrow> attempt_row list \<Rightarrow> int" where
  "total f aid ts = sum_list (map f (filter (\<lambda>t. at_account t = aid) ts))"

definition attempt_ok :: "attempt_row \<Rightarrow> bool" where
  "attempt_ok t \<longleftrightarrow>
     at_reserved t \<noteq> None \<and> 0 \<le> or_zero (at_reserved t) \<and> 0 \<le> charge t
     \<and> (if at_state t = At_Reserved then at_accounting t = Acc_Reserved \<and> at_settled t = None
        else (at_accounting t = Acc_Settled \<and> at_settled t \<noteq> None) \<or> (at_accounting t = Acc_Unknown \<and> at_settled t = None))"

definition account_ok :: "attempt_row list \<Rightarrow> account_row \<Rightarrow> bool" where
  "account_ok ts a \<longleftrightarrow>
     0 \<le> ac_limit a \<and> ac_reserved a = total exposure (ac_id a) ts \<and> ac_settled a = total charge (ac_id a) ts
     \<and> ac_reserved a + ac_settled a \<le> ac_limit a + total overrun (ac_id a) ts"

definition placed :: "account_row list \<Rightarrow> attempt_row \<Rightarrow> bool" where
  "placed as t \<longleftrightarrow>
     (\<exists>a \<in> set as. ac_id a = at_account t \<and> ac_tenant a = at_tenant t \<and> ac_agent a = at_agent t)"

definition granted :: "grant_row list \<Rightarrow> attempt_row \<Rightarrow> bool" where
  "granted gs t \<longleftrightarrow>
     (\<exists>g \<in> set gs. gr_id g = at_grant t \<and> gr_tenant g = at_tenant t \<and> gr_agent g = at_agent t
        \<and> gr_run g = at_run t \<and> at_seq t \<le> gr_max_calls g)"

definition of_run :: "scope \<Rightarrow> uuid \<Rightarrow> attempt_row \<Rightarrow> bool" where
  "of_run sc rid t = (at_tenant t = fst sc \<and> at_agent t = snd sc \<and> at_run t = rid)"

definition numbered :: "attempt_row list \<Rightarrow> bool" where
  "numbered ts \<longleftrightarrow>
     (\<forall>sc rid. map at_seq (filter (of_run sc rid) ts) = [1..<Suc (length (filter (of_run sc rid) ts))])"

definition books_ok :: "grant_row list \<Rightarrow> account_row list \<Rightarrow> attempt_row list \<Rightarrow> bool" where
  "books_ok gs as ts \<longleftrightarrow>
     distinct (map gr_id gs) \<and> distinct (map ac_id as) \<and> distinct (map at_id ts)
     \<and> (\<forall>a \<in> set as. account_ok ts a) \<and> (\<forall>t \<in> set ts. attempt_ok t \<and> placed as t \<and> granted gs t)
     \<and> numbered ts"

definition ledger_ok :: "ledger \<Rightarrow> bool" where
  "ledger_ok l \<longleftrightarrow> books_ok (l_grants l) (l_accounts l) (l_attempts l)"

section \<open>The laws of a transaction\<close>

text \<open>Nothing of a grant changes but its revocation, which is set once.\<close>

definition grant_fixed :: "grant_row \<Rightarrow> grant_row" where
  "grant_fixed g = g\<lparr>gr_revoked := None, gr_revoke_reason := None\<rparr>"

definition grant_kept :: "grant_row \<Rightarrow> grant_row \<Rightarrow> bool" where
  "grant_kept g g' \<longleftrightarrow> grant_fixed g' = grant_fixed g \<and> (gr_revoked g \<noteq> None \<longrightarrow> g' = g)"

text \<open>Nothing of an account changes but its balance and its version, which grows.\<close>

definition account_fixed :: "account_row \<Rightarrow> account_row" where
  "account_fixed a = a\<lparr>ac_reserved := 0, ac_settled := 0, ac_version := 0\<rparr>"

definition account_kept :: "account_row \<Rightarrow> account_row \<Rightarrow> bool" where
  "account_kept a a' \<longleftrightarrow> account_fixed a' = account_fixed a \<and> ac_version a \<le> ac_version a'"

definition attempt_kept :: "attempt_row \<Rightarrow> attempt_row \<Rightarrow> bool" where
  "attempt_kept t t' \<longleftrightarrow>
     at_id t' = at_id t \<and> at_tenant t' = at_tenant t \<and> at_agent t' = at_agent t \<and> at_run t' = at_run t
     \<and> at_grant t' = at_grant t \<and> at_account t' = at_account t \<and> at_seq t' = at_seq t
     \<and> at_reserved t' = at_reserved t \<and> (at_state t \<noteq> At_Reserved \<longrightarrow> t' = t)"

definition rows_kept :: "('r \<Rightarrow> 'r \<Rightarrow> bool) \<Rightarrow> 'r list \<Rightarrow> 'r list \<Rightarrow> bool" where
  "rows_kept R rs rs' \<longleftrightarrow> (\<exists>ps ns. rs' = ps @ ns \<and> list_all2 R rs ps)"

definition ledger_kept :: "ledger \<Rightarrow> ledger \<Rightarrow> bool" where
  "ledger_kept l l' \<longleftrightarrow>
     rows_kept grant_kept (l_grants l) (l_grants l')
     \<and> rows_kept account_kept (l_accounts l) (l_accounts l')
     \<and> rows_kept attempt_kept (l_attempts l) (l_attempts l')
     \<and> rows_kept (=) (l_events l) (l_events l') \<and> rows_kept (=) (l_audits l) (l_audits l')"

lemma rows_kept_refl: "(\<And>r. R r r) \<Longrightarrow> rows_kept R rs rs"
  unfolding rows_kept_def by (intro exI [of _ rs] exI [of _ "[]"]) (simp add: list.rel_refl)

lemma rows_kept_snoc: "(\<And>r. R r r) \<Longrightarrow> rows_kept R rs (rs @ ns)"
  unfolding rows_kept_def by (intro exI [of _ rs] exI [of _ ns]) (simp add: list.rel_refl)

lemma rows_kept_update: "(\<And>r. r \<in> set rs \<Longrightarrow> R r (if p r then f r else r)) \<Longrightarrow> rows_kept R rs (update_where p f rs)"
  unfolding rows_kept_def
  by (intro exI [of _ "update_where p f rs"] exI [of _ "[]"])
    (simp add: update_where_def list_all2_conv_all_nth)

lemma rows_kept_trans:
  assumes "rows_kept R rs ss" and "rows_kept R ss ts" and "\<And>x y z. R x y \<Longrightarrow> R y z \<Longrightarrow> R x z"
  shows "rows_kept R rs ts"
proof -
  obtain ps ns where ss: "ss = ps @ ns" "list_all2 R rs ps" using assms(1) by (auto simp: rows_kept_def)
  obtain qs ms where ts: "ts = qs @ ms" "list_all2 R ss qs" using assms(2) by (auto simp: rows_kept_def)
  from ts(2) obtain q1 q2 where q: "qs = q1 @ q2" "list_all2 R ps q1" unfolding ss(1) by (auto simp: list_all2_append1)
  have "list_all2 R rs q1" by (rule list_all2_trans [OF _ ss(2) q(2)]) (rule assms(3))
  then show ?thesis unfolding rows_kept_def ts(1) q(1) by (intro exI [of _ q1] exI [of _ "q2 @ ms"]) simp
qed

lemma rows_keptD: "rows_kept R rs ss \<Longrightarrow> r \<in> set rs \<Longrightarrow> \<exists>s \<in> set ss. R r s"
proof -
  assume "rows_kept R rs ss" and "r \<in> set rs"
  then obtain ps ns i where "ss = ps @ ns" "list_all2 R rs ps" "i < length rs" "r = rs ! i"
    by (auto simp: rows_kept_def in_set_conv_nth)
  then have "R r (ps ! i)" "ps ! i \<in> set ss" by (auto dest: list_all2_nthD list_all2_lengthD)
  then show ?thesis by blast
qed

lemma kept_refl [simp]: "grant_kept g g" "account_kept a a" "attempt_kept t t"
  by (simp_all add: grant_kept_def account_kept_def attempt_kept_def)

lemma grant_kept_trans: "grant_kept a b \<Longrightarrow> grant_kept b c \<Longrightarrow> grant_kept a c"
  unfolding grant_kept_def by metis

lemma account_kept_trans: "account_kept a b \<Longrightarrow> account_kept b c \<Longrightarrow> account_kept a c"
  unfolding account_kept_def by (metis order_trans)

lemma attempt_kept_trans: "attempt_kept a b \<Longrightarrow> attempt_kept b c \<Longrightarrow> attempt_kept a c"
  unfolding attempt_kept_def by metis

lemma ledger_kept_refl [simp]: "ledger_kept l l"
  by (simp add: ledger_kept_def rows_kept_refl)

lemma ledger_kept_trans: "ledger_kept a b \<Longrightarrow> ledger_kept b c \<Longrightarrow> ledger_kept a c"
  unfolding ledger_kept_def
  by (elim conjE, intro conjI)
    (erule (1) rows_kept_trans, erule (1) grant_kept_trans account_kept_trans attempt_kept_trans trans)+

locale ledger_operation =
  fixes op :: "ledger \<Rightarrow> 'r ledger_result"
  assumes keeps_ok: "ledger_ok l \<Longrightarrow> op l = Inr (r, l') \<Longrightarrow> ledger_ok l'"
    and keeps_rows: "ledger_ok l \<Longrightarrow> op l = Inr (r, l') \<Longrightarrow> ledger_kept l l'"
    and leaves_others: "op l = Inr (r, l') \<Longrightarrow>
      l_turns l' = l_turns l \<and> l_controls l' = l_controls l \<and> l_runs l' = l_runs l"

section \<open>Each transaction keeps them\<close>

lemma ledger_ok_same:
  "l_grants l' = l_grants l \<Longrightarrow> l_accounts l' = l_accounts l \<Longrightarrow> l_attempts l' = l_attempts l \<Longrightarrow>
     ledger_ok l' = ledger_ok l"
  by (simp add: ledger_ok_def)

lemma recusa_result:
  "recusa sc i l r = Inr (x, l') \<Longrightarrow> x = Inl r \<and> ledger_kept l l' \<and> (\<exists>qs. l' = l\<lparr>l_audits := l_audits l @ qs\<rparr>)"
  by (auto simp: recusa_def ledger_kept_def rows_kept_refl rows_kept_snoc split: if_splits)
    (metis append_Nil2 ledger.surjective ledger.update_convs(8))

lemma granted_more: "granted gs t \<Longrightarrow> granted (gs @ hs) t"
  by (auto simp: granted_def)

lemma books_ok_issue:
  "books_ok gs as ts \<Longrightarrow> gr_id g \<notin> gr_id ` set gs \<Longrightarrow> books_ok (gs @ [g]) as ts"
  by (auto simp: books_ok_def intro: granted_more)

interpretation issue_grant: ledger_operation "issueGrant sha sc now gid token i"
proof
  fix l r l'
  assume ok: "ledger_ok l" and "issueGrant sha sc now gid token i l = Inr (r, l')"
  then show "ledger_ok l'"
    by (auto simp: issueGrant_def Let_def ledger_ok_def intro!: books_ok_issue split: option.splits if_splits)
next
  fix l r l'
  assume "ledger_ok l" and "issueGrant sha sc now gid token i l = Inr (r, l')"
  then show "ledger_kept l l'"
    by (auto simp: issueGrant_def Let_def ledger_kept_def rows_kept_refl rows_kept_snoc split: option.splits if_splits)
next
  fix l r l'
  assume "issueGrant sha sc now gid token i l = Inr (r, l')"
  then show "l_turns l' = l_turns l \<and> l_controls l' = l_controls l \<and> l_runs l' = l_runs l"
    by (auto simp: issueGrant_def Let_def split: option.splits if_splits)
qed

lemma grant_kept_fields:
  assumes "grant_kept g g'"
  shows "gr_id g' = gr_id g \<and> gr_tenant g' = gr_tenant g \<and> gr_agent g' = gr_agent g
     \<and> gr_run g' = gr_run g \<and> gr_max_calls g' = gr_max_calls g"
proof -
  have "gr_id g = gr_id (grant_fixed g)" "gr_tenant g = gr_tenant (grant_fixed g)"
    "gr_agent g = gr_agent (grant_fixed g)" "gr_run g = gr_run (grant_fixed g)"
    "gr_max_calls g = gr_max_calls (grant_fixed g)" for g
    by (simp_all add: grant_fixed_def)
  with assms show ?thesis unfolding grant_kept_def by metis
qed

lemma granted_kept: "rows_kept grant_kept gs hs \<Longrightarrow> granted gs t \<Longrightarrow> granted hs t"
  unfolding granted_def by (metis rows_keptD grant_kept_fields)

lemma books_ok_grants:
  "books_ok gs as ts \<Longrightarrow> rows_kept grant_kept gs hs \<Longrightarrow> map gr_id hs = map gr_id gs \<Longrightarrow> books_ok hs as ts"
  by (simp add: books_ok_def granted_kept)

interpretation revoke_grants: ledger_operation "revokeGrantsForRun sc now rid reason"
proof
  have kept: "rows_kept grant_kept gs (update_where (revocable sc rid) (revoked_grant now reason) gs)" for gs
  proof (rule rows_kept_update)
    fix g
    show "grant_kept g (if revocable sc rid g then revoked_grant now reason g else g)"
      by (simp add: grant_kept_def grant_fixed_def revoked_grant_def revocable_def)
  qed
  fix l r l'
  assume "revokeGrantsForRun sc now rid reason l = Inr (r, l')"
  then have l': "l' = l\<lparr>l_grants := update_where (revocable sc rid) (revoked_grant now reason) (l_grants l)\<rparr>"
    by (auto simp: revokeGrantsForRun_def Let_def split: if_splits)
  have ids: "map gr_id (update_where (revocable sc rid) (revoked_grant now reason) gs) = map gr_id gs" for gs
    by (rule map_update_where_same) (simp add: revoked_grant_def)
  show "ledger_ok l'" if "ledger_ok l"
    using books_ok_grants [OF _ kept ids] that unfolding l' ledger_ok_def by simp
  show "ledger_kept l l'" if "ledger_ok l"
    unfolding l' using kept by (simp add: ledger_kept_def rows_kept_refl)
  show "l_turns l' = l_turns l \<and> l_controls l' = l_controls l \<and> l_runs l' = l_runs l"
    unfolding l' using kept by (simp_all add: ledger_kept_def rows_kept_refl)
qed

lemma placed_more: "placed as t \<Longrightarrow> placed (as @ bs) t"
  by (auto simp: placed_def)

lemma total_no_attempt: "(\<And>t. t \<in> set ts \<Longrightarrow> at_account t \<noteq> aid) \<Longrightarrow> total f aid ts = 0"
  by (simp add: total_def filter_empty_conv [THEN iffD2])

lemma books_ok_open:
  assumes "books_ok gs as ts" and "ac_id a \<notin> ac_id ` set as"
    and "0 \<le> ac_limit a" and "ac_reserved a = 0" and "ac_settled a = 0"
  shows "books_ok gs (as @ [a]) ts"
proof -
  have "at_account t \<noteq> ac_id a" if "t \<in> set ts" for t
    using assms(1,2) that unfolding books_ok_def placed_def by (metis imageI)
  then have "total f (ac_id a) ts = 0" for f by (rule total_no_attempt)
  then have "account_ok ts a" using assms(3-5) by (simp add: account_ok_def)
  then show ?thesis using assms(1,2) by (auto simp: books_ok_def intro: placed_more)
qed

interpretation open_account: ledger_operation "openBudgetAccount sc aid period limit"
proof
  fix l r l'
  assume "openBudgetAccount sc aid period limit l = Inr (r, l')"
  then have l': "l' = l \<or> (\<exists>a. l' = l\<lparr>l_accounts := l_accounts l @ [a]\<rparr> \<and> ac_id a \<notin> ac_id ` set (l_accounts l)
      \<and> 0 \<le> ac_limit a \<and> ac_reserved a = 0 \<and> ac_settled a = 0)"
    by (auto simp: openBudgetAccount_def Let_def account_check_def split: if_splits option.splits)
  show "ledger_ok l'" if "ledger_ok l" using l' that by (auto simp: ledger_ok_def intro: books_ok_open)
  show "ledger_kept l l'" if "ledger_ok l"
    using l' by (auto simp: ledger_kept_def rows_kept_refl rows_kept_snoc)
  show "l_turns l' = l_turns l \<and> l_controls l' = l_controls l \<and> l_runs l' = l_runs l"
    using l' by auto
qed

subsection \<open>Admission\<close>

lemma attempt_ok_overrun: "attempt_ok t \<Longrightarrow> 0 \<le> overrun t"
  by (simp add: overrun_def)

lemma total_nonneg: "(\<And>t. t \<in> set ts \<Longrightarrow> 0 \<le> f t) \<Longrightarrow> 0 \<le> total f aid ts"
  unfolding total_def by (rule sum_list_nonneg) auto

lemma total_snoc: "total f aid (ts @ [t]) = total f aid ts + (if at_account t = aid then f t else 0)"
  by (simp add: total_def)

lemma numbered_snoc:
  assumes "numbered ts" and "at_seq t = Suc (length (filter (of_run (at_tenant t, at_agent t) (at_run t)) ts))"
  shows "numbered (ts @ [t])"
  unfolding numbered_def
proof (intro allI)
  fix sc rid
  let ?n = "length (filter (of_run sc rid) ts)"
  have old: "map at_seq (filter (of_run sc rid) ts) = [1..<Suc ?n]" using assms(1) unfolding numbered_def by blast
  show "map at_seq (filter (of_run sc rid) (ts @ [t])) = [1..<Suc (length (filter (of_run sc rid) (ts @ [t])))]"
  proof (cases "of_run sc rid t")
    case True
    then have "sc = (at_tenant t, at_agent t)" and "rid = at_run t" by (cases sc; simp add: of_run_def)+
    with assms(2) have "at_seq t = Suc ?n" by simp
    with True old have "map at_seq (filter (of_run sc rid) (ts @ [t])) = [1..<Suc ?n] @ [Suc ?n]" by simp
    also have "\<dots> = [1..<Suc (Suc ?n)]" by (rule upt_Suc_append [symmetric]) simp
    finally show ?thesis using True by simp
  next
    case False
    with old show ?thesis by simp
  qed
qed

text \<open>What a granted admission does: a reservation of \<open>e\<close> on the account of the day, and the attempt.\<close>

lemma admitAttempt_effect:
  assumes "admitAttempt sc now i l = Inr (Inr ok, l')"
  obtains grant run acc e where "grant_of sc (ai_grant i) l = Some grant"
    and "run_of sc (gr_run grant) l = Some run" and "admission_refused sc now i run grant l = None"
    and "account_of_day sc now l = Some acc"
    and "decideAdmission (Some (account_texts (ac_limit acc) (ac_reserved acc) (ac_settled acc) (ac_version acc)))
          \<lparr>ar_estimate = ai_estimate i, ar_calls = contarTentativas sc (rr_id run) l, ar_max_calls = gr_max_calls grant\<rparr>
        = Inr (Admit ADMISSION_GUARANTEE e)"
    and "reserve_on sc i run grant acc l = Inr (Inr ok, l')"
proof -
  have no: "recusa sc i l r \<noteq> Inr (Inr ok, l')" for r by (auto dest: recusa_result)
  from assms obtain grant run acc where *: "grant_of sc (ai_grant i) l = Some grant"
    "run_of sc (gr_run grant) l = Some run" "admission_refused sc now i run grant l = None"
    "account_of_day sc now l = Some acc" "reserve_on sc i run grant acc l = Inr (Inr ok, l')"
    using no by (auto simp: admitAttempt_def split: option.splits sum.splits admission_decision.splits)
  from *(5) obtain g e where "decideAdmission (Some (account_texts (ac_limit acc) (ac_reserved acc) (ac_settled acc) (ac_version acc)))
          \<lparr>ar_estimate = ai_estimate i, ar_calls = contarTentativas sc (rr_id run) l, ar_max_calls = gr_max_calls grant\<rparr>
        = Inr (Admit g e)"
    using no by (auto simp: reserve_on_def Let_def split: sum.splits admission_decision.splits)
  moreover have "g = ADMISSION_GUARANTEE" by (cases g) (simp add: ADMISSION_GUARANTEE_def)
  ultimately show ?thesis using * that by blast
qed

lemma run_of_id: "run_of sc rid l = Some r \<Longrightarrow> rr_id r = rid \<and> r \<in> set (l_runs l)"
  by (auto simp: run_of_def dest: find_SomeD)

lemma grant_of_fields:
  "grant_of sc gid l = Some g \<Longrightarrow> g \<in> set (l_grants l) \<and> gr_id g = gid \<and> gr_tenant g = fst sc \<and> gr_agent g = snd sc"
  by (auto simp: grant_of_def dest: find_SomeD)

lemma account_of_day_fields:
  "account_of_day sc now l = Some a \<Longrightarrow>
     a \<in> set (l_accounts l) \<and> ac_tenant a = fst sc \<and> ac_agent a = snd sc \<and> ac_period a = utc_day now"
  by (auto simp: account_of_day_def dest: find_SomeD)

definition reserved_account :: "int \<Rightarrow> account_row \<Rightarrow> account_row" where
  "reserved_account e a = a\<lparr>ac_reserved := ac_reserved a + e, ac_version := ac_version a + 1\<rparr>"

lemma reserve_on_effect:
  assumes ok: "ledger_ok l" and acc: "acc \<in> set (l_accounts l)" and sc: "ac_tenant acc = fst sc" "ac_agent acc = snd sc"
    and res: "reserve_on sc i run grant acc l = Inr (Inr ad, l')"
  obtains e where "0 \<le> e" and "ac_reserved acc + ac_settled acc + e \<le> ac_limit acc"
    and "contarTentativas sc (rr_id run) l < gr_max_calls grant" and "ai_estimate i \<noteq> None"
    and "ai_attempt i \<notin> at_id ` set (l_attempts l)"
    and "ad = \<lparr>ad_attempt = ai_attempt i, ad_seq = contarTentativas sc (rr_id run) l + 1, ad_reserved = int_text e\<rparr>"
    and "l' = l\<lparr>l_accounts := update_where (\<lambda>b. ac_id b = ac_id acc) (reserved_account e) (l_accounts l),
               l_attempts := l_attempts l @ [new_attempt sc i run grant acc (contarTentativas sc (rr_id run) l + 1) e]\<rparr>"
proof -
  let ?acct = "account_texts (ac_limit acc) (ac_reserved acc) (ac_settled acc) (ac_version acc)"
  let ?rq = "\<lparr>ar_estimate = ai_estimate i, ar_calls = contarTentativas sc (rr_id run) l, ar_max_calls = gr_max_calls grant\<rparr>"
  have no: "recusa sc i l r \<noteq> Inr (Inr ad, l')" for r by (auto dest: recusa_result)
  from ok acc have books: "account_ok (l_attempts l) acc" and att: "\<And>t. t \<in> set (l_attempts l) \<Longrightarrow> attempt_ok t"
    by (auto simp: ledger_ok_def books_ok_def)
  have nn: "0 \<le> ac_limit acc" "0 \<le> ac_reserved acc" "0 \<le> ac_settled acc"
    using books att total_nonneg [of "l_attempts l" exposure] total_nonneg [of "l_attempts l" charge]
    by (auto simp: account_ok_def attempt_ok_def exposure_def)
  from res no obtain g rs where d: "decideAdmission (Some ?acct) ?rq = Inr (Admit g rs)"
    by (auto simp: reserve_on_def Let_def split: sum.splits admission_decision.splits)
  from decideAdmission_admit [OF nn d] obtain e where e: "rs = int_text e" "0 \<le> e"
    "ac_reserved acc + ac_settled acc + e \<le> ac_limit acc" "contarTentativas sc (rr_id run) l < gr_max_calls grant"
    "ai_estimate i \<noteq> None" by auto
  have ap: "applyAdmission ?acct (Admit g rs) = Inr (account_texts (ac_limit acc) (ac_reserved acc + e) (ac_settled acc) (ac_version acc + 1))"
    unfolding e(1) by (rule applyAdmission_admit [OF nn(2) e(2)])
  have hit: "account_hit sc acc b \<longleftrightarrow> ac_id b = ac_id acc" if "b \<in> set (l_accounts l)" for b
  proof
    assume "ac_id b = ac_id acc"
    then have "b = acc" using ok acc that by (auto simp: ledger_ok_def books_ok_def dest: distinct_map_eqD)
    then show "account_hit sc acc b" by (simp add: account_hit_def sc)
  qed (simp add: account_hit_def)
  have upd: "update_where (account_hit sc acc) (\<lambda>b. b\<lparr>ac_reserved := ac_reserved acc + e, ac_version := Suc (ac_version acc)\<rparr>) (l_accounts l)
      = update_where (\<lambda>b. ac_id b = ac_id acc) (reserved_account e) (l_accounts l)"
    unfolding update_where_def
  proof (rule map_cong [OF refl])
    fix b
    assume b: "b \<in> set (l_accounts l)"
    show "(if account_hit sc acc b then b\<lparr>ac_reserved := ac_reserved acc + e, ac_version := Suc (ac_version acc)\<rparr> else b)
        = (if ac_id b = ac_id acc then reserved_account e b else b)"
      unfolding hit [OF b] using ok acc b
      by (auto simp: ledger_ok_def books_ok_def reserved_account_def dest: distinct_map_eqD)
  qed
  from res no d ap show ?thesis
    by (intro that [of e])
      (auto simp: reserve_on_def Let_def e(2-5) e(1) big_int_text account_texts_def upd split: if_splits)
qed

lemma placed_update:
  assumes "\<And>a. ac_id (f a) = ac_id a \<and> ac_tenant (f a) = ac_tenant a \<and> ac_agent (f a) = ac_agent a"
  shows "placed (update_where p f as) t = placed as t"
  using assms by (induction as) (auto simp: placed_def)

lemma ids_update: "(\<And>a. k (f a) = k a) \<Longrightarrow> map k (update_where p f rs) = map k rs"
  by (rule map_update_where_same)

lemma contar_of_run: "contarTentativas sc rid l = length (filter (of_run sc rid) (l_attempts l))"
  unfolding contarTentativas_def of_run_def ..

lemma books_ok_admit:
  assumes books: "books_ok gs as ts" and acc: "acc \<in> set as" "ac_id acc = at_account t" "ac_tenant acc = at_tenant t" "ac_agent acc = at_agent t"
    and new: "at_id t \<notin> at_id ` set ts" "attempt_ok t" "granted gs t" "exposure t = e" "charge t = 0" "0 \<le> e"
    and seq: "at_seq t = Suc (length (filter (of_run (at_tenant t, at_agent t) (at_run t)) ts))"
    and limit: "ac_reserved acc + ac_settled acc + e \<le> ac_limit acc"
  shows "books_ok gs (update_where (\<lambda>b. ac_id b = ac_id acc) (reserved_account e) as) (ts @ [t])"
proof -
  let ?as = "update_where (\<lambda>b. ac_id b = ac_id acc) (reserved_account e) as"
  have fields: "ac_id (reserved_account e a) = ac_id a \<and> ac_tenant (reserved_account e a) = ac_tenant a
      \<and> ac_agent (reserved_account e a) = ac_agent a \<and> ac_limit (reserved_account e a) = ac_limit a
      \<and> ac_settled (reserved_account e a) = ac_settled a \<and> ac_reserved (reserved_account e a) = ac_reserved a + e" for a
    by (simp add: reserved_account_def)
  have "0 \<le> total overrun aid ts" for aid
    using books by (intro total_nonneg attempt_ok_overrun) (auto simp: books_ok_def)
  moreover have "0 \<le> overrun t" using new(2) by (rule attempt_ok_overrun)
  ultimately have over: "0 \<le> total overrun aid (ts @ [t])" for aid by (simp add: total_snoc)
  have "account_ok (ts @ [t]) a" if "a \<in> set ?as" for a
    using that
  proof (cases rule: update_where_memE)
    case (hit q)
    then have "q = acc" using books acc(1) by (auto simp: books_ok_def dest: distinct_map_eqD)
    moreover have "account_ok ts acc" using books acc(1) by (simp add: books_ok_def)
    ultimately show ?thesis using hit limit over acc(2) new(4,5)
      by (simp add: account_ok_def fields total_snoc) (smt (verit) over total_snoc)
  next
    case miss
    then have "account_ok ts a" using books by (simp add: books_ok_def)
    with miss(2) acc(2) show ?thesis by (simp add: account_ok_def total_snoc)
  qed
  moreover have "placed ?as u" if "u \<in> set (ts @ [t])" for u
  proof -
    have "placed ?as u = placed as u" by (rule placed_update) (simp add: fields)
    moreover have "placed as t" using acc by (auto simp: placed_def)
    ultimately show ?thesis using that books by (auto simp: books_ok_def)
  qed
  moreover have "numbered (ts @ [t])" using books seq by (intro numbered_snoc) (auto simp: books_ok_def)
  moreover have "map ac_id ?as = map ac_id as" by (rule ids_update) (simp add: fields)
  ultimately show ?thesis using books new(1,2,3) by (auto simp: books_ok_def)
qed

lemma rows_kept_update_all:
  "(\<And>r. R r (f r)) \<Longrightarrow> (\<And>r. R r r) \<Longrightarrow> rows_kept R rs (update_where p f rs)"
  by (rule rows_kept_update) simp

interpretation admit_attempt: ledger_operation "admitAttempt sc now i"
proof
  fix l r l'
  assume res: "admitAttempt sc now i l = Inr (r, l')"
  have refused: "(\<exists>x. recusa sc i l x = Inr (r, l')) \<or> (\<exists>ok. r = Inr ok)"
    using res
    by (auto simp: admitAttempt_def reserve_on_def Let_def split: option.splits sum.splits admission_decision.splits if_splits)
      (metis surj_pair)+
  show "ledger_ok l'" if ok: "ledger_ok l"
  proof (cases r)
    case (Inl x)
    with refused obtain qs where "l' = l\<lparr>l_audits := l_audits l @ qs\<rparr>" by (auto dest: recusa_result)
    with ok show ?thesis by (simp add: ledger_ok_def)
  next
    case (Inr ad)
    from admitAttempt_effect [OF res [unfolded Inr]] obtain grant run acc
      where grant: "grant_of sc (ai_grant i) l = Some grant" and run: "run_of sc (gr_run grant) l = Some run"
        and day: "account_of_day sc now l = Some acc" and rsv: "reserve_on sc i run grant acc l = Inr (Inr ad, l')" .
    note a = account_of_day_fields [OF day] and g = grant_of_fields [OF grant] and rid = run_of_id [OF run]
    obtain e where e: "0 \<le> e" "ac_reserved acc + ac_settled acc + e \<le> ac_limit acc"
      "contarTentativas sc (rr_id run) l < gr_max_calls grant" "ai_attempt i \<notin> at_id ` set (l_attempts l)"
      and l': "l' = l\<lparr>l_accounts := update_where (\<lambda>b. ac_id b = ac_id acc) (reserved_account e) (l_accounts l),
               l_attempts := l_attempts l @ [new_attempt sc i run grant acc (contarTentativas sc (rr_id run) l + 1) e]\<rparr>"
      using reserve_on_effect [OF ok _ _ _ rsv] a by metis
    let ?t = "new_attempt sc i run grant acc (contarTentativas sc (rr_id run) l + 1) e"
    have "books_ok (l_grants l) (update_where (\<lambda>b. ac_id b = ac_id acc) (reserved_account e) (l_accounts l)) (l_attempts l @ [?t])"
    proof (rule books_ok_admit [of _ _ _ acc])
      show "books_ok (l_grants l) (l_accounts l) (l_attempts l)" using ok by (simp add: ledger_ok_def)
      show "granted (l_grants l) ?t" using g rid e(3) by (auto simp: granted_def new_attempt_def)
      show "attempt_ok ?t" "exposure ?t = e" "charge ?t = 0"
        using e(1) by (simp_all add: attempt_ok_def exposure_def charge_def new_attempt_def)
      show "at_seq ?t = Suc (length (filter (of_run (at_tenant ?t, at_agent ?t) (at_run ?t)) (l_attempts l)))"
        by (simp add: new_attempt_def contar_of_run)
    qed (use a e in \<open>simp_all add: new_attempt_def\<close>)
    then show ?thesis by (simp add: ledger_ok_def l')
  qed
  have kept: "ledger_kept l l' \<and> l_turns l' = l_turns l \<and> l_controls l' = l_controls l \<and> l_runs l' = l_runs l"
  proof -
    have upd: "rows_kept account_kept as (update_where (account_hit sc acc)
        (\<lambda>b. b\<lparr>ac_reserved := n, ac_version := Suc (ac_version acc)\<rparr>) as)" for as acc n
      by (rule rows_kept_update) (auto simp: account_kept_def account_fixed_def account_hit_def)
    show ?thesis
    proof (cases "\<exists>x. recusa sc i l x = Inr (r, l')")
      case True
      then show ?thesis by (auto dest: recusa_result)
    next
      case False
      then have no: "(recusa sc i l x = Inr (r, l')) = False" for x by blast
      from res show ?thesis
        by (auto simp: no admitAttempt_def reserve_on_def Let_def applyAdmission_def account_texts_def ledger_kept_def
            rows_kept_refl rows_kept_snoc upd split: option.splits sum.splits admission_decision.splits if_splits)
    qed
  qed
  then show "ledger_kept l l'" if "ledger_ok l" by blast
  from kept show "l_turns l' = l_turns l \<and> l_controls l' = l_controls l \<and> l_runs l' = l_runs l" by blast
qed

subsection \<open>Settlement\<close>

lemma total_update:
  assumes "distinct (map at_id ts)" and "t \<in> set ts" and "\<And>u. u \<in> set ts \<Longrightarrow> p u \<longleftrightarrow> at_id u = at_id t"
    and "\<And>u. at_account (g u) = at_account u"
  shows "total f aid (update_where p g ts) = total f aid ts + (if at_account t = aid then f (g t) - f t else 0)"
proof -
  let ?us = "filter (\<lambda>u. at_account u = aid) ts"
  have fl: "filter (\<lambda>u. at_account u = aid) (update_where p g ts) = update_where p g ?us"
    by (rule filter_update_where) (simp add: assms(4))
  show ?thesis
  proof (cases "at_account t = aid")
    case True
    have "sum_list (map f (update_where p g ?us)) = sum_list (map f ?us) - f t + f (g t)"
      by (rule sum_list_update_where [where k = at_id]) (use assms True in \<open>auto simp: distinct_map_filter\<close>)
    with True show ?thesis unfolding total_def fl by simp
  next
    case False
    have "\<not> p u" if "u \<in> set ?us" for u
      using that assms(1-3) False by (auto dest: distinct_map_eqD)
    then have "update_where p g ?us = ?us" by (simp add: update_where_none)
    with False show ?thesis unfolding total_def fl by simp
  qed
qed

text \<open>
  The books after an attempt is settled: the account gives back \<open>x\<close> of its reservation and takes \<open>y\<close>.
\<close>

lemma books_ok_settle:
  assumes books: "books_ok gs as ts" and t: "t \<in> set ts"
    and p: "\<And>u. u \<in> set ts \<Longrightarrow> p u \<longleftrightarrow> at_id u = at_id t"
    and kept: "\<And>u. at_id (g u) = at_id u \<and> at_tenant (g u) = at_tenant u \<and> at_agent (g u) = at_agent u \<and> at_run (g u) = at_run u
       \<and> at_grant (g u) = at_grant u \<and> at_account (g u) = at_account u \<and> at_seq (g u) = at_seq u"
    and new: "attempt_ok (g t)" and x: "exposure (g t) = exposure t - x" and y: "charge (g t) = charge t + y"
    and over: "overrun t + (y - x) \<le> overrun (g t)"
    and q: "\<And>a. a \<in> set as \<Longrightarrow> q a \<longleftrightarrow> ac_id a = at_account t"
    and h: "\<And>a. ac_id (h a) = ac_id a \<and> ac_tenant (h a) = ac_tenant a \<and> ac_agent (h a) = ac_agent a \<and> ac_limit (h a) = ac_limit a
       \<and> ac_reserved (h a) = ac_reserved a - x \<and> ac_settled (h a) = ac_settled a + y"
  shows "books_ok gs (update_where q h as) (update_where p g ts)"
proof -
  have dt: "distinct (map at_id ts)" using books by (simp add: books_ok_def)
  have tot: "total f aid (update_where p g ts) = total f aid ts + (if at_account t = aid then f (g t) - f t else 0)" for f aid
    by (rule total_update [OF dt t p]) (simp_all add: kept)
  have "account_ok (update_where p g ts) a" if "a \<in> set (update_where q h as)" for a
    using that
  proof (cases rule: update_where_memE)
    case (hit b)
    then have "account_ok ts b" and "ac_id b = at_account t" using books q by (auto simp: books_ok_def)
    with hit show ?thesis using x y over by (simp add: account_ok_def h tot)
  next
    case miss
    then have "account_ok ts a" and "ac_id a \<noteq> at_account t" using books q by (auto simp: books_ok_def)
    then show ?thesis by (simp add: account_ok_def tot)
  qed
  moreover have "attempt_ok u \<and> placed (update_where q h as) u \<and> granted gs u" if "u \<in> set (update_where p g ts)" for u
  proof -
    have pl: "placed (update_where q h as) u = placed as u" by (rule placed_update) (simp add: h)
    from that show ?thesis
    proof (cases rule: update_where_memE)
      case (hit v)
      then have "v = t" using dt t p by (auto dest: distinct_map_eqD)
      moreover have "placed as t" "granted gs t" using books t by (auto simp: books_ok_def)
      ultimately show ?thesis using hit new pl by (simp add: placed_def granted_def kept)
    next
      case miss
      then show ?thesis using books pl by (simp add: books_ok_def)
    qed
  qed
  moreover have "numbered (update_where p g ts)"
  proof -
    have "filter (of_run sc rid) (update_where p g ts) = update_where p g (filter (of_run sc rid) ts)" for sc rid
      by (rule filter_update_where) (simp add: of_run_def kept)
    moreover have "map at_seq (update_where p g us) = map at_seq us" for us by (rule ids_update) (simp add: kept)
    moreover have "length (update_where p g us) = length us" for us by (simp add: update_where_def)
    ultimately show ?thesis using books by (simp add: books_ok_def numbered_def del: upt_Suc)
  qed
  moreover have "map at_id (update_where p g ts) = map at_id ts" "map ac_id (update_where q h as) = map ac_id as"
    by (rule ids_update, simp add: kept h)+
  ultimately show ?thesis using books by (auto simp: books_ok_def)
qed

text \<open>What the account of an attempt gives back and takes.\<close>

fun released :: "settle_outcome \<Rightarrow> int \<Rightarrow> int" where
  "released (Not_Sent code) r = r"
| "released (Sent_Completed p c (Some cost) source) r = r"
| "released _ r = 0"

fun cost_of :: "settle_outcome \<Rightarrow> int" where
  "cost_of (Sent_Completed p c (Some cost) source) = cost"
| "cost_of _ = 0"

lemma settled_row_kept:
  "at_id (settled_row now out t) = at_id t \<and> at_tenant (settled_row now out t) = at_tenant t
     \<and> at_agent (settled_row now out t) = at_agent t \<and> at_run (settled_row now out t) = at_run t
     \<and> at_grant (settled_row now out t) = at_grant t \<and> at_account (settled_row now out t) = at_account t
     \<and> at_seq (settled_row now out t) = at_seq t \<and> at_reserved (settled_row now out t) = at_reserved t"
  by (induction now out t rule: settled_row.induct) simp_all

lemma settled_row_money:
  assumes "attempt_ok t" and "at_state t = At_Reserved" and "nonneg_null (at_settled (settled_row now out t))"
  shows "attempt_ok (settled_row now out t)
    \<and> exposure (settled_row now out t) = exposure t - released out (or_zero (at_reserved t))
    \<and> charge (settled_row now out t) = charge t + cost_of out
    \<and> overrun t + (cost_of out - released out (or_zero (at_reserved t))) \<le> overrun (settled_row now out t)"
  using assms
  by (induction now out t rule: settled_row.induct)
    (auto simp: attempt_ok_def exposure_def charge_def overrun_def nonneg_null_def)

text \<open>The two shapes of a settlement that writes.\<close>

lemma settleAttempt_writes:
  assumes "settleAttempt sc now aid out l = Inr (r, l')" and "l' \<noteq> l"
  obtains t l1 l2 es where "attempt_of sc aid l = Some t" and "at_state t = At_Reserved"
    and "write_attempt sc now out t l = Inr l1"
    and "released out (or_zero (at_reserved t)) = 0 \<and> cost_of out = 0 \<and> l2 = l1
         \<or> move_account sc (at_account t) (released out (or_zero (at_reserved t))) (cost_of out) l1 = Inr l2"
    and "l' = l2\<lparr>l_events := l_events l2 @ es\<rparr>"
proof -
  have ev: "\<exists>es. evento sc t d src k = k\<lparr>l_events := l_events k @ es\<rparr>" for t d src k
  proof (cases "\<exists>e \<in> set (l_events k). ev_tenant e = fst sc \<and> ev_agent e = snd sc \<and> ev_key e = settle_key (at_id t)")
    case True
    then have "evento sc t d src k = k" by (simp add: evento_def)
    then show ?thesis by (intro exI [of _ "[]"]) simp
  qed (simp add: evento_def, blast)
  have self: "\<exists>es. k = k\<lparr>l_events := l_events k @ es\<rparr>" for k :: ledger by (intro exI [of _ "[]"]) simp
  from assms obtain t l1 where t: "attempt_of sc aid l = Some t" "at_state t = At_Reserved"
    and l1: "write_attempt sc now out t l = Inr l1"
    by (auto simp: settleAttempt_def Let_def split: option.splits if_splits sum.splits)
  have r: "(case at_reserved t of None \<Rightarrow> 0 | Some r \<Rightarrow> r) = or_zero (at_reserved t)" by (simp add: or_zero_def)
  note res = assms(1) [unfolded settleAttempt_def t(1) option.case t(2) Let_def r l1 sum.case, simplified t(2), simplified]
  show ?thesis
  proof (cases out)
    case (Not_Sent code)
    with res obtain l2 where "move_account sc (at_account t) (or_zero (at_reserved t)) 0 l1 = Inr l2" "l' = l2"
      by (auto split: sum.splits)
    then show ?thesis using that [OF t l1, of l2] self [of l2] Not_Sent by auto
  next
    case (Failed_After_Send code)
    with res have "l' = evento sc t None Unavailable l1" by simp
    then show ?thesis using that [OF t l1, of l1] ev Failed_After_Send by (metis cost_of.simps(4) released.simps(4))
  next
    case (Sent_Completed p c cost src)
    show ?thesis
    proof (cases cost)
      case None
      with res Sent_Completed have "l' = evento sc t None Unavailable l1" by simp
      then show ?thesis using that [OF t l1, of l1] ev Sent_Completed None by (metis cost_of.simps(3) released.simps(3))
    next
      case (Some v)
      with res Sent_Completed obtain l2 where "move_account sc (at_account t) (or_zero (at_reserved t)) v l1 = Inr l2"
        "l' = evento sc t (Some v) src l2"
        by (auto split: sum.splits)
      then show ?thesis using that [OF t l1, of l2] ev [of t "Some v" src l2] Sent_Completed Some by auto
    qed
  qed
qed

lemma write_attempt_effect:
  "write_attempt sc now out t l = Inr l1 \<Longrightarrow>
     l1 = l\<lparr>l_attempts := update_where (is_attempt sc (at_id t)) (settled_row now out) (l_attempts l)\<rparr>
     \<and> nonneg_null (at_settled (settled_row now out t))"
  by (auto simp: write_attempt_def Let_def attempt_check_def split: if_splits)

lemma move_account_effect:
  "move_account sc aid x y l = Inr l1 \<Longrightarrow>
     l1 = l\<lparr>l_accounts := update_where (is_account sc aid) (moved_account x y) (l_accounts l)\<rparr>"
  by (auto simp: move_account_def Let_def split: if_splits)

lemma update_where_id: "update_where p (\<lambda>r. r) rs = rs"
  by (simp add: update_where_def)

lemma settleAttempt_effect:
  assumes "settleAttempt sc now aid out l = Inr (r, l')" and "l' \<noteq> l"
  obtains t h es where "attempt_of sc aid l = Some t" and "at_state t = At_Reserved"
    and "nonneg_null (at_settled (settled_row now out t))"
    and "l' = l\<lparr>l_attempts := update_where (is_attempt sc (at_id t)) (settled_row now out) (l_attempts l),
                l_accounts := update_where (is_account sc (at_account t)) h (l_accounts l),
                l_events := l_events l @ es\<rparr>"
    and "h = moved_account (released out (or_zero (at_reserved t))) (cost_of out)
         \<or> h = (\<lambda>a. a) \<and> released out (or_zero (at_reserved t)) = 0 \<and> cost_of out = 0"
proof -
  from settleAttempt_writes [OF assms] obtain t l1 l2 es where t: "attempt_of sc aid l = Some t" "at_state t = At_Reserved"
    and w: "write_attempt sc now out t l = Inr l1" and l': "l' = l2\<lparr>l_events := l_events l2 @ es\<rparr>"
    and m: "released out (or_zero (at_reserved t)) = 0 \<and> cost_of out = 0 \<and> l2 = l1
         \<or> move_account sc (at_account t) (released out (or_zero (at_reserved t))) (cost_of out) l1 = Inr l2" .
  note w' = write_attempt_effect [OF w]
  from m show ?thesis
  proof
    assume *: "released out (or_zero (at_reserved t)) = 0 \<and> cost_of out = 0 \<and> l2 = l1"
    then show ?thesis
      using that [where h = "\<lambda>a. a" and es = es, OF t conjunct2 [OF w']] w' by (simp add: l' update_where_id)
  next
    assume "move_account sc (at_account t) (released out (or_zero (at_reserved t))) (cost_of out) l1 = Inr l2"
    from move_account_effect [OF this] show ?thesis
      using that [where h = "moved_account (released out (or_zero (at_reserved t))) (cost_of out)" and es = es,
          OF t conjunct2 [OF w']] w'
      by (simp add: l')
  qed
qed

lemma attempt_of_fields:
  "attempt_of sc aid l = Some t \<Longrightarrow> t \<in> set (l_attempts l) \<and> at_id t = aid \<and> at_tenant t = fst sc \<and> at_agent t = snd sc"
  by (auto simp: attempt_of_def dest: find_SomeD)

interpretation settle_attempt: ledger_operation "settleAttempt sc now aid out"
proof
  fix l r l'
  assume res: "settleAttempt sc now aid out l = Inr (r, l')"
  show "ledger_ok l'" if ok: "ledger_ok l"
  proof (cases "l' = l")
    case False
    from settleAttempt_effect [OF res this] obtain t h es where t: "attempt_of sc aid l = Some t" "at_state t = At_Reserved"
      and nn: "nonneg_null (at_settled (settled_row now out t))"
      and l': "l' = l\<lparr>l_attempts := update_where (is_attempt sc (at_id t)) (settled_row now out) (l_attempts l),
                l_accounts := update_where (is_account sc (at_account t)) h (l_accounts l),
                l_events := l_events l @ es\<rparr>"
      and h: "h = moved_account (released out (or_zero (at_reserved t))) (cost_of out)
         \<or> h = (\<lambda>a. a) \<and> released out (or_zero (at_reserved t)) = 0 \<and> cost_of out = 0" .
    note f = attempt_of_fields [OF t(1)]
    have books: "books_ok (l_grants l) (l_accounts l) (l_attempts l)" using ok by (simp add: ledger_ok_def)
    then have att: "attempt_ok t" and pl: "placed (l_accounts l) t" using f by (auto simp: books_ok_def)
    note money = settled_row_money [OF att t(2) nn]
    have p: "is_attempt sc (at_id t) u \<longleftrightarrow> at_id u = at_id t" if "u \<in> set (l_attempts l)" for u
    proof
      assume "at_id u = at_id t"
      then have "u = t" using books f that by (auto simp: books_ok_def dest: distinct_map_eqD)
      then show "is_attempt sc (at_id t) u" using f by (simp add: is_attempt_def)
    qed (simp add: is_attempt_def)
    have q: "is_account sc (at_account t) a \<longleftrightarrow> ac_id a = at_account t" if "a \<in> set (l_accounts l)" for a
    proof
      assume "ac_id a = at_account t"
      with pl that books have "ac_tenant a = at_tenant t \<and> ac_agent a = at_agent t"
        by (auto simp: placed_def books_ok_def dest: distinct_map_eqD)
      with \<open>ac_id a = at_account t\<close> f show "is_account sc (at_account t) a" by (simp add: is_account_def)
    qed (simp add: is_account_def)
    have "books_ok (l_grants l) (update_where (is_account sc (at_account t)) h (l_accounts l))
        (update_where (is_attempt sc (at_id t)) (settled_row now out) (l_attempts l))"
      by (rule books_ok_settle [OF books conjunct1 [OF f] p _ _ _ _ _ q])
        (use money h in \<open>auto simp: settled_row_kept moved_account_def\<close>)
    then show ?thesis by (simp add: ledger_ok_def l')
  qed (use ok in simp)
  show "ledger_kept l l'" if ok: "ledger_ok l"
  proof (cases "l' = l")
    case False
    from settleAttempt_effect [OF res this] obtain t h es where t: "attempt_of sc aid l = Some t" "at_state t = At_Reserved"
      and l': "l' = l\<lparr>l_attempts := update_where (is_attempt sc (at_id t)) (settled_row now out) (l_attempts l),
                l_accounts := update_where (is_account sc (at_account t)) h (l_accounts l),
                l_events := l_events l @ es\<rparr>"
      and h: "h = moved_account (released out (or_zero (at_reserved t))) (cost_of out)
         \<or> h = (\<lambda>a. a) \<and> released out (or_zero (at_reserved t)) = 0 \<and> cost_of out = 0" .
    have "rows_kept account_kept as (update_where (is_account sc (at_account t)) h as)" for as
      by (rule rows_kept_update_all) (use h in \<open>auto simp: account_kept_def account_fixed_def moved_account_def\<close>)
    moreover have "rows_kept attempt_kept (l_attempts l)
        (update_where (is_attempt sc (at_id t)) (settled_row now out) (l_attempts l))"
    proof (rule rows_kept_update)
      fix u
      assume u: "u \<in> set (l_attempts l)"
      have "u = t" if "is_attempt sc (at_id t) u"
        using that u ok attempt_of_fields [OF t(1)]
        by (auto simp: ledger_ok_def books_ok_def is_attempt_def dest: distinct_map_eqD)
      then show "attempt_kept u (if is_attempt sc (at_id t) u then settled_row now out u else u)"
        using t(2) by (auto simp: attempt_kept_def settled_row_kept)
    qed
    ultimately show ?thesis by (simp add: l' ledger_kept_def rows_kept_refl rows_kept_snoc)
  qed simp
  show "l_turns l' = l_turns l \<and> l_controls l' = l_controls l \<and> l_runs l' = l_runs l"
  proof (cases "l' = l")
    case False
    from settleAttempt_effect [OF res this] obtain t h es where "attempt_of sc aid l = Some t" "at_state t = At_Reserved"
      and l': "l' = l\<lparr>l_attempts := update_where (is_attempt sc (at_id t)) (settled_row now out) (l_attempts l),
                l_accounts := update_where (is_account sc (at_account t)) h (l_accounts l),
                l_events := l_events l @ es\<rparr>"
      and "h = moved_account (released out (or_zero (at_reserved t))) (cost_of out)
         \<or> h = (\<lambda>a. a) \<and> released out (or_zero (at_reserved t)) = 0 \<and> cost_of out = 0" .
    show ?thesis unfolding l' by simp
  qed simp
qed

end
