(* ===== verification/Inference_System.thy ===== *)
theory Inference_System
  imports Inference_Session Turn_Samples
begin

text \<open>
  The inference ledger as a system: its transactions, in any order, for any scope, clock and argument,
  between arbitrary changes of what other components own (turns, control of the conversation, runs), and
  the properties of what it reaches.
\<close>

section \<open>Steps and runs\<close>

inductive ledger_step :: "(string \<Rightarrow> string) \<Rightarrow> ledger \<Rightarrow> ledger \<Rightarrow> bool" for sha where
  step_issue: "issueGrant sha sc now gid token i l = Inr (r, l') \<Longrightarrow> ledger_step sha l l'"
| step_revoke: "revokeGrantsForRun sc now rid reason l = Inr (n, l') \<Longrightarrow> ledger_step sha l l'"
| step_open: "openBudgetAccount sc aid period limit l = Inr (a, l') \<Longrightarrow> ledger_step sha l l'"
| step_admit: "admitAttempt sc now ai l = Inr (d, l') \<Longrightarrow> ledger_step sha l l'"
| step_settle: "settleAttempt sc now aid out l = Inr (s, l') \<Longrightarrow> ledger_step sha l l'"
| step_outside: "ledger_step sha l (l\<lparr>l_turns := ts, l_controls := cs, l_runs := rs\<rparr>)"

definition ledger_run :: "(string \<Rightarrow> string) \<Rightarrow> ledger \<Rightarrow> ledger \<Rightarrow> bool" where
  "ledger_run sha = (ledger_step sha)\<^sup>*\<^sup>*"

definition empty_ledger :: ledger where
  "empty_ledger = \<lparr>l_turns = [], l_controls = [], l_runs = [], l_grants = [], l_accounts = [],
     l_attempts = [], l_events = [], l_audits = []\<rparr>"

definition ledger_reachable :: "(string \<Rightarrow> string) \<Rightarrow> ledger \<Rightarrow> bool" where
  "ledger_reachable sha l = ledger_run sha empty_ledger l"

lemma step_keeps:
  assumes "ledger_step sha l l'" and "ledger_ok l"
  shows "ledger_ok l' \<and> ledger_kept l l'"
  using assms
proof (cases rule: ledger_step.cases)
  case step_issue
  with assms(2) show ?thesis using issue_grant.keeps_ok issue_grant.keeps_rows by blast
next
  case step_revoke
  with assms(2) show ?thesis using revoke_grants.keeps_ok revoke_grants.keeps_rows by blast
next
  case step_open
  with assms(2) show ?thesis using open_account.keeps_ok open_account.keeps_rows by blast
next
  case step_admit
  with assms(2) show ?thesis using admit_attempt.keeps_ok admit_attempt.keeps_rows by blast
next
  case step_settle
  with assms(2) show ?thesis using settle_attempt.keeps_ok settle_attempt.keeps_rows by blast
next
  case step_outside
  with assms(2) show ?thesis by (simp add: ledger_ok_def ledger_kept_def rows_kept_refl)
qed

lemma run_keeps:
  assumes "ledger_run sha l l'" and "ledger_ok l"
  shows "ledger_ok l' \<and> ledger_kept l l'"
  using assms(1) unfolding ledger_run_def
proof (induction rule: rtranclp_induct)
  case (step m n)
  then show ?case using step_keeps ledger_kept_trans by blast
qed (simp add: assms(2))

lemma empty_ok: "ledger_ok empty_ledger"
  by (simp add: ledger_ok_def books_ok_def empty_ledger_def numbered_def)

lemma reachable_ok: "ledger_reachable sha l \<Longrightarrow> ledger_ok l"
  unfolding ledger_reachable_def using run_keeps empty_ok by blast

lemma ledger_run_reachable: "ledger_reachable sha l \<Longrightarrow> ledger_run sha l l' \<Longrightarrow> ledger_reachable sha l'"
  unfolding ledger_reachable_def ledger_run_def by (rule rtranclp_trans)

section \<open>A sample session\<close>

text \<open>A run being executed under the lease of its turn, with a grant and an account of the day.\<close>

definition demo_hash :: string where
  "demo_hash = replicate 64 CHR ''a''"

definition demo_turns :: "turn list" where
  "demo_turns = [(demo_held 1 Running 1 7 1000)\<lparr>t_attempts := 1\<rparr>]"

definition demo_run_row :: run_row where
  "demo_run_row = \<lparr>rr_id = 5, rr_tenant = ''t'', rr_agent = ''a'', rr_turn = 1, rr_control = 3, rr_claim = 7,
     rr_attempt = 1, rr_phase = Run_Running, rr_epoch = 2, rr_manifest = demo_hash, rr_deadline = 900,
     rr_revoked = None\<rparr>"

definition demo_control_row :: conversation_control where
  "demo_control_row = \<lparr>c_id = 3, c_tenant = ''t'', c_agent = ''a'', c_stream = ''s'', c_mode = Bot, c_epoch = 2,
     c_owner = None, c_reason = None, c_paused_at = None, c_resumed_at = None, c_last_command = None,
     c_resume_after = None, c_updated = 0\<rparr>"

definition demo_ledger :: ledger where
  "demo_ledger = empty_ledger\<lparr>l_turns := demo_turns, l_controls := [demo_control_row], l_runs := [demo_run_row]\<rparr>"

definition demo_sha :: "string \<Rightarrow> string" where
  "demo_sha token = demo_hash"

definition demo_issue :: issue_input where
  "demo_issue = \<lparr>is_run = 5, is_audience = ''maia'', is_model = ''m1'', is_surface = [(''t1'', ''h1'')],
     is_max_calls = 2, is_max_tokens = 100, is_ttl_ms = 500\<rparr>"

definition demo_grant_row :: grant_row where
  "demo_grant_row = \<lparr>gr_id = 8, gr_tenant = ''t'', gr_agent = ''a'', gr_run = 5, gr_token_hash = demo_hash,
     gr_audience = ''maia'', gr_model = ''m1'', gr_epoch = 2, gr_manifest = demo_hash,
     gr_surface = [(''t1'', ''h1'')], gr_max_calls = 2, gr_max_tokens = 100, gr_expires = 600, gr_created = 100,
     gr_revoked = None, gr_revoke_reason = None\<rparr>"

definition demo_account_row :: account_row where
  "demo_account_row = \<lparr>ac_id = 9, ac_tenant = ''t'', ac_agent = ''a'', ac_period = 0, ac_limit = 50,
     ac_reserved = 0, ac_settled = 0, ac_version = 0\<rparr>"

definition demo_open_ledger :: ledger where
  "demo_open_ledger = demo_ledger\<lparr>l_grants := [demo_grant_row], l_accounts := [demo_account_row]\<rparr>"

definition demo_admit :: admit_input where
  "demo_admit = \<lparr>ai_grant = 8, ai_attempt = 20, ai_hash = demo_hash, ai_provider = ''p'', ai_audience = ''maia'',
     ai_model = ''m1'', ai_tools = [''t1''], ai_estimate = Some ''30'', ai_tariff = None\<rparr>"

definition demo_attempt_row :: attempt_row where
  "demo_attempt_row = new_attempt (''t'', ''a'') demo_admit demo_run_row demo_grant_row demo_account_row 1 30"

definition demo_admitted_ledger :: ledger where
  "demo_admitted_ledger = demo_open_ledger\<lparr>l_accounts := [demo_account_row\<lparr>ac_reserved := 30, ac_version := 1\<rparr>],
     l_attempts := [demo_attempt_row]\<rparr>"

named_theorems ledger_demo \<open>evaluation of the sample ledger\<close>

lemmas [ledger_demo] =
  demo_hash_def demo_turns_def demo_held_def demo_turn_def demo_run_row_def demo_control_row_def demo_ledger_def
  demo_sha_def demo_issue_def demo_grant_row_def demo_account_row_def demo_open_ledger_def demo_admit_def
  demo_attempt_row_def demo_admitted_ledger_def empty_ledger_def

lemma demo_issue_runs:
  "issueGrant demo_sha (''t'', ''a'') 100 8 ''k'' demo_issue demo_ledger
     = Inr (Inr \<lparr>gi_grant = 8, gi_token = ''k'', gi_expires = 600\<rparr>, demo_ledger\<lparr>l_grants := [demo_grant_row]\<rparr>)"
  by (simp add: ledger_demo issueGrant_def run_of_def grant_check_def hex_digest_def length_between_def
      scope_check_def int4_ok_def Let_def list_all_iff)

lemma demo_open_runs:
  "openBudgetAccount (''t'', ''a'') 9 0 50 (demo_ledger\<lparr>l_grants := [demo_grant_row]\<rparr>)
     = Inr ((9, True), demo_open_ledger)"
  by (simp add: ledger_demo openBudgetAccount_def account_check_def scope_check_def bigint_ok_def Let_def)

lemma demo_admit_runs:
  "admitAttempt (''t'', ''a'') 200 demo_admit demo_open_ledger
     = Inr (Inr \<lparr>ad_attempt = 20, ad_seq = 1, ad_reserved = ''30''\<rparr>, demo_admitted_ledger)"
  by code_simp

lemma demo_open_reachable: "ledger_reachable demo_sha demo_open_ledger"
proof -
  let ?l1 = "demo_ledger\<lparr>l_grants := [demo_grant_row]\<rparr>"
  have "ledger_step demo_sha empty_ledger demo_ledger" unfolding demo_ledger_def by (rule step_outside)
  moreover have "ledger_step demo_sha demo_ledger ?l1" by (rule step_issue [OF demo_issue_runs])
  moreover have "ledger_step demo_sha ?l1 demo_open_ledger" by (rule step_open [OF demo_open_runs])
  ultimately show ?thesis
    unfolding ledger_reachable_def ledger_run_def by (meson rtranclp.rtrancl_into_rtrancl rtranclp.rtrancl_refl)
qed

lemma demo_ledger_reachable: "ledger_reachable demo_sha demo_admitted_ledger"
proof (rule ledger_run_reachable [OF demo_open_reachable])
  have "ledger_step demo_sha demo_open_ledger demo_admitted_ledger" by (rule step_admit [OF demo_admit_runs])
  then show "ledger_run demo_sha demo_open_ledger demo_admitted_ledger" unfolding ledger_run_def by blast
qed

section \<open>The books\<close>

lemma reachable_account: "ledger_reachable sha l \<Longrightarrow> a \<in> set (l_accounts l) \<Longrightarrow> account_ok (l_attempts l) a"
  using reachable_ok by (auto simp: ledger_ok_def books_ok_def)

lemma reachable_attempt:
  "ledger_reachable sha l \<Longrightarrow> t \<in> set (l_attempts l) \<Longrightarrow> attempt_ok t \<and> placed (l_accounts l) t \<and> granted (l_grants l) t"
  using reachable_ok by (auto simp: ledger_ok_def books_ok_def)

text \<open>
  C20. The books balance: in every reachable ledger the reserved amount of a budget account is the sum of
  the reservations of its attempts whose cost is not known, and its settled amount the sum of the costs
  that are.
\<close>

theorem ledger_balanced:
  assumes "ledger_reachable sha l" and "a \<in> set (l_accounts l)"
  shows "ac_reserved a = (\<Sum>t \<leftarrow> filter (\<lambda>t. at_account t = ac_id a) (l_attempts l).
           if at_accounting t = Acc_Settled then 0 else or_zero (at_reserved t))
     \<and> ac_settled a = (\<Sum>t \<leftarrow> filter (\<lambda>t. at_account t = ac_id a) (l_attempts l). or_zero (at_settled t))"
  using reachable_account [OF assms] by (simp add: account_ok_def total_def exposure_def charge_def cong: map_cong)

theorem ledger_balanced_witness:
  "ac_reserved (demo_account_row\<lparr>ac_reserved := 30, ac_version := 1\<rparr>) = (\<Sum>t \<leftarrow> [demo_attempt_row]. 30)"
  using ledger_balanced [OF demo_ledger_reachable, of "demo_account_row\<lparr>ac_reserved := 30, ac_version := 1\<rparr>"]
  by (simp add: ledger_demo new_attempt_def)



text \<open>
  The attempts of a run are numbered 1 to n without gap or repetition, and none has a number above
  the cap of calls of the grant it was made with, which belongs to its run.
\<close>

lemma attempts_numbered:
  assumes "ledger_reachable sha l"
  shows "map at_seq (filter (\<lambda>t. at_tenant t = fst sc \<and> at_agent t = snd sc \<and> at_run t = rid) (l_attempts l))
           = [1..<Suc (contarTentativas sc rid l)]
     \<and> (\<forall>t \<in> set (l_attempts l). \<exists>g \<in> set (l_grants l). gr_id g = at_grant t \<and> gr_run g = at_run t
           \<and> at_seq t \<le> gr_max_calls g)"
proof -
  have "numbered (l_attempts l)" using reachable_ok [OF assms] by (simp add: ledger_ok_def books_ok_def)
  then have "map at_seq (filter (of_run sc rid) (l_attempts l)) = [1..<Suc (contarTentativas sc rid l)]"
    unfolding numbered_def contar_of_run by blast
  moreover have "\<forall>t \<in> set (l_attempts l). granted (l_grants l) t" using reachable_attempt [OF assms] by blast
  ultimately show ?thesis unfolding of_run_def granted_def by blast
qed

lemma attempts_numbered_witness: "map at_seq [demo_attempt_row] = [1]"
  using attempts_numbered [OF demo_ledger_reachable, of "(''t'', ''a'')" 5]
  by (simp add: ledger_demo new_attempt_def contarTentativas_def)

section \<open>Admission\<close>

lemma admission_authority:
  assumes "admission_refused sc now i run g l = None"
  shows "gr_revoked g = None \<and> rr_revoked run = None \<and> now \<le> gr_expires g \<and> now < rr_deadline run
     \<and> ai_audience i = gr_audience g \<and> ai_model i = gr_model g \<and> set (ai_tools i) \<subseteq> fst ` set (gr_surface g)
     \<and> rr_phase run = Run_Running \<and> rr_manifest run = gr_manifest g
     \<and> posseDoTurno sc now run l = Own_Ok \<and> controleOk (lockControlByRun sc (rr_id run) l) run g"
proof -
  let ?ctx = "\<lparr>ic_audience = ai_audience i, ic_now = Some now, ic_phase = rr_phase run,
    ic_calls = contarTentativas sc (rr_id run) l, ic_model = ai_model i, ic_manifest = rr_manifest run,
    ic_tools = ai_tools i\<rparr>"
  from assms have ok: "validateInferenceGrant (Some (grantV1 g run)) ?ctx = Grant_Ok"
    and rest: "posseDoTurno sc now run l = Own_Ok" "controleOk (lockControlByRun sc (rr_id run) l) run g"
      "now < rr_deadline run"
    by (auto simp: admission_refused_def split: grant_validation.splits turn_ownership.splits if_splits)
  from ok [unfolded validate_ok_iff] rest show ?thesis
    by (auto simp: authenticated_def grantV1_def split: option.splits)
qed



lemma run_keeps_revoked:
  assumes "ledger_reachable sha l" and "ledger_run sha l l'" and "g \<in> set (l_grants l)" and "gr_revoked g \<noteq> None"
  shows "g \<in> set (l_grants l')"
proof -
  have "rows_kept grant_kept (l_grants l) (l_grants l')"
    using run_keeps [OF assms(2) reachable_ok [OF assms(1)]] by (simp add: ledger_kept_def)
  from rows_keptD [OF this assms(3)] assms(4) show ?thesis by (auto simp: grant_kept_def)
qed

lemma admit_revoked:
  assumes "\<And>g. grant_of sc (ai_grant i) l = Some g \<Longrightarrow> gr_revoked g \<noteq> None"
  shows "\<exists>code reason. code \<in> {Err_Invalid_Grant, Err_Run_Revoked} \<and> admitAttempt sc now i l = Inr (Inl (code, reason), l)"
proof (cases "grant_of sc (ai_grant i) l")
  case (Some g)
  with assms obtain y where "gr_revoked g = Some y" by auto
  then have rev: "ig_revoked (grantV1 g run) \<noteq> None" for run by (simp add: grantV1_def)
  show ?thesis
  proof (cases "run_of sc (gr_run g) l")
    case (Some run)
    have "\<exists>code reason. code \<in> {Err_Invalid_Grant, Err_Run_Revoked}
        \<and> admission_refused sc now i run g l = Some (code, reason)"
      using rev [of run] by (auto simp: admission_refused_def validateInferenceGrant_def)
    with \<open>grant_of sc (ai_grant i) l = Some g\<close> Some show ?thesis
      by (auto simp: admitAttempt_def recusa_def recusaDeCota_def)
  qed (use Some in \<open>simp add: admitAttempt_def recusa_def recusaDeCota_def\<close>)
qed (simp add: admitAttempt_def recusa_def recusaDeCota_def)

text \<open>
  C24. A revoked grant is dead for good: whatever happens to the ledger after the revocation, an admission
  with the grant, at any time and from any scope, is refused as invalid or revoked and changes nothing.
\<close>

theorem revoked_grant_never_admits:
  assumes "ledger_reachable sha l" and "g \<in> set (l_grants l)" and "gr_revoked g \<noteq> None"
    and "ledger_run sha l l'" and "ai_grant i = gr_id g"
  shows "\<exists>code reason. code \<in> {Err_Invalid_Grant, Err_Run_Revoked}
     \<and> admitAttempt sc now i l' = Inr (Inl (code, reason), l')"
proof (rule admit_revoked)
  fix h
  assume "grant_of sc (ai_grant i) l' = Some h"
  then have "h \<in> set (l_grants l')" and "gr_id h = gr_id g" using assms(5) by (auto dest: grant_of_fields)
  moreover have "g \<in> set (l_grants l')" by (rule run_keeps_revoked [OF assms(1,4,2,3)])
  moreover have "distinct (map gr_id (l_grants l'))"
    using reachable_ok [OF ledger_run_reachable [OF assms(1,4)]] by (simp add: ledger_ok_def books_ok_def)
  ultimately have "h = g" by (auto dest: distinct_map_eqD)
  with assms(3) show "gr_revoked h \<noteq> None" by simp
qed

definition demo_revoked_ledger :: ledger where
  "demo_revoked_ledger = demo_open_ledger\<lparr>l_grants := [revoked_grant 150 ''stop'' demo_grant_row]\<rparr>"

lemma demo_revoke_runs:
  "revokeGrantsForRun (''t'', ''a'') 150 5 ''stop'' demo_open_ledger = Inr (1, demo_revoked_ledger)"
  by code_simp

theorem revoked_grant_never_admits_witness:
  "\<exists>code reason. code \<in> {Err_Invalid_Grant, Err_Run_Revoked}
     \<and> admitAttempt (''t'', ''a'') 200 demo_admit demo_revoked_ledger = Inr (Inl (code, reason), demo_revoked_ledger)"
proof (rule revoked_grant_never_admits)
  have "ledger_step demo_sha demo_open_ledger demo_revoked_ledger" by (rule step_revoke [OF demo_revoke_runs])
  then have "ledger_run demo_sha demo_open_ledger demo_revoked_ledger" unfolding ledger_run_def by blast
  then show "ledger_reachable demo_sha demo_revoked_ledger" by (rule ledger_run_reachable [OF demo_open_reachable])
  show "revoked_grant 150 ''stop'' demo_grant_row \<in> set (l_grants demo_revoked_ledger)"
    by (simp add: demo_revoked_ledger_def)
  show "gr_revoked (revoked_grant 150 ''stop'' demo_grant_row) \<noteq> None" by (simp add: revoked_grant_def)
  show "ledger_run demo_sha demo_revoked_ledger demo_revoked_ledger" by (simp add: ledger_run_def)
  show "ai_grant demo_admit = gr_id (revoked_grant 150 ''stop'' demo_grant_row)"
    by (simp add: demo_admit_def demo_grant_row_def revoked_grant_def)
qed

text \<open>
  A refused admission changes nothing but one row of audit, written exactly when a quota refused
  (budget or limit of calls); every other refusal leaves the ledger as it was.
\<close>

lemma refusal_audited:
  assumes "admitAttempt sc now i l = Inr (Inl (code, reason), l')"
  shows "l_audits l' = l_audits l @ (if code = Err_Budget_Exhausted \<or> code = Err_Limit_Exceeded
      then [\<lparr>qa_tenant = fst sc, qa_agent = snd sc, qa_grant = ai_grant i, qa_code = code, qa_reason = reason,
             qa_attempt = ai_attempt i, qa_model = ai_model i, qa_estimate = ai_estimate i\<rparr>] else [])
    \<and> l' = l\<lparr>l_audits := l_audits l'\<rparr>"
proof -
  from assms have "\<exists>x. recusa sc i l x = Inr (Inl (code, reason), l')"
    by (auto simp: admitAttempt_def reserve_on_def Let_def
        split: option.splits sum.splits admission_decision.splits if_splits) (metis surj_pair)+
  then obtain x where "recusa sc i l x = Inr (Inl (code, reason), l')" ..
  then show ?thesis by (cases x) (auto simp: recusa_def recusaDeCota_def split: if_splits)
qed

lemma refusal_audited_witness:
  "length (l_audits (demo_admitted_ledger\<lparr>l_audits := [\<lparr>qa_tenant = ''t'', qa_agent = ''a'', qa_grant = 8,
      qa_code = Err_Budget_Exhausted, qa_reason = ''admission_budget_exhausted'', qa_attempt = 21,
      qa_model = ''m1'', qa_estimate = Some ''30''\<rparr>]\<rparr>)) = 1"
proof -
  let ?i = "demo_admit\<lparr>ai_attempt := 21\<rparr>"
  let ?l = "demo_admitted_ledger\<lparr>l_audits := [\<lparr>qa_tenant = ''t'', qa_agent = ''a'', qa_grant = 8,
      qa_code = Err_Budget_Exhausted, qa_reason = ''admission_budget_exhausted'', qa_attempt = 21,
      qa_model = ''m1'', qa_estimate = Some ''30''\<rparr>]\<rparr>"
  have "admitAttempt (''t'', ''a'') 200 ?i demo_admitted_ledger
      = Inr (Inl (Err_Budget_Exhausted, ''admission_budget_exhausted''), ?l)"
    by code_simp
  from refusal_audited [OF this] show ?thesis by (simp add: ledger_demo)
qed

section \<open>Settlement\<close>

lemma settle_fresh:
  assumes "attempt_of sc aid l = Some t" and "at_state t = At_Reserved"
    and "settleAttempt sc now aid out l = Inr (s, l')"
  shows "s = Settled_As False (at_accounting (settled_row now out t))
     \<and> l_attempts l' = update_where (is_attempt sc (at_id t)) (settled_row now out) (l_attempts l)"
proof -
  have ev: "l_attempts (evento sc t d src k) = l_attempts k" for d src k by (simp add: evento_def)
  have mv: "move_account sc a x y k = Inr k' \<Longrightarrow> l_attempts k' = l_attempts k" for a x y k k'
    by (drule move_account_effect) simp
  from assms obtain l1 where l1: "write_attempt sc now out t l = Inr l1"
    by (auto simp: settleAttempt_def Let_def split: sum.splits)
  then have at: "l_attempts l1 = update_where (is_attempt sc (at_id t)) (settled_row now out) (l_attempts l)"
    by (auto dest: write_attempt_effect)
  note res = assms(3) [unfolded settleAttempt_def assms(1) option.case Let_def l1 sum.case, simplified assms(2), simplified]
  show ?thesis
  proof (cases out)
    case (Sent_Completed p c cost src)
    with res at show ?thesis by (cases cost) (auto simp: ev dest!: mv split: sum.splits)
  qed (use res at in \<open>auto simp: ev dest!: mv split: sum.splits\<close>)
qed

lemma attempt_of_unique:
  assumes "ledger_ok l" and "t \<in> set (l_attempts l)" and "at_tenant t = fst sc" and "at_agent t = snd sc"
  shows "attempt_of sc (at_id t) l = Some t"
proof -
  have "attempt_of sc (at_id t) l \<noteq> None" using assms by (auto simp: attempt_of_def find_None_iff)
  then obtain u where u: "attempt_of sc (at_id t) l = Some u" by auto
  then have "u = t"
    using assms attempt_of_fields [OF u] by (auto simp: ledger_ok_def books_ok_def dest: distinct_map_eqD)
  with u show ?thesis by simp
qed

lemma settled_row_closed: "at_state (settled_row now out t) \<noteq> At_Reserved"
  by (induction now out t rule: settled_row.induct) simp_all

lemma settle_closes:
  assumes ok: "ledger_ok l" and res: "settleAttempt sc now aid out l = Inr (Settled_As already acc, l')"
  obtains t where "attempt_of sc aid l' = Some t" and "at_state t \<noteq> At_Reserved" and "at_accounting t = acc"
proof (cases "attempt_of sc aid l")
  case (Some t)
  note f = attempt_of_fields [OF Some]
  show ?thesis
  proof (cases "at_state t = At_Reserved")
    case True
    let ?t = "settled_row now out t"
    note s = settle_fresh [OF Some True res]
    have "is_attempt sc (at_id t) t" using f by (simp add: is_attempt_def)
    with f s have "?t \<in> set (l_attempts l')" by (auto simp: update_where_def)
    moreover have "ledger_ok l'" by (rule settle_attempt.keeps_ok [OF ok res])
    ultimately have "attempt_of sc (at_id ?t) l' = Some ?t"
      using f by (intro attempt_of_unique) (simp_all add: settled_row_kept)
    with s f show ?thesis using that [of ?t] by (simp add: settled_row_kept settled_row_closed)
  next
    case False
    with res Some that show ?thesis by (auto simp: settleAttempt_def)
  qed
qed (use res in \<open>simp add: settleAttempt_def\<close>)

text \<open>
  C23. An attempt is settled once and for good: after a settlement has answered, every repetition of it,
  with any outcome, at any time and after any other transactions, finds it settled, answers the same
  accounting status and changes nothing.
\<close>

theorem settle_once:
  assumes "ledger_reachable sha l" and "settleAttempt sc now aid out l = Inr (Settled_As already acc, l')"
    and "ledger_run sha l' l''"
  shows "settleAttempt sc now' aid out' l'' = Inr (Settled_As True acc, l'')"
proof -
  note ok = reachable_ok [OF assms(1)]
  have ok': "ledger_ok l'" by (rule settle_attempt.keeps_ok [OF ok assms(2)])
  from settle_closes [OF ok assms(2)] obtain t
    where t: "attempt_of sc aid l' = Some t" "at_state t \<noteq> At_Reserved" "at_accounting t = acc" .
  note f = attempt_of_fields [OF t(1)] and later = run_keeps [OF assms(3) ok']
  have "rows_kept attempt_kept (l_attempts l') (l_attempts l'')" using later by (simp add: ledger_kept_def)
  from rows_keptD [OF this conjunct1 [OF f]] t(2) have "t \<in> set (l_attempts l'')" by (auto simp: attempt_kept_def)
  then have "attempt_of sc aid l'' = Some t" using attempt_of_unique [of l'' t sc] later f by simp
  with t show ?thesis by (simp add: settleAttempt_def)
qed

theorem settle_once_witness:
  "\<exists>l. settleAttempt (''t'', ''a'') 300 20 (Failed_After_Send ''x'') l = Inr (Settled_As True Acc_Settled, l)"
proof -
  have "case settleAttempt (''t'', ''a'') 250 20 (Not_Sent ''e'') demo_admitted_ledger of
      Inl _ \<Rightarrow> False | Inr (r, l') \<Rightarrow> r = Settled_As False Acc_Settled"
    by code_simp
  then obtain l' where *: "settleAttempt (''t'', ''a'') 250 20 (Not_Sent ''e'') demo_admitted_ledger
      = Inr (Settled_As False Acc_Settled, l')"
    by (auto split: sum.splits prod.splits)
  have "ledger_run demo_sha l' l'" by (simp add: ledger_run_def)
  from settle_once [OF demo_ledger_reachable * this] show ?thesis by blast
qed

end
