(* ===== verification/Control_Samples.thy ===== *)
theory Control_Samples
  imports Control_Session Inference_System
begin

text \<open>
  Concrete states of the control of conversations, on which the witnesses of its properties run: one
  conversation of the stream ''s'', held by nobody, paused by an operator, or held by one.
\<close>

definition demo_bot :: conversation_control where
  "demo_bot = \<lparr>c_id = 3, c_tenant = ''t'', c_agent = ''a'', c_stream = ''s'', c_mode = Bot, c_epoch = 0,
     c_owner = None, c_reason = None, c_paused_at = None, c_resumed_at = None, c_last_command = None,
     c_resume_after = None, c_updated = 0\<rparr>"

definition demo_human :: conversation_control where
  "demo_human = demo_bot\<lparr>c_mode := Human, c_epoch := 1, c_owner := Some ''u'', c_paused_at := Some 5\<rparr>"

definition demo_control_db :: "turn list \<Rightarrow> conversation_control list \<Rightarrow> control_db" where
  "demo_control_db ts cs = \<lparr>k_db = (demo_db ts)\<lparr>controls := cs\<rparr>, k_commands = [], k_runs = [], k_calls = [],
     k_outbound = [], k_audits = []\<rparr>"

definition demo_pause :: pause_input where
  "demo_pause = \<lparr>pi_control = 3, pi_epoch = ''0'', pi_key = 50, pi_user = ''u'', pi_reason = Operator_Takeover,
     pi_payload = JUndefined\<rparr>"

definition demo_resume :: resume_input where
  "demo_resume = \<lparr>re_control = 3, re_epoch = ''1'', re_key = 51, re_user = ''u'', re_reason = Human_Resolved,
     re_payload = JUndefined\<rparr>"

definition demo_paused_db :: control_db where
  "demo_paused_db = (demo_control_db [] [paused 7 60 demo_pause demo_bot])
     \<lparr>k_commands := [pause_command (''t'', ''a'') 7 60 demo_hash demo_pause demo_bot],
      k_audits := [((''t'', ''a''), Audit_Pause_Requested 60 3 ''0'' 1 Operator_Takeover ''u'')]\<rparr>"

definition demo_pause_ok :: pause_ok where
  "demo_pause_ok = \<lparr>po_idempotent = False, po_command = 60, po_control = 3, po_mode = Pausing, po_epoch = 1,
     po_barrier = True, po_drain = Some Drain_Pending, po_inflight = 0, po_unknown = 0, po_updated = 7\<rparr>"

lemma demo_digest:
  "conversationControlCommandDigest demo_sha [] (pause_identity demo_pause) = Inr demo_hash"
  "conversationControlCommandDigest demo_sha [] (resume_identity demo_resume) = Inr demo_hash"
  by code_simp+

lemma demo_paused:
  "pauseInTx demo_sha [] (''t'', ''a'') 7 60 demo_pause (demo_control_db [] [demo_bot]) (demo_control_db [] [demo_bot])
     = Inr (Inr demo_pause_ok, demo_paused_db)"
  by code_simp

end
