(* ===== verification/Control_System.thy ===== *)
theory Control_System
  imports Control_Samples
begin

text \<open>
  The control of conversations as a system: its operations in any order and with any arguments, between
  arbitrary changes of what other components own, the creation of a control included; and the properties
  of what it reaches, with the turn store and the inference ledger it fences.
\<close>

section \<open>Steps and runs\<close>

inductive control_step :: "(string \<Rightarrow> string) \<Rightarrow> control_db \<Rightarrow> control_db \<Rightarrow> bool" for sha where
  step_pause: "pauseInTx sha h sc now cmd i k0 k = Inr (r, k') \<Longrightarrow> control_step sha k k'"
| step_reconcile: "reconcileInTx sc now cid expected user k = Inr (q, k') \<Longrightarrow> control_step sha k k'"
| step_resume: "resumeInTx sha h cfg bid sc now cmd re k0 k = Inr (s, k') \<Longrightarrow> control_step sha k k'"
| step_create: "c_id c \<notin> c_id ` set (controls (k_db k)) \<Longrightarrow> c_mode c = Bot \<Longrightarrow> c_epoch c = 0 \<Longrightarrow>
    control_step sha k (set_controls (controls (k_db k) @ [c]) k)"
| step_elsewhere: "controls d = controls (k_db k) \<Longrightarrow>
    control_step sha k (k\<lparr>k_db := d, k_runs := rs, k_calls := cs, k_outbound := os\<rparr>)"

definition control_run :: "(string \<Rightarrow> string) \<Rightarrow> control_db \<Rightarrow> control_db \<Rightarrow> bool" where
  "control_run sha = (control_step sha)\<^sup>*\<^sup>*"

definition empty_control_db :: control_db where
  "empty_control_db = \<lparr>k_db = demo_db [], k_commands = [], k_runs = [], k_calls = [], k_outbound = [], k_audits = []\<rparr>"

definition control_reachable :: "(string \<Rightarrow> string) \<Rightarrow> control_db \<Rightarrow> bool" where
  "control_reachable sha k = control_run sha empty_control_db k"

lemma control_created:
  assumes ok: "control_ok k" and c: "c_id c \<notin> c_id ` set (controls (k_db k))" "c_mode c = Bot" "c_epoch c = 0"
  shows "control_ok (set_controls (controls (k_db k) @ [c]) k)"
proof -
  have "\<not> command_of c d" if "d \<in> set (k_commands k)" for d
  proof -
    from that ok obtain b where "b \<in> set (controls (k_db k))" "command_of b d"
      by (auto simp: control_ok_def known_control_def)
    then have "c_id b \<noteq> c_id c" using c(1) by (metis imageI)
    with \<open>command_of b d\<close> show ?thesis by (simp add: command_of_def)
  qed
  then have "log_ok (k_commands k) c" using c by (simp add: log_ok_def filter_empty_conv)
  with ok c show ?thesis
    by (auto simp: control_ok_def set_controls_def known_control_def control_check_def)
qed

lemma control_step_keeps:
  assumes "control_step sha k k'" and "control_ok k"
  shows "control_ok k' \<and> control_db_kept k k'"
  using assms
proof (cases rule: control_step.cases)
  case step_pause
  then show ?thesis using pause.keeps_ok [OF assms(2)] pause.keeps_rows [OF assms(2)] by simp
next
  case step_reconcile
  then show ?thesis using reconcile.keeps_ok [OF assms(2)] reconcile.keeps_rows [OF assms(2)] by simp
next
  case step_resume
  then show ?thesis using resume.keeps_ok [OF assms(2)] resume.keeps_rows [OF assms(2)] by simp
next
  case (step_create c)
  with assms(2) show ?thesis
    using control_created [OF assms(2)]
    by (auto simp: control_db_kept_def set_controls_def controls_kept_def intro: control_kept_refl)
next
  case step_elsewhere
  with assms(2) show ?thesis by (simp add: control_ok_def control_db_kept_def)
qed

lemma control_run_keeps:
  assumes "control_run sha k k'" and "control_ok k"
  shows "control_ok k' \<and> control_db_kept k k'"
  using assms(1) unfolding control_run_def
proof (induction rule: rtranclp_induct)
  case (step m n)
  then show ?case using control_step_keeps control_db_kept_trans by blast
qed (simp add: assms(2))

lemma control_reachable_ok: "control_reachable sha k \<Longrightarrow> control_ok k"
proof -
  have "control_ok empty_control_db" by (simp add: control_ok_def empty_control_db_def demo_db_def)
  then show "control_reachable sha k \<Longrightarrow> control_ok k"
    unfolding control_reachable_def using control_run_keeps by blast
qed

lemma control_run_reachable: "control_reachable sha k \<Longrightarrow> control_run sha k k' \<Longrightarrow> control_reachable sha k'"
  unfolding control_reachable_def control_run_def by (rule rtranclp_trans)

section \<open>The epoch\<close>

text \<open>
  C14. The epoch of a control counts the commands accepted on it: the n-th took it from epoch n to n + 1,
  pauses and resumes alternate from a pause on, and the bot has the conversation exactly when the count is
  even. So no epoch is ever spent twice, and none returns.
\<close>

theorem epoch_counts_commands:
  assumes "control_reachable sha k" and "c \<in> set (controls (k_db k))"
  shows "map (\<lambda>d. (cc_expected d, cc_result d, cc_kind d))
       (filter (\<lambda>d. cc_tenant d = c_tenant c \<and> cc_agent d = c_agent c \<and> cc_control d = c_id c) (k_commands k))
     = map (\<lambda>n. (n, Some (n + 1), if even n then Pause_Command else Resume_Command)) [0..<c_epoch c]
     \<and> (c_mode c = Bot \<longleftrightarrow> even (c_epoch c))"
  using control_reachable_ok [OF assms(1)] assms(2)
  by (simp add: control_ok_def log_ok_def command_of_def expected_kind_def cong: filter_cong)

lemma demo_bot_reachable: "control_reachable sha (demo_control_db [] [demo_bot])"
proof -
  have "control_step sha empty_control_db (set_controls (controls (k_db empty_control_db) @ [demo_bot]) empty_control_db)"
    by (rule step_create) (simp_all add: empty_control_db_def demo_db_def demo_bot_def)
  then show ?thesis
    by (simp add: control_reachable_def control_run_def empty_control_db_def demo_control_db_def set_controls_def demo_db_def
        r_into_rtranclp)
qed

lemma demo_paused_run: "control_run demo_sha (demo_control_db [] [demo_bot]) demo_paused_db"
  unfolding control_run_def by (rule r_into_rtranclp, rule step_pause, rule demo_paused)

lemma demo_paused_reachable: "control_reachable demo_sha demo_paused_db"
  by (rule control_run_reachable [OF demo_bot_reachable demo_paused_run])

theorem epoch_counts_commands_witness:
  "map (\<lambda>d. (cc_expected d, cc_result d, cc_kind d)) (k_commands demo_paused_db) = [(0, Some 1, Pause_Command)]"
proof -
  let ?c = "paused 7 60 demo_pause demo_bot"
  have "?c \<in> set (controls (k_db demo_paused_db))" by (simp add: demo_paused_db_def demo_control_db_def)
  from epoch_counts_commands [OF demo_paused_reachable this] show ?thesis
    by (simp add: demo_paused_db_def demo_control_db_def paused_def demo_bot_def pause_command_def demo_pause_def)
qed

section \<open>Replay\<close>

lemma lerComando_unique:
  assumes "control_ok k" and "d \<in> set (k_commands k)"
  shows "lerComandoPorChave (cc_tenant d, cc_agent d) (cc_key d) k = Some d"
proof -
  have "lerComandoPorChave (cc_tenant d, cc_agent d) (cc_key d) k \<noteq> None"
    using assms(2) by (auto simp: lerComandoPorChave_def find_None_iff)
  then obtain e where e: "lerComandoPorChave (cc_tenant d, cc_agent d) (cc_key d) k = Some e" by auto
  then have "e \<in> set (k_commands k)" "command_key e = command_key d"
    by (auto simp: lerComandoPorChave_def command_key_def dest: find_SomeD)
  with assms have "e = d" by (auto simp: control_ok_def dest: distinct_map_eqD)
  with e show ?thesis by simp
qed

lemma lerComandoD:
  "lerComandoPorChave sc key k = Some d \<Longrightarrow> d \<in> set (k_commands k) \<and> cc_tenant d = fst sc \<and> cc_agent d = snd sc \<and> cc_key d = key"
  by (auto simp: lerComandoPorChave_def dest: find_SomeD)

lemma command_found_later:
  assumes "control_reachable sha k" and "lerComandoPorChave sc key k = Some d" and "control_run sha k k'"
  shows "lerComandoPorChave sc key k' = Some d"
proof -
  note d = lerComandoD [OF assms(2)] and later = control_run_keeps [OF assms(3) control_reachable_ok [OF assms(1)]]
  have "d \<in> set (k_commands k')" using d later by (auto simp: control_db_kept_def)
  from lerComando_unique [OF conjunct1 [OF later] this] d show ?thesis by simp
qed

text \<open>
  C17. The race of two deliveries is invisible: a pause or a resume of an existing control whose first
  reading of its key was made at any earlier moment, before it waited for the lock, answers and does
  exactly what it would have had it read everything under the lock.
\<close>

theorem race_invisible:
  assumes "control_reachable sha k0" and "control_run sha k0 k"
    and "lockControlById sc (pi_control i) k \<noteq> None" and "lockControlById sc (re_control j) k \<noteq> None"
  shows "pauseInTx sha h sc now cmd i k0 k = pauseInTx sha h sc now cmd i k k
     \<and> resumeInTx sha h cfg bid sc now cmd j k0 k = resumeInTx sha h cfg bid sc now cmd j k k"
proof -
  have "lerComandoPorChave sc key k = Some d" if "lerComandoPorChave sc key k0 = Some d" for key d
    by (rule command_found_later [OF assms(1) that assms(2)])
  with assms(3,4) show ?thesis by (auto simp: pauseInTx_def resumeInTx_def split: sum.split option.split)
qed

lemma control_run_refl: "control_run sha k k"
  by (simp add: control_run_def)

theorem race_invisible_witness:
  "pauseInTx demo_sha [] (''t'', ''a'') 9 61 demo_pause (demo_control_db [] [demo_bot]) demo_paused_db
     = pauseInTx demo_sha [] (''t'', ''a'') 9 61 demo_pause demo_paused_db demo_paused_db"
proof -
  have "lockControlById (''t'', ''a'') (pi_control demo_pause) demo_paused_db \<noteq> None"
    "lockControlById (''t'', ''a'') (re_control demo_resume) demo_paused_db \<noteq> None"
    by code_simp+
  from race_invisible [OF demo_bot_reachable demo_paused_run this] show ?thesis by blast
qed

lemma pause_fresh:
  assumes "pauseInTx sha h sc now cmd i k0 k = Inr (Inr ok, k')" and "po_idempotent ok = False"
  obtains c hash where "conversationControlCommandDigest sha h (pause_identity i) = Inr hash"
    and "lockControlById sc (pi_control i) k = Some c" and "pause_transition sc now cmd hash i c k = Inr (Inr ok, k')"
proof -
  from assms(1) obtain hash where hash: "conversationControlCommandDigest sha h (pause_identity i) = Inr hash"
    by (auto simp: pauseInTx_def split: sum.splits)
  have "\<exists>c. lockControlById sc (pi_control i) k = Some c \<and> pause_transition sc now cmd hash i c k = Inr (Inr ok, k')"
    using assms hash
    by (auto simp: pauseInTx_def responderPausaGravada_def split: option.splits prod.splits)
  with hash that show ?thesis by blast
qed

text \<open>
  C16. A pause is accepted once: every later delivery of the same command, whenever it first looked and
  whatever happened in between, gets the same command and epoch back, marked as a replay, and changes nothing.
\<close>

theorem pause_accepted_once:
  assumes "control_reachable sha k" and "pauseInTx sha h sc now cmd i k0 k = Inr (Inr ok, k')"
    and "po_idempotent ok = False" and "control_run sha k' k''" and "control_run sha k1 k''" and "control_reachable sha k1"
  shows "\<exists>ok'. pauseInTx sha h sc now' cmd' i k1 k'' = Inr (Inr ok', k'') \<and> po_idempotent ok'
     \<and> po_command ok' = po_command ok \<and> po_epoch ok' = po_epoch ok \<and> po_control ok' = po_control ok"
proof -
  note kok = control_reachable_ok [OF assms(1)]
  note kok' = pause.keeps_ok [OF kok assms(2)]
  from pause_fresh [OF assms(2,3)] obtain c hash where hash: "conversationControlCommandDigest sha h (pause_identity i) = Inr hash"
    and c: "pause_transition sc now cmd hash i c k = Inr (Inr ok, k')" .
  let ?d = "pause_command sc now cmd hash i c"
  have d: "?d \<in> set (k_commands k')" and ok: "po_command ok = cmd" "po_epoch ok = Suc (c_epoch c)" "po_control ok = pi_control i"
    by (rule pause_transition_effect [OF c]; simp)+
  have "control_ok k''" and "?d \<in> set (k_commands k'')"
    using control_run_keeps [OF assms(4) kok'] d by (auto simp: control_db_kept_def)
  from lerComando_unique [OF this] have found: "lerComandoPorChave sc (pi_key i) k'' = Some ?d"
    by (simp add: pause_command_def)
  have same: "lerComandoPorChave sc (pi_key i) k1 = Some e \<Longrightarrow> e = ?d" for e
    using command_found_later [OF assms(6) _ assms(5), of sc "pi_key i" e] found by simp
  have "known_control (controls (k_db k'')) ?d" using \<open>control_ok k''\<close> \<open>?d \<in> set (k_commands k'')\<close> by (auto simp: control_ok_def)
  then have lock: "lockControlById sc (pi_control i) k'' \<noteq> None"
    by (auto simp: known_control_def command_of_def pause_command_def lockControlById_def is_control_def find_None_iff)
  have replay: "responderPausaGravada sc ?d hash (pi_control i) k''
      = (Inr \<lparr>po_idempotent = True, po_command = cmd, po_control = pi_control i, po_mode = Pausing, po_epoch = Suc (c_epoch c),
          po_barrier = True, po_drain = Some Drain_Pending, po_inflight = 0, po_unknown = 0, po_updated = now\<rparr>, k'')"
    by (simp add: responderPausaGravada_def recusaDoComandoGravado_def pause_command_def)
  have "pauseInTx sha h sc now' cmd' i k1 k'' = Inr (responderPausaGravada sc ?d hash (pi_control i) k'')"
    using found same lock by (auto simp: pauseInTx_def hash split: option.split)
  then show ?thesis unfolding replay by (simp add: ok)
qed

theorem pause_accepted_once_witness:
  "\<exists>ok. pauseInTx demo_sha [] (''t'', ''a'') 9 61 demo_pause (demo_control_db [] [demo_bot]) demo_paused_db
      = Inr (Inr ok, demo_paused_db) \<and> po_idempotent ok \<and> po_command ok = 60"
proof -
  have "po_idempotent demo_pause_ok = False" by (simp add: demo_pause_ok_def)
  from pause_accepted_once [OF demo_bot_reachable demo_paused this control_run_refl demo_paused_run demo_bot_reachable]
  show ?thesis by (auto simp: demo_pause_ok_def)
qed

section \<open>The fence\<close>

lemma control_later:
  assumes "control_ok k" and "c \<in> set (controls (k_db k))" and "control_run sha k k'"
  shows "\<exists>c' \<in> set (controls (k_db k')). control_kept c c'"
  using control_run_keeps [OF assms(3,1)] assms(2) by (auto simp: control_db_kept_def controls_kept_def)

text \<open>
  C15. A takeover fences the inference: once a pause of a conversation was accepted, no grant that was issued
  under an earlier epoch admits another call of a run of that conversation, not even after it was resumed.
\<close>

theorem takeover_fences_inference:
  assumes "control_reachable sha k" and "pauseInTx sha h sc now cmd i k0 k = Inr (Inr ok, k')"
    and "control_run sha k' k''" and "l_controls l = controls (k_db k'')"
    and "g \<in> set (l_grants l)" and "distinct (map gr_id (l_grants l))" and "gr_epoch g < po_epoch ok"
    and "\<forall>r \<in> set (l_runs l). rr_id r = gr_run g \<longrightarrow> rr_control r = po_control ok"
    and "ai_grant a = gr_id g" and "po_idempotent ok = False"
  shows "admitAttempt sc t a l \<noteq> Inr (Inr ad, l')"
proof
  assume res: "admitAttempt sc t a l = Inr (Inr ad, l')"
  from admitAttempt_effect [OF res] obtain g' run where g': "grant_of sc (ai_grant a) l = Some g'"
    and run: "run_of sc (gr_run g') l = Some run" and ok': "admission_refused sc t a run g' l = None" .
  have "g' = g" using grant_of_fields [OF g'] assms(5,6,9) by (auto dest: distinct_map_eqD)
  note run' = run_of_id [OF run]
  have "controleOk (lockControlByRun sc (rr_id run) l) run g" using admission_authority [OF ok'] \<open>g' = g\<close> by simp
  then obtain b where "lockControlByRun sc (rr_id run) l = Some b" and epoch: "c_epoch b = gr_epoch g"
    by (auto simp: controleOk_def split: option.splits)
  then have b: "b \<in> set (controls (k_db k''))" "c_id b = rr_control run"
    using run run' by (auto simp: lockControlByRun_def assms(4) dest: find_SomeD split: option.splits)
  then have bc: "c_id b = po_control ok" using assms(8) run' \<open>g' = g\<close> by auto
  note kok = control_reachable_ok [OF assms(1)] and kok' = pause.keeps_ok [OF control_reachable_ok [OF assms(1)] assms(2)]
  from pause_fresh [OF assms(2,10)] obtain c hash where lock: "lockControlById sc (pi_control i) k = Some c"
    and c: "pause_transition sc now cmd hash i c k = Inr (Inr ok, k')" .
  have po: "po_epoch ok = Suc (c_epoch c)" "po_control ok = c_id c" and rows: "controls (k_db k') =
      update_where (is_control sc (pi_control i)) (paused now cmd i) (controls (k_db k))"
    by (rule pause_transition_effect [OF c]; use control_of_lock [OF lock] in \<open>simp add: is_control_def\<close>)+
  have "paused now cmd i c \<in> set (controls (k_db k'))"
    unfolding rows using control_of_lock [OF lock] by (auto simp: update_where_def)
  from control_later [OF kok' this(1) assms(3)] obtain c' where c': "c' \<in> set (controls (k_db k''))"
    "control_kept (paused now cmd i c) c'" ..
  then have "c_id c' = c_id b" and e: "Suc (c_epoch c) \<le> c_epoch c'" using bc po(2) by (auto simp: control_kept_def paused_def)
  then have "c' = b" using c'(1) b(1) control_run_keeps [OF assms(3) kok'] by (auto simp: control_ok_def dest: distinct_map_eqD)
  with e epoch po(1) assms(7) show False by simp
qed

definition demo_fenced_ledger :: ledger where
  "demo_fenced_ledger = demo_ledger\<lparr>l_controls := controls (k_db demo_paused_db),
     l_grants := [demo_grant_row\<lparr>gr_epoch := 0\<rparr>], l_runs := [demo_run_row]\<rparr>"

theorem takeover_fences_inference_witness:
  "\<forall>ad l'. admitAttempt (''t'', ''a'') 30 demo_admit demo_fenced_ledger \<noteq> Inr (Inr ad, l')"
proof (intro allI)
  fix ad l'
  show "admitAttempt (''t'', ''a'') 30 demo_admit demo_fenced_ledger \<noteq> Inr (Inr ad, l')"
    by (rule takeover_fences_inference [OF demo_bot_reachable demo_paused control_run_refl, where g = "demo_grant_row\<lparr>gr_epoch := 0\<rparr>"])
      (simp_all add: demo_fenced_ledger_def demo_grant_row_def demo_run_row_def demo_pause_ok_def demo_admit_def)
qed

section \<open>The backlog of a resume\<close>

lemma held_resumed:
  "held_for_cancellation sc s w (resumed_controls sc now cmd n i k) = held_for_cancellation sc s w k"
  by (rule ext) (simp add: held_for_cancellation_def turnWithoutPendingEffect_def resumed_controls_def set_controls_def)

lemma backlog_of_resume:
  "heldBacklogForCancellation sc s w (resumed_controls sc now cmd n i k)
     = map (\<lambda>t. (t_id t, t_version t)) (sort_key t_id (filter (held_for_cancellation sc s w k) (turns (k_db k))))"
  unfolding heldBacklogForCancellation_def held_resumed by (simp add: resumed_controls_def set_controls_def)

lemma resumed_controls_db [simp]:
  "turns (k_db (resumed_controls sc now cmd n i k)) = turns (k_db k)"
  by (simp add: resumed_controls_def set_controls_def)

lemma store_ok_turns: "turns d' = turns d \<Longrightarrow> store_ok d' = store_ok d"
  by (simp add: store_ok_def)

lemma backlog_discardable:
  assumes "store_ok (k_db k)"
  shows "distinct (map fst (heldBacklogForCancellation sc s w (resumed_controls sc now cmd n i k)))"
    and "\<forall>p \<in> set (heldBacklogForCancellation sc s w (resumed_controls sc now cmd n i k)). discardable sc (k_db (resumed_controls sc now cmd n i k)) p"
proof -
  have "distinct (map t_id (filter (held_for_cancellation sc s w k) (turns (k_db k))))"
    using store_ok_ids [OF assms] by (rule distinct_map_filter)
  then have "distinct (map t_id (sort_key t_id (filter (held_for_cancellation sc s w k) (turns (k_db k)))))"
    by (simp add: distinct_map)
  then show "distinct (map fst (heldBacklogForCancellation sc s w (resumed_controls sc now cmd n i k)))"
    unfolding backlog_of_resume by (simp add: comp_def)
  show "\<forall>p \<in> set (heldBacklogForCancellation sc s w (resumed_controls sc now cmd n i k)). discardable sc (k_db (resumed_controls sc now cmd n i k)) p"
    unfolding backlog_of_resume discardable_def by (auto simp: held_for_cancellation_def is_turn_def)
qed

text \<open>
  C18. A resume closes the backlog the hold retained: when it commits, every discardable turn of the stream
  up to the watermark and without a pending effect has ended as ignored by the operator, in the number it
  reports, and the epoch it reports is the one the control has.
\<close>

theorem resume_discards_backlog:
  assumes "store_ok (k_db k)" and "resumeInTx sha h cfg bid sc now cmd i k0 k = Inr (Inr ok, k')"
    and "so_idempotent ok = False"
  shows "\<exists>c. lockControlById sc (re_control i) k = Some c
     \<and> so_after ok = watermark sc (c_stream c) (k_db k) \<and> so_epoch ok = c_epoch c + 1
     \<and> so_cancelled ok = length (filter (held_for_cancellation sc (c_stream c) (so_after ok) k) (turns (k_db k)))
     \<and> (\<forall>t \<in> set (turns (k_db k)). held_for_cancellation sc (c_stream c) (so_after ok) k t \<longrightarrow>
          (\<exists>r \<in> set (turns (k_db k')). t_id r = t_id t \<and> t_status r = Ignored \<and> t_outcome r = Some Operator_Cancelled))"
proof -
  from assms(2) obtain hash where hash: "conversationControlCommandDigest sha h (resume_identity i) = Inr hash"
    by (auto simp: resumeInTx_def split: sum.splits)
  have "\<exists>c. lockControlById sc (re_control i) k = Some c \<and> resume_transition cfg bid sc now cmd hash i c k = Inr (Inr ok, k')"
    using assms(2,3) hash
    by (auto simp: resumeInTx_def responderRetomadaGravada_def Let_def split: option.splits prod.splits)
  then obtain c where lock: "lockControlById sc (re_control i) k = Some c"
    and c: "resume_transition cfg bid sc now cmd hash i c k = Inr (Inr ok, k')" by blast
  define w where "w = watermark sc (c_stream c) (k_db k)"
  define ts where "ts = heldBacklogForCancellation sc (c_stream c) w (resumed_controls sc now cmd w i k)"
  have run: "cancel_all cfg now bid sc ts (k_db (resumed_controls sc now cmd w i k)) = Inr (k_db k')"
    and ok: "so_after ok = w" "so_epoch ok = Suc (c_epoch c)" "so_cancelled ok = length ts"
    unfolding w_def ts_def by (rule resume_transition_effect [OF c]; simp)+
  have "distinct (map t_id (turns (k_db (resumed_controls sc now cmd w i k))))" using store_ok_ids [OF assms(1)] by simp
  from cancel_all_evolves [OF run this]
  have marks: "\<exists>r \<in> set (turns (k_db k')). t_id r = tid \<and> cancelled r" if "(tid, v) \<in> set ts" for tid v using that by blast
  have "\<exists>r \<in> set (turns (k_db k')). t_id r = t_id t \<and> t_status r = Ignored \<and> t_outcome r = Some Operator_Cancelled"
    if "t \<in> set (turns (k_db k))" "held_for_cancellation sc (c_stream c) w k t" for t
  proof -
    from that have "(t_id t, t_version t) \<in> set ts" unfolding ts_def backlog_of_resume by auto
    from marks [OF this] show ?thesis by (auto simp: cancelled_def)
  qed
  moreover have "length ts = length (filter (held_for_cancellation sc (c_stream c) w k) (turns (k_db k)))"
    unfolding ts_def backlog_of_resume by simp
  ultimately show ?thesis using lock ok by (auto simp: w_def)
qed

theorem resume_discards_backlog_witness:
  "case resumeInTx demo_sha [] demo_config 90 (''t'', ''a'') 40 70 demo_resume (demo_control_db [] [])
      (demo_control_db [demo_turn 1 Received None 1] [demo_human]) of
     Inr (Inr ok, k') \<Rightarrow> so_epoch ok = 2 \<and> so_after ok = 9 | _ \<Rightarrow> False"
proof -
  let ?k = "demo_control_db [demo_turn 1 Received None 1] [demo_human]"
  let ?r = "resumeInTx demo_sha [] demo_config 90 (''t'', ''a'') 40 70 demo_resume (demo_control_db [] []) ?k"
  have "case ?r of Inr (Inr ok, _) \<Rightarrow> so_idempotent ok = False | _ \<Rightarrow> False" by code_simp
  then obtain ok k' where r: "?r = Inr (Inr ok, k')" "so_idempotent ok = False"
    by (auto split: sum.splits prod.splits)
  have "store_ok (k_db ?k)" by code_simp
  from resume_discards_backlog [OF this r] have "so_epoch ok = 2 \<and> so_after ok = 9"
    by (auto simp: lockControlById_def is_control_def demo_control_db_def demo_resume_def demo_human_def demo_bot_def
        watermark_def stream_counter_def stream_turns_def demo_simps)
  with r show ?thesis by simp
qed



end
