(* ===== verification/Tool_Packs.thy ===== *)
theory Tool_Packs
  imports JS_Value
begin

text \<open>
  The capability packs an agent can be granted (src/tools/grant-math.ts, src/tools/base-agent-packs.ts) and
  the checks made when the packs are loaded with the registry of tools (src/tools/packs.ts). The
  descriptions and display names of the packs are left out.
\<close>

section \<open>Packs\<close>

datatype pack_risk = Pack_Low | Pack_Medium | Pack_High

record tool_pack =
  tp_id :: string
  tp_domain :: "string option"
  tp_version :: nat
  tp_risk :: "pack_risk option"
  tp_default_for :: "string list option"
  tp_tools :: "string list"

definition BASELINE_CORE_PACK :: tool_pack where
  "BASELINE_CORE_PACK = \<lparr>tp_id = ''baseline.core'',
     tp_domain = None, tp_version = 2, tp_risk = None, tp_default_for = None,
     tp_tools = [''read_turn_context'', ''recall_memory'', ''remember_safe_fact'', ''request_confirmation'',
                 ''handoff_to_owner'', ''audit_decision'', ''explain_limitation'', ''risk_signal_classify'',
                 ''conversation_summary_compose'', ''conversation_state_update'']\<rparr>"

definition DOMAIN_FINANCE_PACK :: tool_pack where
  "DOMAIN_FINANCE_PACK = \<lparr>tp_id = ''domain.finance'',
     tp_domain = Some ''finance'', tp_version = 1, tp_risk = Some Pack_High, tp_default_for = Some [''financeiro''],
     tp_tools = [''register_transaction'', ''cancel_transaction'', ''query_balance'', ''list_transactions'',
                 ''classify_transaction'', ''compare_entities'', ''generate_report'',
                 ''start_recurring_payment'', ''identify_entity'']\<rparr>"

definition DOMAIN_SALES_PACK :: tool_pack where
  "DOMAIN_SALES_PACK = \<lparr>tp_id = ''domain.sales'',
     tp_domain = Some ''sales'', tp_version = 1, tp_risk = Some Pack_Medium, tp_default_for = Some [''vendas'', ''comercial''],
     tp_tools = [''identify_entity'', ''send_proactive_message'', ''start_recurring_outreach'']\<rparr>"

definition DOMAIN_SUPPORT_PACK :: tool_pack where
  "DOMAIN_SUPPORT_PACK = \<lparr>tp_id = ''domain.support'',
     tp_domain = Some ''support'', tp_version = 1, tp_risk = Some Pack_Low, tp_default_for = Some [''suporte'', ''atendimento''],
     tp_tools = [''identify_entity'', ''list_pending'', ''ask_pending_question'', ''start_workflow'']\<rparr>"

definition DOMAIN_CALENDAR_PACK :: tool_pack where
  "DOMAIN_CALENDAR_PACK = \<lparr>tp_id = ''domain.calendar'',
     tp_domain = Some ''calendar'', tp_version = 2, tp_risk = Some Pack_Medium, tp_default_for = Some [''operacoes'', ''agenda''],
     tp_tools = [''calendar_is_business_day'', ''calendar_next_holiday'', ''calendar_list_holidays'',
                 ''calendar_business_days_between'', ''calendar_add_business_days'',
                 ''set_interlocutor_timezone'', ''schedule_reminder'', ''cancel_reminder'']\<rparr>"

definition DOMAIN_CALENDAR_ADMIN_PACK :: tool_pack where
  "DOMAIN_CALENDAR_ADMIN_PACK = \<lparr>tp_id = ''domain.calendar.admin'',
     tp_domain = Some ''calendar'', tp_version = 1, tp_risk = Some Pack_High, tp_default_for = Some [],
     tp_tools = [''register_custom_holiday'']\<rparr>"

definition DOMAIN_OPERATIONS_PACK :: tool_pack where
  "DOMAIN_OPERATIONS_PACK = \<lparr>tp_id = ''domain.operations'',
     tp_domain = Some ''operations'', tp_version = 1, tp_risk = Some Pack_Medium, tp_default_for = Some [''operacoes''],
     tp_tools = [''start_workflow'', ''schedule_reminder'', ''cancel_reminder'', ''list_pending'']\<rparr>"

definition BOLETO_PROPOSAL_READ_PACK :: tool_pack where
  "BOLETO_PROPOSAL_READ_PACK = \<lparr>tp_id = ''boleto_proposal_read_pack'',
     tp_domain = Some ''boleto_proposal'', tp_version = 1, tp_risk = Some Pack_Low, tp_default_for = None,
     tp_tools = [''company_identity_resolver'', ''company_search'', ''company_history_lookup'',
                 ''company_blacklist_check'', ''boleto_search'', ''dda_lookup'', ''payment_verification'',
                 ''campaign_status_lookup'']\<rparr>"

definition BOLETO_PROPOSAL_WRITE_PACK :: tool_pack where
  "BOLETO_PROPOSAL_WRITE_PACK = \<lparr>tp_id = ''boleto_proposal_write_pack'',
     tp_domain = Some ''boleto_proposal'', tp_version = 1, tp_risk = Some Pack_High, tp_default_for = None,
     tp_tools = [''boleto_cancel'', ''company_campaign_remove'']\<rparr>"

definition REFUND_INTAKE_PACK :: tool_pack where
  "REFUND_INTAKE_PACK = \<lparr>tp_id = ''refund_intake_pack'',
     tp_domain = Some ''boleto_proposal'', tp_version = 1, tp_risk = Some Pack_High, tp_default_for = None,
     tp_tools = [''payment_verification'', ''receipt_validate'', ''bank_account_validate'', ''refund_create'',
                 ''conversation_attachment_lookup'']\<rparr>"

definition REFUND_FOLLOWUP_PACK :: tool_pack where
  "REFUND_FOLLOWUP_PACK = \<lparr>tp_id = ''refund_followup_pack'',
     tp_domain = Some ''boleto_proposal'', tp_version = 1, tp_risk = Some Pack_Low, tp_default_for = None,
     tp_tools = [''refund_lookup'', ''conversation_attachment_lookup'', ''conversation_summary_generate'']\<rparr>"

definition DOCUMENT_ANALYSIS_PACK :: tool_pack where
  "DOCUMENT_ANALYSIS_PACK = \<lparr>tp_id = ''document_analysis_pack'',
     tp_domain = Some ''boleto_proposal'', tp_version = 1, tp_risk = Some Pack_Low, tp_default_for = None,
     tp_tools = [''conversation_attachment_lookup'', ''receipt_validate'']\<rparr>"

definition RISK_ESCALATION_PACK :: tool_pack where
  "RISK_ESCALATION_PACK = \<lparr>tp_id = ''risk_escalation_pack'',
     tp_domain = Some ''boleto_proposal'', tp_version = 1, tp_risk = Some Pack_Medium, tp_default_for = None,
     tp_tools = [''legal_intent_detect'', ''case_risk_classify'', ''operational_ticket_create'',
                 ''conversation_summary_generate'']\<rparr>"

definition DEFAULT_AGENT_PACKS :: "string list" where
  "DEFAULT_AGENT_PACKS = [''baseline.core'']"

definition PLATFORM_DEFAULT_DOMAIN_PACKS :: "string list" where
  "PLATFORM_DEFAULT_DOMAIN_PACKS = [''domain.calendar'']"

definition BASE_AGENT_PACKS :: "string list" where
  "BASE_AGENT_PACKS = [''baseline.core'', ''domain.calendar'']"

definition BOLETO_PROPOSAL_PACKS :: "tool_pack list" where
  "BOLETO_PROPOSAL_PACKS = [BOLETO_PROPOSAL_READ_PACK, BOLETO_PROPOSAL_WRITE_PACK, REFUND_INTAKE_PACK,
     REFUND_FOLLOWUP_PACK, DOCUMENT_ANALYSIS_PACK, RISK_ESCALATION_PACK]"

definition DOMAIN_PACKS :: "tool_pack list" where
  "DOMAIN_PACKS = [DOMAIN_FINANCE_PACK, DOMAIN_SALES_PACK, DOMAIN_SUPPORT_PACK, DOMAIN_CALENDAR_PACK,
     DOMAIN_CALENDAR_ADMIN_PACK, DOMAIN_OPERATIONS_PACK] @ BOLETO_PROPOSAL_PACKS"

text \<open>
  \<open>TOOL_PACKS\<close> is an object literal: a name without a pack of its own that every object inherits yields
  a value that is no pack. Of two properties with the same name the later one stays.
\<close>

definition TOOL_PACKS :: "(string \<times> tool_pack) list" where
  "TOOL_PACKS = rev ((tp_id BASELINE_CORE_PACK, BASELINE_CORE_PACK) # List.map (\<lambda>p. (tp_id p, p)) DOMAIN_PACKS)"

definition OBJECT_PROTOTYPE :: "string list" where
  "OBJECT_PROTOTYPE = [''constructor'', ''__defineGetter__'', ''__defineSetter__'', ''hasOwnProperty'',
     ''__lookupGetter__'', ''__lookupSetter__'', ''isPrototypeOf'', ''propertyIsEnumerable'', ''toString'',
     ''valueOf'', ''__proto__'', ''toLocaleString'']"

datatype pack_lookup = Pack tool_pack | Inherited | No_Pack

definition lookup_pack :: "string \<Rightarrow> pack_lookup" where
  "lookup_pack i =
     (case map_of TOOL_PACKS i of
        Some p \<Rightarrow> Pack p
      | None \<Rightarrow> if i \<in> set OBJECT_PROTOTYPE then Inherited else No_Pack)"

section \<open>The registry and the checks at load time\<close>

datatype side_effect = Effect_None | Effect_Read | Effect_Write | Effect_Communication

record registry_tool =
  rt_name :: string
  rt_side_effect :: side_effect
  rt_actions :: "string list"            \<comment> \<open>\<open>required_actions\<close>\<close>
  rt_flag :: "string option"             \<comment> \<open>\<open>feature_flag\<close>\<close>

type_synonym registry = "(string \<times> registry_tool) list"

datatype pack_error =
    Unknown_Tool string string | Forbidden_Tool string | Unexpected_Write string | Unexpected_Communication string

definition FORBIDDEN_IN_BASELINE :: "string list" where
  "FORBIDDEN_IN_BASELINE = [''register_transaction'', ''cancel_transaction'', ''query_balance'',
     ''list_transactions'', ''classify_transaction'', ''compare_entities'', ''generate_report'',
     ''start_recurring_payment'', ''identify_entity'', ''send_proactive_message'', ''start_recurring_outreach'',
     ''start_workflow'', ''schedule_reminder'', ''cancel_reminder'', ''register_custom_holiday'']"

definition BASELINE_WRITE_ALLOWLIST :: "string list" where
  "BASELINE_WRITE_ALLOWLIST = [''remember_safe_fact'', ''conversation_state_update'']"

definition BASELINE_COMMUNICATION_ALLOWLIST :: "string list" where
  "BASELINE_COMMUNICATION_ALLOWLIST = [''handoff_to_owner'']"

text \<open>The loops of the three assertions, over the tools of a pack; \<open>Inl\<close> is the error thrown.\<close>

fun assertPackToolsExist :: "registry \<Rightarrow> string \<Rightarrow> string list \<Rightarrow> pack_error + unit" where
  "assertPackToolsExist reg i [] = Inr ()"
| "assertPackToolsExist reg i (name # names) =
     (if name \<notin> fst ` set reg \<and> name \<notin> set OBJECT_PROTOTYPE then Inl (Unknown_Tool i name)
      else assertPackToolsExist reg i names)"

fun assertConservative :: "registry \<Rightarrow> string list \<Rightarrow> pack_error + unit" where
  "assertConservative reg [] = Inr ()"
| "assertConservative reg (name # names) =
     (if name \<in> set FORBIDDEN_IN_BASELINE then Inl (Forbidden_Tool name)
      else
        (case map_of reg name of
           None \<Rightarrow> assertConservative reg names
         | Some t \<Rightarrow>
             if rt_side_effect t = Effect_Write \<and> name \<notin> set BASELINE_WRITE_ALLOWLIST then Inl (Unexpected_Write name)
             else if rt_side_effect t = Effect_Communication \<and> name \<notin> set BASELINE_COMMUNICATION_ALLOWLIST
             then Inl (Unexpected_Communication name)
             else assertConservative reg names))"

fun assertDomainPackToolsKnown :: "string list \<Rightarrow> string \<Rightarrow> string list \<Rightarrow> pack_error + unit" where
  "assertDomainPackToolsKnown known i [] = Inr ()"
| "assertDomainPackToolsKnown known i (name # names) =
     (if name \<notin> set known then Inl (Unknown_Tool i name) else assertDomainPackToolsKnown known i names)"

fun check_domain_packs :: "string list \<Rightarrow> tool_pack list \<Rightarrow> pack_error + unit" where
  "check_domain_packs known [] = Inr ()"
| "check_domain_packs known (p # ps) =
     (case assertDomainPackToolsKnown known (tp_id p) (tp_tools p) of
        Inl e \<Rightarrow> Inl e | Inr _ \<Rightarrow> check_domain_packs known ps)"

text \<open>The module body of packs.ts: \<open>known\<close> are the names of the catalogue with the tools a flag removed.\<close>

definition load_packs :: "registry \<Rightarrow> string list \<Rightarrow> pack_error + unit" where
  "load_packs reg known =
     (case assertPackToolsExist reg (tp_id BASELINE_CORE_PACK) (tp_tools BASELINE_CORE_PACK) of
        Inl e \<Rightarrow> Inl e
      | Inr _ \<Rightarrow>
          (case assertConservative reg (tp_tools BASELINE_CORE_PACK) of
             Inl e \<Rightarrow> Inl e
           | Inr _ \<Rightarrow> check_domain_packs known DOMAIN_PACKS))"

definition harmless :: "registry_tool \<Rightarrow> bool" where
  "harmless t =
     (case rt_side_effect t of
        Effect_Write \<Rightarrow> rt_name t \<in> set BASELINE_WRITE_ALLOWLIST
      | Effect_Communication \<Rightarrow> rt_name t \<in> set BASELINE_COMMUNICATION_ALLOWLIST
      | _ \<Rightarrow> True)"

lemma assertConservative_spec:
  assumes "assertConservative reg names = Inr ()" and "name \<in> set names" and "map_of reg name = Some t"
    and "rt_name t = name"
  shows "harmless t"
  using assms
  by (induction reg names rule: assertConservative.induct)
    (auto simp: harmless_def split: if_splits option.splits side_effect.splits)

end
