(* ===== verification/Usage_Policy.thy ===== *)
theory Usage_Policy
  imports JS_Value
begin

text \<open>
  Who may use a skill (src/skills/usage-policy.ts with the vocabulary of src/shared/audience.ts): the typed
  usage policy, the decision over audience, channel, data, trust and risk, the conservative default of a
  skill without a policy, and the data classes an audience may receive. The schema library that checks a
  stored policy is the parameter \<open>zod\<close>, from a value to its issues or the policy; the texts that explain a
  block are left out.
\<close>

section \<open>Vocabulary\<close>

datatype audience_type =
    Owner | Manager | Employee | Accountant | Customer | Vendor | Lead | System_User | Unknown_Audience

datatype trust_level = Trusted_Internal | Known_External | Unverified | Unknown_Trust | Blocked

datatype data_scope =
    Internal_Business_Summary | Financial_Summary | Operations_Summary | Own_Customer_Data_Only | Public_Info

datatype exposure_policy = Internal_Only | Subject_Only | Public_Safe | Approval_Required

datatype required_auth = Requires_Trusted_Internal | Requires_Known_External | Requires_Verified_Subject

datatype risk_level = Risk_Low | Risk_Medium | Risk_High | Risk_Critical

record usage_policy =
  up_allowed_audience :: "audience_type list"
  up_blocked_audience :: "audience_type list option"
  up_allowed_channels :: "string list option"
  up_blocked_channels :: "string list option"
  up_data_scope :: "data_scope list"
  up_exposure :: exposure_policy
  up_auth :: required_auth
  up_confirmation :: bool
  up_risk_ceiling :: "risk_level option"  \<comment> \<open>\<open>blocked_when_risk_at_or_above\<close>\<close>

datatype block_reason =
    Audience_Blocked | Channel_Blocked | Data_Scope_Blocked | Auth_Level_Insufficient | Risk_Blocked

datatype usage_decision = Admitted | Refused block_reason

record usage_context =
  uc_audience :: audience_type
  uc_trust :: trust_level
  uc_channel :: string
  uc_data_scope :: "data_scope list option"
  uc_risk :: "risk_level option"

section \<open>The decision\<close>

fun TRUST_RANK :: "trust_level \<Rightarrow> nat" where
  "TRUST_RANK Blocked = 0"
| "TRUST_RANK Unknown_Trust = 1"
| "TRUST_RANK Unverified = 1"
| "TRUST_RANK Known_External = 2"
| "TRUST_RANK Trusted_Internal = 3"

fun REQUIRED_AUTH_MIN_RANK :: "required_auth \<Rightarrow> nat" where
  "REQUIRED_AUTH_MIN_RANK Requires_Verified_Subject = 2"
| "REQUIRED_AUTH_MIN_RANK Requires_Known_External = 2"
| "REQUIRED_AUTH_MIN_RANK Requires_Trusted_Internal = 3"

fun RISK_RANK :: "risk_level \<Rightarrow> nat" where
  "RISK_RANK Risk_Low = 0"
| "RISK_RANK Risk_Medium = 1"
| "RISK_RANK Risk_High = 2"
| "RISK_RANK Risk_Critical = 3"

text \<open>\<open>xs?.includes(x)\<close>: an absent list includes nothing.\<close>

definition listed :: "'a list option \<Rightarrow> 'a \<Rightarrow> bool" where
  "listed xs x = (case xs of None \<Rightarrow> False | Some ys \<Rightarrow> x \<in> set ys)"

definition evaluateUsagePolicy :: "usage_policy \<Rightarrow> usage_context \<Rightarrow> usage_decision" where
  "evaluateUsagePolicy policy ctx =
     (if listed (up_blocked_audience policy) (uc_audience ctx) then Refused Audience_Blocked
      else if uc_audience ctx \<notin> set (up_allowed_audience policy) then Refused Audience_Blocked
      else if listed (up_blocked_channels policy) (uc_channel ctx) then Refused Channel_Blocked
      else if (case up_allowed_channels policy of None \<Rightarrow> False | Some cs \<Rightarrow> cs \<noteq> [] \<and> uc_channel ctx \<notin> set cs)
           then Refused Channel_Blocked
      else if (case uc_data_scope ctx of None \<Rightarrow> False
                 | Some allowed \<Rightarrow> filter (\<lambda>d. d \<notin> set allowed) (up_data_scope policy) \<noteq> [])
           then Refused Data_Scope_Blocked
      else if TRUST_RANK (uc_trust ctx) < REQUIRED_AUTH_MIN_RANK (up_auth policy) then Refused Auth_Level_Insufficient
      else if (case (up_risk_ceiling policy, uc_risk ctx) of
                 (Some c, Some turn) \<Rightarrow> RISK_RANK c \<le> RISK_RANK turn | _ \<Rightarrow> False)
           then Refused Risk_Blocked
      else Admitted)"

section \<open>The policy of a skill\<close>

definition safeParseUsagePolicy :: "(js \<Rightarrow> string + usage_policy) \<Rightarrow> js \<Rightarrow> string + usage_policy option" where
  "safeParseUsagePolicy zod raw =
     (if raw = Null \<or> raw = Undef \<or> raw = Obj [] then Inr None
      else case zod raw of Inl e \<Rightarrow> Inl e | Inr p \<Rightarrow> Inr (Some p))"

definition CONSERVATIVE_DEFAULT_USAGE_POLICY :: usage_policy where
  "CONSERVATIVE_DEFAULT_USAGE_POLICY =
     \<lparr>up_allowed_audience = [Owner, Manager, Employee, Accountant, System_User], up_blocked_audience = None,
      up_allowed_channels = None, up_blocked_channels = None, up_data_scope = [Internal_Business_Summary],
      up_exposure = Internal_Only, up_auth = Requires_Trusted_Internal, up_confirmation = False,
      up_risk_ceiling = None\<rparr>"

definition resolveEffectiveUsagePolicy :: "(js \<Rightarrow> string + usage_policy) \<Rightarrow> js \<Rightarrow> string + usage_policy" where
  "resolveEffectiveUsagePolicy zod raw =
     (case safeParseUsagePolicy zod raw of
        Inl e \<Rightarrow> Inl e
      | Inr None \<Rightarrow> Inr CONSERVATIVE_DEFAULT_USAGE_POLICY
      | Inr (Some p) \<Rightarrow> Inr p)"

fun allowedDataScopesForAudience :: "audience_type \<Rightarrow> data_scope list" where
  "allowedDataScopesForAudience Accountant = [Financial_Summary, Operations_Summary, Public_Info]"
| "allowedDataScopesForAudience Employee = [Internal_Business_Summary, Operations_Summary, Public_Info]"
| "allowedDataScopesForAudience Customer = [Own_Customer_Data_Only, Public_Info]"
| "allowedDataScopesForAudience Lead = [Own_Customer_Data_Only, Public_Info]"
| "allowedDataScopesForAudience Vendor = [Own_Customer_Data_Only, Public_Info]"
| "allowedDataScopesForAudience Unknown_Audience = [Public_Info]"
| "allowedDataScopesForAudience _ = [Internal_Business_Summary, Financial_Summary, Operations_Summary,
     Own_Customer_Data_Only, Public_Info]"

section \<open>What an admission means\<close>

lemma evaluate_admitted:
  "evaluateUsagePolicy policy ctx = Admitted \<longleftrightarrow>
     uc_audience ctx \<in> set (up_allowed_audience policy) \<and> \<not> listed (up_blocked_audience policy) (uc_audience ctx)
     \<and> \<not> listed (up_blocked_channels policy) (uc_channel ctx)
     \<and> (\<forall>cs. up_allowed_channels policy = Some cs \<longrightarrow> cs = [] \<or> uc_channel ctx \<in> set cs)
     \<and> (\<forall>ds. uc_data_scope ctx = Some ds \<longrightarrow> set (up_data_scope policy) \<subseteq> set ds)
     \<and> REQUIRED_AUTH_MIN_RANK (up_auth policy) \<le> TRUST_RANK (uc_trust ctx)
     \<and> (\<forall>c t. up_risk_ceiling policy = Some c \<and> uc_risk ctx = Some t \<longrightarrow> RISK_RANK t < RISK_RANK c)"
  by (auto simp: evaluateUsagePolicy_def filter_empty_conv split: option.splits if_splits)

lemma auth_ranks: "2 \<le> REQUIRED_AUTH_MIN_RANK a"
  by (cases a) simp_all

lemma trust_ranks: "2 \<le> TRUST_RANK t \<longleftrightarrow> t = Known_External \<or> t = Trusted_Internal"
  by (cases t) simp_all

text \<open>
  A stranger is served only what was opened to him: whatever is stored as the policy of a skill, it is
  admitted for a customer, lead or vendor only if it declares, well formed, a policy that names them, that
  touches no data but their own and public data, and only if their identity is known.
\<close>

lemma external_admission:
  assumes "resolveEffectiveUsagePolicy zod raw = Inr policy" and "evaluateUsagePolicy policy ctx = Admitted"
    and "uc_audience ctx \<in> {Customer, Lead, Vendor}"
    and "uc_data_scope ctx = Some (allowedDataScopesForAudience (uc_audience ctx))"
  shows "zod raw = Inr policy \<and> raw \<notin> {Null, Undef, Obj []} \<and> uc_audience ctx \<in> set (up_allowed_audience policy)
     \<and> set (up_data_scope policy) \<subseteq> {Own_Customer_Data_Only, Public_Info}
     \<and> uc_trust ctx \<in> {Known_External, Trusted_Internal}"
proof -
  note admitted = assms(2) [unfolded evaluate_admitted]
  have "policy \<noteq> CONSERVATIVE_DEFAULT_USAGE_POLICY"
    using admitted assms(3) by (auto simp: CONSERVATIVE_DEFAULT_USAGE_POLICY_def)
  then have "zod raw = Inr policy \<and> raw \<notin> {Null, Undef, Obj []}"
    using assms(1) by (auto simp: resolveEffectiveUsagePolicy_def safeParseUsagePolicy_def
        split: sum.splits option.splits if_splits)
  moreover have "set (up_data_scope policy) \<subseteq> {Own_Customer_Data_Only, Public_Info}"
    using admitted assms(3,4) by auto
  moreover have "2 \<le> TRUST_RANK (uc_trust ctx)" using admitted auth_ranks [of "up_auth policy"] by linarith
  ultimately show ?thesis using admitted by (simp add: trust_ranks)
qed

definition demo_policy :: usage_policy where
  "demo_policy = CONSERVATIVE_DEFAULT_USAGE_POLICY\<lparr>up_allowed_audience := [Customer], up_data_scope := [Public_Info],
     up_auth := Requires_Verified_Subject\<rparr>"

definition demo_context :: usage_context where
  "demo_context = \<lparr>uc_audience = Customer, uc_trust = Known_External, uc_channel = ''whatsapp'',
     uc_data_scope = Some [Own_Customer_Data_Only, Public_Info], uc_risk = None\<rparr>"

lemma external_admission_witness:
  "set (up_data_scope demo_policy) \<subseteq> {Own_Customer_Data_Only, Public_Info}"
proof -
  let ?zod = "\<lambda>_. Inr demo_policy"
  have "resolveEffectiveUsagePolicy ?zod (Obj [(''v'', Null)]) = Inr demo_policy"
    by (simp add: resolveEffectiveUsagePolicy_def safeParseUsagePolicy_def)
  moreover have "evaluateUsagePolicy demo_policy demo_context = Admitted" by code_simp
  moreover have "uc_audience demo_context \<in> {Customer, Lead, Vendor}"
    "uc_data_scope demo_context = Some (allowedDataScopesForAudience (uc_audience demo_context))"
    by (simp_all add: demo_context_def)
  ultimately show ?thesis using external_admission by blast
qed

end
