(* ===== verification/Tool_Grants.thy ===== *)
theory Tool_Grants
  imports Tool_Packs Usage_Policy
begin

text \<open>
  The algebra of tool grants (src/tools/grant-math.ts), the projection of the registry on a person
  (\<open>getAgentToolSchemas\<close> of src/tools/_registry.ts), the runtime filter that composes them with the usage
  policy of the selected skill (src/tools/runtime-filter.ts), and the guard of the dispatcher that looks at the
  grant again (src/tools/_dispatcher.ts). A set of the language is the list of its members in the order of
  insertion. The reads of the grant and role tables and the schema builder of the registry are parameters.
\<close>

section \<open>Grants\<close>

datatype tool_error = Type_Error           \<comment> \<open>iteration over \<open>undefined\<close>\<close>

definition set_add :: "'a \<Rightarrow> 'a list \<Rightarrow> 'a list" where
  "set_add x xs = (if x \<in> set xs then xs else xs @ [x])"

definition set_adds :: "'a list \<Rightarrow> 'a list \<Rightarrow> 'a list" where
  "set_adds ys xs = fold set_add ys xs"

fun resolve_packs :: "string list \<Rightarrow> string list \<Rightarrow> tool_error + string list" where
  "resolve_packs [] out = Inr out"
| "resolve_packs (i # ids) out =
     (case lookup_pack i of
        No_Pack \<Rightarrow> resolve_packs ids out
      | Inherited \<Rightarrow> Inl Type_Error
      | Pack p \<Rightarrow> resolve_packs ids (set_adds (tp_tools p) out))"

definition resolvePackTools :: "string list \<Rightarrow> tool_error + string list" where
  "resolvePackTools packIds = resolve_packs packIds []"

record agent_grant =
  granted_packs :: "string list"
  granted_tools :: "string list"
  denied_tools :: "string list"

definition resolveGrantedToolNames :: "agent_grant \<Rightarrow> tool_error + string list" where
  "resolveGrantedToolNames g =
     (case resolvePackTools (granted_packs g) of
        Inl e \<Rightarrow> Inl e
      | Inr packed \<Rightarrow>
          Inr (filter (\<lambda>n. n \<notin> set (denied_tools g))
                 (set_adds (granted_tools g) (set_adds packed (set_adds (tp_tools BASELINE_CORE_PACK) [])))))"

definition defaultAgentGrant :: agent_grant where
  "defaultAgentGrant = \<lparr>granted_packs = BASE_AGENT_PACKS, granted_tools = [], denied_tools = []\<rparr>"

record skill_scope =
  sk_id :: "string option"
  sk_allowed :: "string list option"
  sk_denied :: "string list option"
  sk_confirm :: "string list option"     \<comment> \<open>\<open>requires_confirmation_for\<close>\<close>

record role_scope =
  ro_key :: "string option"
  ro_packs :: "string list option"

record visible_tools =
  vt_visible :: "string list"
  vt_confirm :: "string list"
  vt_granted_packs :: "string list"
  vt_granted_tools :: "string list"
  vt_denied_by_grant :: "string list"
  vt_skill :: "string option"
  vt_skill_allowed :: "string list"
  vt_denied_by_skill :: "string list"
  vt_dropped_by_allowlist :: "string list"
  vt_role :: "string option"
  vt_role_packs :: "string list"
  vt_dropped_by_role :: "string list"

text \<open>The loop over the granted names: visible, dropped by the list of the skill, dropped by the role.\<close>

fun sift :: "string list \<Rightarrow> string list \<Rightarrow> string list option \<Rightarrow> string list
    \<Rightarrow> string list \<times> string list \<times> string list" where
  "sift denied allowed role [] = ([], [], [])"
| "sift denied allowed role (n # ns) =
     (let (v, a, r) = sift denied allowed role ns
      in if n \<in> set denied then (v, a, r)
         else if allowed \<noteq> [] \<and> n \<notin> set allowed then (v, n # a, r)
         else if (case role of None \<Rightarrow> False | Some ts \<Rightarrow> n \<notin> set ts) then (v, a, n # r)
         else (n # v, a, r))"

definition role_allowed :: "string list \<Rightarrow> tool_error + string list option" where
  "role_allowed rolePacks =
     (if rolePacks = [] then Inr None
      else case resolvePackTools rolePacks of
             Inl e \<Rightarrow> Inl e
           | Inr ts \<Rightarrow> Inr (Some (set_adds (ts @ tp_tools BASELINE_CORE_PACK) [])))"

definition skill_list :: "(skill_scope \<Rightarrow> string list option) \<Rightarrow> skill_scope option \<Rightarrow> string list" where
  "skill_list field s = (case s of None \<Rightarrow> [] | Some sk \<Rightarrow> coalesce (field sk) [])"

definition role_packs :: "role_scope option \<Rightarrow> string list" where
  "role_packs r = (case r of None \<Rightarrow> [] | Some ro \<Rightarrow> coalesce (ro_packs ro) [])"

definition computeAgentVisibleTools ::
    "agent_grant \<Rightarrow> skill_scope option \<Rightarrow> role_scope option \<Rightarrow> tool_error + visible_tools" where
  "computeAgentVisibleTools g skillScope roleScope =
     (case resolveGrantedToolNames g of
        Inl e \<Rightarrow> Inl e
      | Inr grantedSet \<Rightarrow>
          (case role_allowed (role_packs roleScope) of
             Inl e \<Rightarrow> Inl e
           | Inr roleAllowed \<Rightarrow>
               let (visible, droppedByAllowlist, droppedByRole) =
                     sift (skill_list sk_denied skillScope) (skill_list sk_allowed skillScope) roleAllowed grantedSet
               in Inr \<lparr>vt_visible = visible,
                       vt_confirm = filter (\<lambda>n. n \<in> set visible) (skill_list sk_confirm skillScope),
                       vt_granted_packs = granted_packs g, vt_granted_tools = granted_tools g,
                       vt_denied_by_grant = denied_tools g,
                       vt_skill = (case skillScope of None \<Rightarrow> None | Some sk \<Rightarrow> sk_id sk),
                       vt_skill_allowed = skill_list sk_allowed skillScope,
                       vt_denied_by_skill = skill_list sk_denied skillScope,
                       vt_dropped_by_allowlist = droppedByAllowlist,
                       vt_role = (if role_packs roleScope = [] then None
                                  else case roleScope of None \<Rightarrow> None | Some ro \<Rightarrow> ro_key ro),
                       vt_role_packs = role_packs roleScope, vt_dropped_by_role = droppedByRole\<rparr>))"

text \<open>\<open>resolveSkillToolScope\<close>: the fields of a skill as they are stored, of any type.\<close>

record skill_row =
  sr_id :: "string option"
  sr_descriptor :: "string option"
  sr_allowed :: js
  sr_blocked :: js
  sr_confirm :: js
  sr_hints :: js

definition asStrings :: "js \<Rightarrow> string list" where
  "asStrings v = (case v of Arr xs \<Rightarrow> List.map_filter the_string xs | _ \<Rightarrow> [])"

definition resolveSkillToolScope :: "skill_row \<Rightarrow> skill_scope" where
  "resolveSkillToolScope s =
     \<lparr>sk_id = (case sr_id s of Some i \<Rightarrow> Some i | None \<Rightarrow> sr_descriptor s),
      sk_allowed = Some (asStrings (sr_allowed s)),
      sk_denied = Some (asStrings (sr_blocked s) @ asStrings (js_get ''denied_tools'' (sr_hints s))),
      sk_confirm = Some (asStrings (sr_confirm s) @ asStrings (js_get ''requires_confirmation_for'' (sr_hints s)))\<rparr>"

section \<open>The registry as a person sees it\<close>

definition isToolEnabled :: "(string \<Rightarrow> bool) \<Rightarrow> registry \<Rightarrow> string \<Rightarrow> bool" where
  "isToolEnabled flag_on reg name =
     (case map_of reg name of
        None \<Rightarrow> True
      | Some t \<Rightarrow> (case rt_flag t of None \<Rightarrow> True | Some f \<Rightarrow> flag_on f))"

text \<open>\<open>profiles\<close>: the actions of the profile of each entity; \<open>builds\<close>: a schema can be built for the tool.\<close>

definition getAgentToolSchemas ::
    "(string \<Rightarrow> bool) \<Rightarrow> (registry_tool \<Rightarrow> bool) \<Rightarrow> registry \<Rightarrow> string list \<Rightarrow> string list list \<Rightarrow> registry_tool list" where
  "getAgentToolSchemas flag_on builds reg visible profiles =
     (let isOwner = list_ex (\<lambda>acoes. ''*'' \<in> set acoes) profiles;
          tools = filter (\<lambda>t. rt_name t \<in> set visible \<and> isToolEnabled flag_on reg (rt_name t)) (List.map snd reg)
      in if isOwner then filter builds tools
         else filter builds (filter (\<lambda>t. list_all (\<lambda>a. a \<in> set (concat profiles)) (rt_actions t)) tools))"

section \<open>The runtime filter\<close>

text \<open>A read that can fail: \<open>None\<close> the error, \<open>Some None\<close> no row.\<close>

definition resolveEffectiveGrant :: "agent_grant option option \<Rightarrow> agent_grant" where
  "resolveEffectiveGrant found =
     (case found of Some (Some row) \<Rightarrow> row
      | _ \<Rightarrow> \<lparr>granted_packs = BASE_AGENT_PACKS, granted_tools = [], denied_tools = []\<rparr>)"

definition resolveActiveRoleScope ::
    "(string \<Rightarrow> (string \<times> string list option) option option) \<Rightarrow> string option \<Rightarrow> role_scope option" where
  "resolveActiveRoleScope getByKey key =
     (case key of
        None \<Rightarrow> None
      | Some k \<Rightarrow>
          if k = [] then None
          else (case getByKey k of
                  Some (Some (role_key, packs)) \<Rightarrow> Some \<lparr>ro_key = Some role_key, ro_packs = Some (coalesce packs [])\<rparr>
                | _ \<Rightarrow> None))"

datatype skill_drop = Malformed_Policy string | Not_Admitted block_reason

record filter_input =
  fi_profiles :: "string list list"
  fi_skill :: "skill_scope option"
  fi_audience :: "usage_context option"
  fi_policy :: js
  fi_role :: "string option"

definition effective_skill :: "(js \<Rightarrow> string + usage_policy) \<Rightarrow> filter_input \<Rightarrow> skill_scope option \<times> skill_drop option" where
  "effective_skill zod i =
     (case (fi_skill i, fi_audience i) of
        (Some sk, Some audience) \<Rightarrow>
          (case resolveEffectiveUsagePolicy zod (fi_policy i) of
             Inl e \<Rightarrow> (None, Some (Malformed_Policy e))
           | Inr policy \<Rightarrow>
               (case evaluateUsagePolicy policy audience of
                  Admitted \<Rightarrow> (Some sk, None)
                | Refused reason \<Rightarrow> (None, Some (Not_Admitted reason))))
      | _ \<Rightarrow> (fi_skill i, None))"

record filter_result =
  fr_tools :: "registry_tool list"
  fr_confirm :: "string list"
  fr_grant :: agent_grant
  fr_audit :: "visible_tools \<times> skill_drop option"   \<comment> \<open>the provenance of the audit row\<close>

definition computeRuntimeVisibleTools ::
    "(string \<Rightarrow> bool) \<Rightarrow> (registry_tool \<Rightarrow> bool) \<Rightarrow> registry \<Rightarrow> (js \<Rightarrow> string + usage_policy)
      \<Rightarrow> agent_grant option option \<Rightarrow> (string \<Rightarrow> (string \<times> string list option) option option)
      \<Rightarrow> filter_input \<Rightarrow> tool_error + filter_result" where
  "computeRuntimeVisibleTools flag_on builds reg zod found getByKey i =
     (let g = resolveEffectiveGrant found;
          (skill, dropped) = effective_skill zod i
      in case computeAgentVisibleTools g skill (resolveActiveRoleScope getByKey (fi_role i)) of
           Inl e \<Rightarrow> Inl e
         | Inr composed \<Rightarrow>
             let tools = getAgentToolSchemas flag_on builds reg (vt_visible composed) (fi_profiles i)
             in Inr \<lparr>fr_tools = tools,
                     fr_confirm = filter (\<lambda>n. n \<in> rt_name ` set tools) (vt_confirm composed),
                     fr_grant = g, fr_audit = (composed, dropped)\<rparr>)"

section \<open>The guard of the dispatcher\<close>

datatype dispatch_answer = Unknown_Dispatch | Feature_Disabled | Tool_Disabled | Tool_Not_Granted | Proceeds

text \<open>
  The gates on the tool itself and on the grant; the budget of the turn between them is left out. A name
  that every object inherits finds a function, whose \<open>name\<close> the gate asks for.
\<close>

definition tool_name :: "registry \<Rightarrow> string \<Rightarrow> string option" where
  "tool_name reg n =
     (case map_of reg n of
        Some t \<Rightarrow> Some (rt_name t)
      | None \<Rightarrow> if n = ''__proto__'' then None else if n = ''constructor'' then Some ''Object'' else Some n)"

definition dispatch_gates ::
    "(string \<Rightarrow> bool) \<Rightarrow> registry \<Rightarrow> agent_grant option option \<Rightarrow> string \<Rightarrow> tool_error + dispatch_answer" where
  "dispatch_gates flag_on reg found n =
     (if map_of reg n = None \<and> n \<notin> set OBJECT_PROTOTYPE then Inr Unknown_Dispatch
      else if (case map_of reg n of None \<Rightarrow> False
                 | Some t \<Rightarrow> (case rt_flag t of None \<Rightarrow> False | Some f \<Rightarrow> \<not> flag_on f)) then Inr Feature_Disabled
      else if \<not> isToolEnabled flag_on reg n then Inr Tool_Disabled
      else (case resolveGrantedToolNames (resolveEffectiveGrant found) of
              Inl e \<Rightarrow> Inl e
            | Inr granted \<Rightarrow> Inr (if tool_name reg n \<in> Some ` set granted then Proceeds else Tool_Not_Granted)))"

end
