(* ===== verification/Tool_Visibility.thy ===== *)
theory Tool_Visibility
  imports Tool_Grants
begin

text \<open>
  What the algebra of grants amounts to: the visible set as sets, the errors, the floor every agent has, and
  the composition of the runtime filter with the dispatcher and with the usage policy of a skill.
\<close>

section \<open>Sets of the language\<close>

named_theorems grant_sets \<open>the members of the sets the algebra builds\<close>

lemma set_add_set [simp, grant_sets]: "set (set_add x xs) = insert x (set xs)"
  by (auto simp: set_add_def)

lemma set_adds_set [simp, grant_sets]: "set (set_adds ys xs) = set ys \<union> set xs"
  by (induction ys arbitrary: xs) (auto simp: set_adds_def)

lemma set_adds_distinct [simp]: "distinct xs \<Longrightarrow> distinct (set_adds ys xs)"
  by (induction ys arbitrary: xs) (auto simp: set_adds_def set_add_def)

text \<open>The specification of a list of packs: the tools of those the catalogue has.\<close>

definition pack_tools :: "string list \<Rightarrow> string set" where
  "pack_tools ids = {n. \<exists>i \<in> set ids. \<exists>p. lookup_pack i = Pack p \<and> n \<in> set (tp_tools p)}"

definition inherits :: "string list \<Rightarrow> bool" where
  "inherits ids \<longleftrightarrow> (\<exists>i \<in> set ids. lookup_pack i = Inherited)"

lemma resolve_packs_spec:
  "if inherits ids then resolve_packs ids out = Inl Type_Error
   else \<exists>ns. resolve_packs ids out = Inr ns \<and> set ns = pack_tools ids \<union> set out \<and> (distinct out \<longrightarrow> distinct ns)"
proof (induction ids out rule: resolve_packs.induct)
  case (1 out)
  then show ?case by (simp add: inherits_def pack_tools_def)
next
  case (2 i ids out)
  have tools: "pack_tools (i # ids) = (case lookup_pack i of Pack p \<Rightarrow> set (tp_tools p) | _ \<Rightarrow> {}) \<union> pack_tools ids"
    by (auto simp: pack_tools_def split: pack_lookup.splits)
  show ?case
  proof (cases "lookup_pack i")
    case (Pack p)
    with 2(1) show ?thesis by (auto simp: tools inherits_def split: if_splits)
  next
    case Inherited
    then show ?thesis by (auto simp: inherits_def)
  next
    case No_Pack
    with 2(2) show ?thesis by (auto simp: tools inherits_def split: if_splits)
  qed
qed

lemma resolvePackTools_Inr:
  "resolvePackTools ids = Inr ns \<Longrightarrow> set ns = pack_tools ids \<and> distinct ns \<and> \<not> inherits ids"
  using resolve_packs_spec [of ids "[]"] by (auto simp: resolvePackTools_def split: if_splits)

lemma resolvePackTools_raises: "resolvePackTools ids = Inl e \<longleftrightarrow> inherits ids"
  using resolve_packs_spec [of ids "[]"] by (cases e) (auto simp: resolvePackTools_def split: if_splits)

lemma granted_Inr:
  "resolveGrantedToolNames g = Inr ns \<Longrightarrow>
     set ns = (set (tp_tools BASELINE_CORE_PACK) \<union> pack_tools (granted_packs g) \<union> set (granted_tools g)) - set (denied_tools g)
     \<and> distinct ns"
  by (auto simp: resolveGrantedToolNames_def dest!: resolvePackTools_Inr split: sum.splits)

lemma granted_raises: "resolveGrantedToolNames g = Inl e \<longleftrightarrow> inherits (granted_packs g)"
  using resolvePackTools_raises [of "granted_packs g"]
  by (cases e; cases "resolvePackTools (granted_packs g)") (auto simp: resolveGrantedToolNames_def intro: tool_error.exhaust)

lemma role_allowed_Inr:
  "role_allowed ids = Inr r \<Longrightarrow>
     (case r of None \<Rightarrow> ids = [] | Some ts \<Rightarrow> ids \<noteq> [] \<and> set ts = pack_tools ids \<union> set (tp_tools BASELINE_CORE_PACK))"
  by (auto simp: role_allowed_def dest!: resolvePackTools_Inr split: if_splits sum.splits)

section \<open>The visible set\<close>

lemma sift_spec:
  assumes "sift denied allowed role ns = (v, a, r)"
  shows "v = filter (\<lambda>n. n \<notin> set denied \<and> (allowed = [] \<or> n \<in> set allowed) \<and> (\<forall>ts. role = Some ts \<longrightarrow> n \<in> set ts)) ns"
    and "a = filter (\<lambda>n. n \<notin> set denied \<and> allowed \<noteq> [] \<and> n \<notin> set allowed) ns"
    and "r = filter (\<lambda>n. n \<notin> set denied \<and> (allowed = [] \<or> n \<in> set allowed) \<and> (\<exists>ts. role = Some ts \<and> n \<notin> set ts)) ns"
  using assms by (induction ns arbitrary: v a r) (auto simp: Let_def split: prod.splits if_splits option.splits)

lemma visible_Inr:
  assumes "computeAgentVisibleTools g s r = Inr v"
  obtains ns ro where "resolveGrantedToolNames g = Inr ns" and "role_allowed (role_packs r) = Inr ro"
    and "sift (skill_list sk_denied s) (skill_list sk_allowed s) ro ns
      = (vt_visible v, vt_dropped_by_allowlist v, vt_dropped_by_role v)"
    and "vt_confirm v = filter (\<lambda>n. n \<in> set (vt_visible v)) (skill_list sk_confirm s)"
  using assms by (auto simp: computeAgentVisibleTools_def Let_def split: sum.splits prod.splits)

text \<open>The documented formula: the agent, narrowed by the skill, narrowed by the role.\<close>

definition agent_set :: "agent_grant \<Rightarrow> string set" where
  "agent_set g = (set (tp_tools BASELINE_CORE_PACK) \<union> pack_tools (granted_packs g) \<union> set (granted_tools g)) - set (denied_tools g)"

definition skill_set :: "skill_scope option \<Rightarrow> string set" where
  "skill_set s = (if skill_list sk_allowed s = [] then UNIV else set (skill_list sk_allowed s)) - set (skill_list sk_denied s)"

definition role_set :: "role_scope option \<Rightarrow> string set" where
  "role_set r = (if role_packs r = [] then UNIV else pack_tools (role_packs r) \<union> set (tp_tools BASELINE_CORE_PACK))"

lemma visible_parts:
  assumes "computeAgentVisibleTools g s r = Inr v"
  shows "set (vt_visible v) = agent_set g \<inter> skill_set s \<inter> role_set r" and "distinct (vt_visible v)"
    and "set (vt_dropped_by_allowlist v) = agent_set g - skill_set s - set (vt_denied_by_skill v)"
    and "set (vt_dropped_by_role v) = agent_set g \<inter> skill_set s - role_set r"
    and "set (vt_confirm v) \<subseteq> set (vt_visible v)"
proof -
  from visible_Inr [OF assms] obtain ns ro where ns: "resolveGrantedToolNames g = Inr ns"
    and ro: "role_allowed (role_packs r) = Inr ro"
    and sift: "sift (skill_list sk_denied s) (skill_list sk_allowed s) ro ns
      = (vt_visible v, vt_dropped_by_allowlist v, vt_dropped_by_role v)"
    and confirm: "vt_confirm v = filter (\<lambda>n. n \<in> set (vt_visible v)) (skill_list sk_confirm s)" .
  have denied: "vt_denied_by_skill v = skill_list sk_denied s"
    using assms by (auto simp: computeAgentVisibleTools_def Let_def split: sum.splits prod.splits)
  have role: "(\<forall>ts. ro = Some ts \<longrightarrow> n \<in> set ts) \<longleftrightarrow> n \<in> role_set r" for n
    using role_allowed_Inr [OF ro] by (auto simp: role_set_def split: option.splits)
  then have dropped: "(\<exists>ts. ro = Some ts \<and> n \<notin> set ts) \<longleftrightarrow> n \<notin> role_set r" for n by blast
  note granted = granted_Inr [OF ns, folded agent_set_def]
  show "set (vt_visible v) = agent_set g \<inter> skill_set s \<inter> role_set r" and "distinct (vt_visible v)"
    and "set (vt_dropped_by_allowlist v) = agent_set g - skill_set s - set (vt_denied_by_skill v)"
    and "set (vt_dropped_by_role v) = agent_set g \<inter> skill_set s - role_set r"
    and "set (vt_confirm v) \<subseteq> set (vt_visible v)"
    using granted by (auto simp: sift_spec [OF sift] confirm denied role dropped skill_set_def)
qed

lemmas visible_set = visible_parts(1)

text \<open>
  C34. The visible tools are the documented intersection of agent, skill and role, each once; every tool the
  agent holds is visible, denied by the skill, or reported as dropped by exactly one of the two narrowings;
  and what needs confirmation is visible.
\<close>

theorem visible_is_intersection:
  assumes "computeAgentVisibleTools g s r = Inr v"
  shows "set (vt_visible v) = agent_set g \<inter> skill_set s \<inter> role_set r \<and> distinct (vt_visible v)
     \<and> set (vt_dropped_by_allowlist v) = agent_set g - skill_set s - set (vt_denied_by_skill v)
     \<and> set (vt_dropped_by_role v) = agent_set g \<inter> skill_set s - role_set r
     \<and> set (vt_confirm v) \<subseteq> set (vt_visible v)"
  using visible_parts [OF assms] by simp

definition demo_grant :: agent_grant where
  "demo_grant = \<lparr>granted_packs = [''domain.support'', ''pack.unknown''], granted_tools = [''query_balance''],
     denied_tools = [''ask_pending_question'']\<rparr>"

definition demo_skill :: skill_scope where
  "demo_skill = \<lparr>sk_id = Some ''sk'', sk_allowed = Some [''query_balance'', ''audit_decision'', ''list_pending''],
     sk_denied = Some [''audit_decision''], sk_confirm = Some [''query_balance'']\<rparr>"

definition demo_role :: role_scope where
  "demo_role = \<lparr>ro_key = Some ''r'', ro_packs = Some [''domain.operations'']\<rparr>"

theorem visible_is_intersection_witness:
  "case computeAgentVisibleTools demo_grant (Some demo_skill) (Some demo_role) of
     Inl _ \<Rightarrow> False | Inr v \<Rightarrow> set (vt_visible v) = agent_set demo_grant \<inter> skill_set (Some demo_skill) \<inter> role_set (Some demo_role)"
proof -
  let ?c = "computeAgentVisibleTools demo_grant (Some demo_skill) (Some demo_role)"
  have "case ?c of Inl _ \<Rightarrow> False | Inr v \<Rightarrow> vt_visible v = [''list_pending''] \<and> vt_dropped_by_role v = [''query_balance'']"
    by code_simp
  then obtain v where v: "?c = Inr v" by (auto split: sum.splits)
  from visible_is_intersection [OF v] v show ?thesis by simp
qed

lemma core_pack: "lookup_pack ''baseline.core'' = Pack BASELINE_CORE_PACK"
  by code_simp

lemma no_inherited_pack: "p \<in> set OBJECT_PROTOTYPE \<Longrightarrow> map_of TOOL_PACKS p = None"
proof -
  have "list_all (\<lambda>p. map_of TOOL_PACKS p = None) OBJECT_PROTOTYPE" by code_simp
  then show "p \<in> set OBJECT_PROTOTYPE \<Longrightarrow> map_of TOOL_PACKS p = None" by (auto simp: list_all_iff)
qed

section \<open>The runtime filter and the dispatcher\<close>

definition registry_ok :: "registry \<Rightarrow> bool" where
  "registry_ok reg \<longleftrightarrow> distinct (map fst reg) \<and> (\<forall>(k, t) \<in> set reg. rt_name t = k)"

lemma registry_of: "registry_ok reg \<Longrightarrow> t \<in> snd ` set reg \<Longrightarrow> map_of reg (rt_name t) = Some t"
  by (auto simp: registry_ok_def)

lemma schemas_iff:
  "t \<in> set (getAgentToolSchemas flag_on builds reg visible profiles) \<longleftrightarrow>
     t \<in> snd ` set reg \<and> builds t \<and> rt_name t \<in> set visible \<and> isToolEnabled flag_on reg (rt_name t)
     \<and> ((\<exists>acoes \<in> set profiles. ''*'' \<in> set acoes) \<or> set (rt_actions t) \<subseteq> \<Union> (set ` set profiles))"
  by (auto simp: getAgentToolSchemas_def Let_def list_ex_iff list_all_iff)

lemma runtime_Inr:
  assumes "computeRuntimeVisibleTools flag_on builds reg zod found roles i = Inr v"
  obtains c where "computeAgentVisibleTools (resolveEffectiveGrant found) (fst (effective_skill zod i))
      (resolveActiveRoleScope roles (fi_role i)) = Inr c"
    and "fr_tools v = getAgentToolSchemas flag_on builds reg (vt_visible c) (fi_profiles i)"
    and "fr_confirm v = filter (\<lambda>n. n \<in> rt_name ` set (fr_tools v)) (vt_confirm c)"
  using assms by (auto simp: computeRuntimeVisibleTools_def Let_def split: sum.splits prod.splits)

text \<open>
  C35. The model is never offered a tool the dispatcher refuses for the tool or the grant: with the grant as
  it was read, every exposed tool passes those gates, is on, is not denied to the agent, and its actions are
  among those of the person unless the person is the owner.
\<close>

theorem exposed_tools_dispatchable:
  assumes "registry_ok reg" and "computeRuntimeVisibleTools flag_on builds reg zod found roles i = Inr v"
    and "t \<in> set (fr_tools v)"
  shows "dispatch_gates flag_on reg found (rt_name t) = Inr Proceeds
     \<and> (rt_flag t = None \<or> (\<exists>f. rt_flag t = Some f \<and> flag_on f))
     \<and> rt_name t \<notin> set (denied_tools (resolveEffectiveGrant found))
     \<and> ((\<exists>acoes \<in> set (fi_profiles i). ''*'' \<in> set acoes) \<or> set (rt_actions t) \<subseteq> \<Union> (set ` set (fi_profiles i)))"
proof -
  from runtime_Inr [OF assms(2)] obtain c
    where c: "computeAgentVisibleTools (resolveEffectiveGrant found) (fst (effective_skill zod i))
      (resolveActiveRoleScope roles (fi_role i)) = Inr c"
      and tools: "fr_tools v = getAgentToolSchemas flag_on builds reg (vt_visible c) (fi_profiles i)" .
  note t = assms(3) [unfolded tools schemas_iff]
  from visible_Inr [OF c] obtain ns ro where ns: "resolveGrantedToolNames (resolveEffectiveGrant found) = Inr ns"
    and sift: "sift (skill_list sk_denied (fst (effective_skill zod i))) (skill_list sk_allowed (fst (effective_skill zod i))) ro ns
      = (vt_visible c, vt_dropped_by_allowlist c, vt_dropped_by_role c)" .
  have "rt_name t \<in> set ns" using t sift_spec(1) [OF sift] by auto
  moreover have of: "map_of reg (rt_name t) = Some t" using registry_of [OF assms(1)] t by blast
  moreover have on: "rt_flag t = None \<or> (\<exists>f. rt_flag t = Some f \<and> flag_on f)"
    using t of by (auto simp: isToolEnabled_def split: option.splits)
  ultimately show ?thesis
    using t granted_Inr [OF ns] ns by (auto simp: dispatch_gates_def tool_name_def split: option.splits)
qed

definition demo_registry :: registry where
  "demo_registry = List.map (\<lambda>(n, e). (n, \<lparr>rt_name = n, rt_side_effect = e, rt_actions = [''use''], rt_flag = None\<rparr>))
     ([(''remember_safe_fact'', Effect_Write), (''conversation_state_update'', Effect_Write),
       (''handoff_to_owner'', Effect_Communication), (''query_balance'', Effect_Read)]
      @ List.map (\<lambda>n. (n, Effect_None))
          [''read_turn_context'', ''recall_memory'', ''request_confirmation'', ''audit_decision'', ''explain_limitation'',
           ''risk_signal_classify'', ''conversation_summary_compose''])"

definition demo_input :: filter_input where
  "demo_input = \<lparr>fi_profiles = [[''use'']], fi_skill = Some demo_skill, fi_audience = Some demo_context,
     fi_policy = Null, fi_role = None\<rparr>"

definition demo_visible :: "agent_grant \<Rightarrow> tool_error + filter_result" where
  "demo_visible g = computeRuntimeVisibleTools (\<lambda>_. True) (\<lambda>_. True) demo_registry (\<lambda>_. Inl ''bad'') (Some (Some g))
     (\<lambda>_. None) demo_input"

lemma demo_registry_ok: "registry_ok demo_registry"
  by (simp add: registry_ok_def demo_registry_def)

theorem exposed_tools_dispatchable_witness:
  "case demo_visible demo_grant of
     Inl _ \<Rightarrow> False
   | Inr v \<Rightarrow> (case fr_tools v of [] \<Rightarrow> False
       | t # _ \<Rightarrow> dispatch_gates (\<lambda>_. True) demo_registry (Some (Some demo_grant)) (rt_name t) = Inr Proceeds)"
proof -
  have "case demo_visible demo_grant of Inl _ \<Rightarrow> False | Inr v \<Rightarrow> fr_tools v \<noteq> []" by code_simp
  then obtain v t ts where v: "demo_visible demo_grant = Inr v" "fr_tools v = t # ts"
    by (auto split: sum.splits simp: neq_Nil_conv)
  from exposed_tools_dispatchable [OF demo_registry_ok v(1) [unfolded demo_visible_def], of t] v show ?thesis by simp
qed

text \<open>
  C37. A skill only ever narrows, so dropping it widens: when the policy of the selected skill is malformed or
  refuses the audience, exactly the tools without any skill are exposed, and they include every tool the
  skill would have exposed had it been admitted.
\<close>

theorem refused_skill_widens:
  assumes "fi_skill i = Some sk" and "fi_audience i = Some audience"
    and "\<forall>policy. resolveEffectiveUsagePolicy zod (fi_policy i) = Inr policy \<longrightarrow> evaluateUsagePolicy policy audience \<noteq> Admitted"
    and "computeRuntimeVisibleTools flag_on builds reg zod found roles i = Inr v"
  shows "computeRuntimeVisibleTools flag_on builds reg zod found roles (i\<lparr>fi_skill := None\<rparr>) =
        Inr (v\<lparr>fr_audit := (fst (fr_audit v), None)\<rparr>)
     \<and> (\<exists>w. computeRuntimeVisibleTools flag_on builds reg zod found roles (i\<lparr>fi_audience := None\<rparr>) = Inr w
          \<and> set (fr_tools w) \<subseteq> set (fr_tools v))"
proof -
  have dropped: "fst (effective_skill zod i) = None"
    using assms(1-3) by (auto simp: effective_skill_def split: sum.splits usage_decision.splits)
  have without: "effective_skill zod (i\<lparr>fi_skill := None\<rparr>) = (None, None)"
    by (simp add: effective_skill_def)
  have admitted: "effective_skill zod (i\<lparr>fi_audience := None\<rparr>) = (Some sk, None)"
    using assms(1) by (simp add: effective_skill_def)
  let ?g = "resolveEffectiveGrant found" and ?r = "resolveActiveRoleScope roles (fi_role i)"
  from runtime_Inr [OF assms(4)] obtain c where c: "computeAgentVisibleTools ?g None ?r = Inr c"
    and tools: "fr_tools v = getAgentToolSchemas flag_on builds reg (vt_visible c) (fi_profiles i)"
    unfolding dropped by blast
  have "computeRuntimeVisibleTools flag_on builds reg zod found roles (i\<lparr>fi_skill := None\<rparr>) =
      Inr (v\<lparr>fr_audit := (fst (fr_audit v), None)\<rparr>)"
    using assms(4) dropped
    by (cases "effective_skill zod i") (auto simp: computeRuntimeVisibleTools_def without Let_def split: sum.splits)
  moreover have "\<exists>d. computeAgentVisibleTools ?g (Some sk) ?r = Inr d"
    using c by (auto simp: computeAgentVisibleTools_def Let_def split: sum.splits prod.splits)
  then obtain d where d: "computeAgentVisibleTools ?g (Some sk) ?r = Inr d" ..
  obtain w where w: "computeRuntimeVisibleTools flag_on builds reg zod found roles (i\<lparr>fi_audience := None\<rparr>) = Inr w"
    and wt: "fr_tools w = getAgentToolSchemas flag_on builds reg (vt_visible d) (fi_profiles i)"
    by (simp add: computeRuntimeVisibleTools_def admitted d Let_def)
  have "set (vt_visible d) \<subseteq> set (vt_visible c)"
    using visible_set [OF c] visible_set [OF d] by (auto simp: skill_set_def skill_list_def)
  then have "set (fr_tools w) \<subseteq> set (fr_tools v)" by (auto simp: tools wt schemas_iff)
  ultimately show ?thesis using w by blast
qed

theorem refused_skill_widens_witness:
  "case demo_visible demo_grant of
     Inl _ \<Rightarrow> False
   | Inr v \<Rightarrow> computeRuntimeVisibleTools (\<lambda>_. True) (\<lambda>_. True) demo_registry (\<lambda>_. Inl ''bad'') (Some (Some demo_grant))
        (\<lambda>_. None) (demo_input\<lparr>fi_skill := None\<rparr>) = Inr (v\<lparr>fr_audit := (fst (fr_audit v), None)\<rparr>)"
proof -
  have "case demo_visible demo_grant of Inl _ \<Rightarrow> False | Inr v \<Rightarrow> length (fr_tools v) = 11" by code_simp
  then obtain v where v: "demo_visible demo_grant = Inr v" by (auto split: sum.splits)
  have "\<forall>policy. resolveEffectiveUsagePolicy (\<lambda>_. Inl ''bad'') (fi_policy demo_input) = Inr policy
      \<longrightarrow> evaluateUsagePolicy policy demo_context \<noteq> Admitted"
  proof -
    have "evaluateUsagePolicy CONSERVATIVE_DEFAULT_USAGE_POLICY demo_context \<noteq> Admitted" by code_simp
    then show ?thesis by (simp add: resolveEffectiveUsagePolicy_def safeParseUsagePolicy_def demo_input_def)
  qed
  from refused_skill_widens [OF _ _ this v [unfolded demo_visible_def], of demo_skill] v show ?thesis
    by (simp add: demo_input_def)
qed

text \<open>
  C36. The floor is harmless: once the packs have passed their checks at load, an agent whose grant adds no
  tool and no pack of the catalogue but the baseline is offered only tools that read, or have no effect, or
  are one of the three allowed by name.
\<close>

theorem baseline_floor_harmless:
  assumes "load_packs reg known = Inr ()" and "registry_ok reg"
    and "found = Some (Some g)" and "granted_tools g = []"
    and "\<forall>p \<in> set (granted_packs g). p = ''baseline.core'' \<or> p \<notin> tp_id ` set DOMAIN_PACKS"
    and "computeRuntimeVisibleTools flag_on builds reg zod found roles i = Inr v" and "t \<in> set (fr_tools v)"
  shows "harmless t"
proof -
  from runtime_Inr [OF assms(6)] obtain c
    where c: "computeAgentVisibleTools (resolveEffectiveGrant found) (fst (effective_skill zod i))
      (resolveActiveRoleScope roles (fi_role i)) = Inr c"
      and tools: "fr_tools v = getAgentToolSchemas flag_on builds reg (vt_visible c) (fi_profiles i)" .
  note t = assms(7) [unfolded tools schemas_iff]
  have own: "lookup_pack p = Pack q \<Longrightarrow> q = BASELINE_CORE_PACK \<or> p \<in> tp_id ` set DOMAIN_PACKS" for p q
    by (auto simp: lookup_pack_def TOOL_PACKS_def split: option.splits if_splits dest!: map_of_SomeD)
  have "rt_name t \<in> agent_set g"
    using visible_set [OF c] t by (auto simp: resolveEffectiveGrant_def assms(3))
  then have "rt_name t \<in> set (tp_tools BASELINE_CORE_PACK)"
    using assms(4,5) own core_pack by (fastforce simp: agent_set_def pack_tools_def)
  moreover have "assertConservative reg (tp_tools BASELINE_CORE_PACK) = Inr ()"
    using assms(1) by (auto simp: load_packs_def split: sum.splits)
  ultimately show ?thesis using assertConservative_spec registry_of [OF assms(2)] t by blast
qed

theorem baseline_floor_harmless_witness:
  "case demo_visible (demo_grant\<lparr>granted_packs := [''mcp.files''], granted_tools := []\<rparr>) of
     Inl _ \<Rightarrow> False | Inr v \<Rightarrow> (case fr_tools v of [] \<Rightarrow> False | t # _ \<Rightarrow> harmless t)"
proof -
  let ?g = "demo_grant\<lparr>granted_packs := [''mcp.files''], granted_tools := []\<rparr>"
  have "case demo_visible ?g of Inl _ \<Rightarrow> False | Inr v \<Rightarrow> fr_tools v \<noteq> []" by code_simp
  then obtain v t ts where v: "demo_visible ?g = Inr v" "fr_tools v = t # ts"
    by (auto split: sum.splits simp: neq_Nil_conv)
  have load: "load_packs demo_registry (concat (map tp_tools DOMAIN_PACKS)) = Inr ()" by code_simp
  have "''mcp.files'' \<notin> tp_id ` set DOMAIN_PACKS" by code_simp
  then have "harmless t"
    by (intro baseline_floor_harmless [OF load demo_registry_ok refl _ _ v(1) [unfolded demo_visible_def]]) (simp_all add: v)
  with v show ?thesis by simp
qed

text \<open>
  Resolving a grant raises exactly when one of its packs, or of a role that narrows it, is named like a
  property every object inherits; any other unknown pack grants nothing.
\<close>

lemma grant_resolution_raises:
  "(\<exists>e. computeAgentVisibleTools g s r = Inl e) \<longleftrightarrow>
     (\<exists>p \<in> set (granted_packs g) \<union> set (role_packs r). p \<in> set OBJECT_PROTOTYPE)"
proof -
  have inherited: "lookup_pack p = Inherited \<longleftrightarrow> p \<in> set OBJECT_PROTOTYPE" for p
    using no_inherited_pack [of p] by (auto simp: lookup_pack_def split: option.splits)
  have role: "(\<exists>e. role_allowed ids = Inl e) \<longleftrightarrow> inherits ids" for ids
    using resolvePackTools_raises [of ids] by (auto simp: role_allowed_def inherits_def split: sum.splits)
  have "(\<exists>e. computeAgentVisibleTools g s r = Inl e) \<longleftrightarrow> inherits (granted_packs g) \<or> inherits (role_packs r)"
    using granted_raises [of g] role [of "role_packs r"]
    by (auto simp: computeAgentVisibleTools_def Let_def split: sum.splits prod.splits)
  then show ?thesis by (auto simp: inherits_def inherited)
qed

end
