(* ===== verification/Ndjson_Lines.thy ===== *)
theory Ndjson_Lines
  imports JS_Value "HOL-Library.Word"
begin

text \<open>
  The bounded, incremental reader of the pipe of a worker (src/integrations/hermes/ndjson-lines.ts): bytes
  come in chunks cut anywhere, lines go out. A chunk is a list of octets, a text the list of its UTF-16 code
  units, and the fatal UTF-8 decoder of the platform is written out, the byte order mark it drops included.
\<close>

section \<open>UTF-8\<close>

type_synonym byte = "8 word"

definition newline_byte :: byte where
  "newline_byte = 10"

definition continuation :: "nat \<Rightarrow> nat \<Rightarrow> byte \<Rightarrow> bool" where
  "continuation lo hi b \<longleftrightarrow> lo \<le> unat b \<and> unat b \<le> hi"

definition six_bits :: "byte \<Rightarrow> nat" where
  "six_bits b = unat b mod 64"

text \<open>The code units of a scalar value: one, or a surrogate pair.\<close>

definition utf16_units :: "nat \<Rightarrow> nat list" where
  "utf16_units c = (if c < 65536 then [c] else [55296 + (c - 65536) div 1024, 56320 + (c - 65536) mod 1024])"

fun utf8_decode :: "byte list \<Rightarrow> nat list option" where
  "utf8_decode [] = Some []"
| "utf8_decode (a # bs) =
     (let n = unat a
      in if n < 128 then map_option ((#) n) (utf8_decode bs)
         else if n < 194 then None
         else if n < 224 then
           (case bs of
              b # cs \<Rightarrow> if continuation 128 191 b
                        then map_option ((@) (utf16_units ((n - 192) * 64 + six_bits b))) (utf8_decode cs) else None
            | _ \<Rightarrow> None)
         else if n < 240 then
           (case bs of
              b # c # cs \<Rightarrow>
                if continuation (if n = 224 then 160 else 128) (if n = 237 then 159 else 191) b \<and> continuation 128 191 c
                then map_option ((@) (utf16_units ((n - 224) * 4096 + six_bits b * 64 + six_bits c))) (utf8_decode cs)
                else None
            | _ \<Rightarrow> None)
         else if n < 245 then
           (case bs of
              b # c # d # cs \<Rightarrow>
                if continuation (if n = 240 then 144 else 128) (if n = 244 then 143 else 191) b
                   \<and> continuation 128 191 c \<and> continuation 128 191 d
                then map_option ((@) (utf16_units ((n - 240) * 262144 + six_bits b * 4096 + six_bits c * 64 + six_bits d)))
                       (utf8_decode cs)
                else None
            | _ \<Rightarrow> None)
         else None)"

text \<open>\<open>decode\<close> drops one leading byte order mark.\<close>

definition text_decode :: "byte list \<Rightarrow> nat list option" where
  "text_decode bs = utf8_decode (if take 3 bs = [239, 187, 191] then drop 3 bs else bs)"

text \<open>\<open>text.replace(/\r$/, '')\<close>.\<close>

definition strip_cr :: "nat list \<Rightarrow> nat list" where
  "strip_cr t = (if t \<noteq> [] \<and> last t = 13 then butlast t else t)"

section \<open>The splitter\<close>

datatype line_event = Line "nat list" | Invalid_Utf8 | Overflow nat

record splitter =
  max_line_bytes :: nat
  pending :: "byte list list"
  pending_bytes :: nat
  stopped :: bool

definition new_splitter :: "js_number \<Rightarrow> splitter option" where
  "new_splitter limit =
     (case limit of
        Fin r \<Rightarrow> if of_int \<lfloor>r\<rfloor> \<noteq> r \<or> r < 1 then None
                 else Some \<lparr>max_line_bytes = nat \<lfloor>r\<rfloor>, pending = [], pending_bytes = 0, stopped = False\<rparr>
      | _ \<Rightarrow> None)"

definition line_of :: "byte list \<Rightarrow> line_event" where
  "line_of bs = (case text_decode bs of None \<Rightarrow> Invalid_Utf8 | Some t \<Rightarrow> Line (strip_cr t))"

definition takeLine :: "splitter \<Rightarrow> line_event \<times> splitter" where
  "takeLine s = (line_of (concat (pending s)), s\<lparr>pending := [], pending_bytes := 0\<rparr>)"

text \<open>The loop of \<open>feed\<close> from the position whose remaining bytes are \<open>bs\<close>.\<close>

function feed_from :: "splitter \<Rightarrow> byte list \<Rightarrow> line_event list \<times> splitter" where
  "feed_from s bs =
     (if bs = [] then ([], s)
      else
        let piece = takeWhile (\<lambda>b. b \<noteq> newline_byte) bs;
            rest = dropWhile (\<lambda>b. b \<noteq> newline_byte) bs;
            n = pending_bytes s + length piece
        in if max_line_bytes s < n
           then ([Overflow n], s\<lparr>pending := [], pending_bytes := 0, stopped := True\<rparr>)
           else
             let s1 = s\<lparr>pending := (if piece = [] then pending s else pending s @ [piece]), pending_bytes := n\<rparr>
             in case rest of
                  [] \<Rightarrow> ([], s1)
                | _ # rest' \<Rightarrow>
                    let (e, s2) = takeLine s1; (es, s3) = feed_from s2 rest'
                    in (e # es, s3))"
  by pat_completeness auto
termination
proof (relation "measure (\<lambda>(s, bs). length bs)")
  fix s :: splitter and bs rest :: "byte list" and x x21 x22 and xa :: line_event and y
  assume "rest = dropWhile (\<lambda>b. b \<noteq> newline_byte) bs" and "rest = x21 # x22"
  then have "length (x21 # x22) \<le> length bs" by (metis length_dropWhile_le)
  then show "((y, x22), s, bs) \<in> measure (\<lambda>(s, bs). length bs)" by simp
qed auto

declare feed_from.simps [simp del]

definition feed :: "splitter \<Rightarrow> byte list \<Rightarrow> line_event list \<times> splitter" where
  "feed s chunk = (if stopped s then ([], s) else feed_from s chunk)"

definition end_of_stream :: "splitter \<Rightarrow> line_event list \<times> splitter" where
  "end_of_stream s =
     (if stopped s \<or> pending_bytes s = 0 then ([], s)
      else let (e, s') = takeLine s in ([e], s'\<lparr>stopped := True\<rparr>))"

text \<open>A connection: the chunks as they come, then the end.\<close>

fun feed_all :: "splitter \<Rightarrow> byte list list \<Rightarrow> line_event list \<times> splitter" where
  "feed_all s [] = ([], s)"
| "feed_all s (c # cs) = (let (es, s') = feed s c; (fs, s'') = feed_all s' cs in (es @ fs, s''))"

definition connection :: "splitter \<Rightarrow> byte list list \<Rightarrow> line_event list" where
  "connection s chunks = (let (es, s') = feed_all s chunks in es @ fst (end_of_stream s'))"

section \<open>The specification\<close>

text \<open>
  The lines of a whole stream: cut at the newlines, a line over the limit ends everything, a last line
  without newline counts unless it is empty. The size an overflow reports depends on the cut into chunks.
\<close>

datatype line_kind = Text "nat list" | Broken | Too_Long

fun kind_of :: "line_event \<Rightarrow> line_kind" where
  "kind_of (Line t) = Text t"
| "kind_of Invalid_Utf8 = Broken"
| "kind_of (Overflow n) = Too_Long"

fun stream_lines :: "nat \<Rightarrow> byte list \<Rightarrow> byte list \<Rightarrow> line_kind list" where
  "stream_lines limit acc [] = (if acc = [] then [] else [kind_of (line_of acc)])"
| "stream_lines limit acc (b # bs) =
     (if b = newline_byte then kind_of (line_of acc) # stream_lines limit [] bs
      else if limit \<le> length acc then [Too_Long] else stream_lines limit (acc @ [b]) bs)"

definition splitter_ok :: "splitter \<Rightarrow> bool" where
  "splitter_ok s \<longleftrightarrow> pending_bytes s = length (concat (pending s)) \<and> pending_bytes s \<le> max_line_bytes s
     \<and> (stopped s \<longrightarrow> pending s = [])"

lemma stream_lines_piece:
  assumes "newline_byte \<notin> set piece" and "length acc \<le> limit"
  shows "stream_lines limit acc (piece @ rest) =
     (if limit < length acc + length piece then [Too_Long] else stream_lines limit (acc @ piece) rest)"
  using assms
proof (induction piece arbitrary: acc)
  case (Cons b piece)
  then show ?case
    by (cases "limit \<le> length acc") (auto simp: Cons.IH [of "acc @ [b]"])
qed simp

lemma line_pieces:
  "bs = takeWhile (\<lambda>b. b \<noteq> newline_byte) bs @ dropWhile (\<lambda>b. b \<noteq> newline_byte) bs"
  "newline_byte \<notin> set (takeWhile (\<lambda>b. b \<noteq> newline_byte) bs)"
  by (auto dest: set_takeWhileD)

lemma feed_from_refines:
  assumes "feed_from s bs = (es, s')" and "splitter_ok s" and "\<not> stopped s"
  shows "splitter_ok s' \<and> max_line_bytes s' = max_line_bytes s
     \<and> stream_lines (max_line_bytes s) (concat (pending s)) (bs @ rem) =
        map kind_of es @ (if stopped s' then [] else stream_lines (max_line_bytes s) (concat (pending s')) rem)"
  using assms
proof (induction s bs arbitrary: es s' rule: feed_from.induct)
  case (1 s bs)
  let ?piece = "takeWhile (\<lambda>b. b \<noteq> newline_byte) bs" and ?rest = "dropWhile (\<lambda>b. b \<noteq> newline_byte) bs"
  let ?n = "pending_bytes s + length ?piece"
  let ?s1 = "s\<lparr>pending := (if ?piece = [] then pending s else pending s @ [?piece]), pending_bytes := ?n\<rparr>"
  have cat: "concat (pending ?s1) = concat (pending s) @ ?piece" by simp
  have len: "length (concat (pending s)) = pending_bytes s" "pending_bytes s \<le> max_line_bytes s"
    using "1.prems"(2) by (simp_all add: splitter_ok_def)
  have step: "stream_lines (max_line_bytes s) (concat (pending s)) (bs @ rem) =
      (if max_line_bytes s < ?n then [Too_Long]
       else stream_lines (max_line_bytes s) (concat (pending s) @ ?piece) (?rest @ rem))"
    using stream_lines_piece [OF line_pieces(2) [of bs], of "concat (pending s)" "max_line_bytes s" "?rest @ rem"] len
    by (simp flip: append_assoc)
  show ?case
  proof (cases "bs = []")
    case True
    with "1.prems" show ?thesis by (auto simp: feed_from.simps)
  next
    case nonempty: False
    show ?thesis
    proof (cases "max_line_bytes s < ?n")
      case True
      with nonempty "1.prems" show ?thesis
        unfolding step by (auto simp: feed_from.simps [of s bs] Let_def splitter_ok_def)
    next
      case fits: False
      then have ok1: "splitter_ok ?s1" using "1.prems"(2) cat by (simp add: splitter_ok_def "1.prems"(3) del: concat_append)
      show ?thesis
      proof (cases ?rest)
        case Nil
        with nonempty fits "1.prems" have "es = [] \<and> s' = ?s1"
          by (auto simp: feed_from.simps [of s bs] Let_def)
        then show ?thesis using ok1 "1.prems"(3) cat fits unfolding step by (simp add: Nil del: concat_append)
      next
        case (Cons b rest')
        then have "b = newline_byte" using hd_dropWhile [of "\<lambda>b. b \<noteq> newline_byte" bs] by simp
        obtain e s2 where take: "takeLine ?s1 = (e, s2)" by fastforce
        obtain fs s3 where rec: "feed_from s2 rest' = (fs, s3)" by fastforce
        have s2: "s2 = ?s1\<lparr>pending := [], pending_bytes := 0\<rparr>" "e = line_of (concat (pending s) @ ?piece)"
          using take cat by (simp_all add: takeLine_def)
        have res: "es = e # fs \<and> s' = s3"
          using nonempty fits "1.prems"(1) Cons take rec by (auto simp: feed_from.simps [of s bs] Let_def)
        have "splitter_ok s2" "\<not> stopped s2" using "1.prems"(3) by (simp_all add: s2 splitter_ok_def)
        from "1.IH" [OF nonempty refl refl refl fits refl Cons take [symmetric] refl rec this]
        show ?thesis using res fits unfolding step
          by (simp add: Cons \<open>b = newline_byte\<close> s2)
      qed
    qed
  qed
qed

lemma feed_refines:
  assumes "feed s bs = (es, s')" and "splitter_ok s"
  shows "splitter_ok s' \<and> max_line_bytes s' = max_line_bytes s \<and> (stopped s \<longrightarrow> es = [] \<and> stopped s')
     \<and> (\<not> stopped s \<longrightarrow> stream_lines (max_line_bytes s) (concat (pending s)) (bs @ rem) =
          map kind_of es @ (if stopped s' then [] else stream_lines (max_line_bytes s) (concat (pending s')) rem))"
  using assms feed_from_refines [of s bs es s' rem] by (auto simp: feed_def split: if_splits)

lemma feed_all_refines:
  assumes "feed_all s chunks = (es, s')" and "splitter_ok s"
  shows "splitter_ok s' \<and> max_line_bytes s' = max_line_bytes s \<and> (stopped s \<longrightarrow> es = [] \<and> stopped s')
     \<and> (\<not> stopped s \<longrightarrow> stream_lines (max_line_bytes s) (concat (pending s)) (concat chunks @ rem) =
          map kind_of es @ (if stopped s' then [] else stream_lines (max_line_bytes s) (concat (pending s')) rem))"
  using assms
proof (induction s chunks arbitrary: es s' rule: feed_all.induct)
  case (2 s c cs)
  obtain fs s1 gs s2 where fs: "feed s c = (fs, s1)" and gs: "feed_all s1 cs = (gs, s2)" by fastforce
  then have res: "es = fs @ gs \<and> s' = s2" using "2.prems"(1) by auto
  note one = feed_refines [OF fs "2.prems"(2), of "concat cs @ rem"]
  note rest = "2.IH" [OF fs [symmetric] refl gs] one
  show ?case using one rest res by auto
qed simp

lemma connection_refines:
  assumes "splitter_ok s" and "pending s = []" and "\<not> stopped s"
  shows "map kind_of (connection s chunks) = stream_lines (max_line_bytes s) [] (concat chunks)"
    and "length (concat (pending (snd (feed_all s chunks)))) \<le> max_line_bytes s"
proof -
  obtain es s' where run: "feed_all s chunks = (es, s')" by fastforce
  note fin = feed_all_refines [OF run assms(1), of "[]"]
  have "map kind_of (fst (end_of_stream s')) = (if stopped s' then [] else stream_lines (max_line_bytes s) (concat (pending s')) [])"
    using fin by (auto simp: end_of_stream_def takeLine_def splitter_ok_def)
  with fin assms show "map kind_of (connection s chunks) = stream_lines (max_line_bytes s) [] (concat chunks)"
    and "length (concat (pending (snd (feed_all s chunks)))) \<le> max_line_bytes s"
    by (simp_all add: connection_def run splitter_ok_def)
qed

text \<open>
  C38. How the pipe cuts the stream into chunks does not matter: the lines of a connection, to the size an
  overflow reports, are those of its whole stream, and meanwhile the reader never holds rem bytes than the
  limit of one line.
\<close>

theorem lines_of_any_chunking:
  assumes "new_splitter limit = Some s"
  shows "map kind_of (connection s chunks) = stream_lines (max_line_bytes s) [] (concat chunks)
     \<and> length (concat (pending (snd (feed_all s chunks)))) \<le> max_line_bytes s"
proof -
  have "splitter_ok s" "pending s = []" "\<not> stopped s"
    using assms by (auto simp: new_splitter_def splitter_ok_def split: js_number.splits if_splits)
  then show ?thesis using connection_refines by simp
qed

lemmas line_texts = line_of_def text_decode_def strip_cr_def newline_byte_def continuation_def six_bits_def utf16_units_def

definition demo_splitter :: splitter where
  "demo_splitter = \<lparr>max_line_bytes = 4, pending = [], pending_bytes = 0, stopped = False\<rparr>"

text \<open>The bytes of \<open>{}\r\n\<close>, an e with acute accent, a broken byte and a newline, cut within the accent.\<close>

definition demo_chunks :: "byte list list" where
  "demo_chunks = [[123], [125, 13, 10, 195], [169, 10, 255, 10], [97, 97], [97, 97, 97]]"

theorem lines_of_any_chunking_witness:
  "map kind_of (connection demo_splitter demo_chunks) = [Text [123, 125], Text [233], Broken, Too_Long]"
proof -
  have "new_splitter (Fin 4) = Some demo_splitter" by (simp add: new_splitter_def demo_splitter_def)
  from lines_of_any_chunking [OF this, of demo_chunks]
  have "map kind_of (connection demo_splitter demo_chunks) = stream_lines 4 [] (concat demo_chunks)"
    by (simp add: demo_splitter_def)
  also have "\<dots> = [Text [123, 125], Text [233], Broken, Too_Long]" by (simp add: demo_chunks_def line_texts)
  finally show ?thesis .
qed

lemma stream_lines_line:
  assumes "newline_byte \<notin> set l" and "length l \<le> limit"
  shows "stream_lines limit [] (l @ newline_byte # rest) = kind_of (line_of l) # stream_lines limit [] rest"
  using stream_lines_piece [of l "[]" limit "newline_byte # rest"] assms by simp

lemma stream_lines_lines:
  "\<forall>l \<in> set ls. newline_byte \<notin> set l \<and> length l \<le> limit \<Longrightarrow>
     stream_lines limit [] (concat (map (\<lambda>l. l @ [newline_byte]) ls)) = map (\<lambda>l. kind_of (line_of l)) ls"
  by (induction ls) (simp_all add: stream_lines_line)

lemma kind_of_line: "kind_of e = kind_of (line_of l) \<Longrightarrow> e = line_of l"
  by (cases e) (auto simp: line_of_def split: option.splits)

text \<open>
  What a worker writes as lines arrives as those lines: lines within the limit, each closed by a
  newline, come out one by one, decoded, however the pipe cuts them.
\<close>

lemma lines_roundtrip:
  assumes "new_splitter limit = Some s" and "\<forall>l \<in> set ls. newline_byte \<notin> set l \<and> length l \<le> max_line_bytes s"
    and "concat chunks = concat (map (\<lambda>l. l @ [newline_byte]) ls)"
  shows "connection s chunks = map line_of ls"
proof -
  have "splitter_ok s" "pending s = []" "\<not> stopped s"
    using assms(1) by (auto simp: new_splitter_def splitter_ok_def split: js_number.splits if_splits)
  then have "map kind_of (connection s chunks) = stream_lines (max_line_bytes s) [] (concat chunks)"
    using connection_refines by simp
  also have "\<dots> = map kind_of (map line_of ls)"
    unfolding assms(3) by (simp add: stream_lines_lines [OF assms(2)] comp_def)
  finally have kinds: "list_all2 (\<lambda>e l. kind_of e = kind_of (line_of l)) (connection s chunks) ls"
    by (simp add: list_all2_conv_all_nth list_eq_iff_nth_eq)
  have "list_all2 (\<lambda>e l. e = line_of l) (connection s chunks) ls"
    by (rule list_all2_mono [OF kinds kind_of_line])
  then show ?thesis by (simp add: list_all2_conv_all_nth list_eq_iff_nth_eq)
qed

lemma lines_roundtrip_witness:
  "connection demo_splitter [[123, 125], [13], [10, 195], [169, 10]] = [Line [123, 125], Line [233]]"
proof -
  have "new_splitter (Fin 4) = Some demo_splitter" by (simp add: new_splitter_def demo_splitter_def)
  moreover have "\<forall>l \<in> set [[123, 125, 13], [195, 169]]. newline_byte \<notin> set l \<and> length l \<le> max_line_bytes demo_splitter"
    by (simp add: newline_byte_def demo_splitter_def)
  moreover have "concat [[123, 125], [13], [10, 195], [169, 10]] =
      concat (map (\<lambda>l. l @ [newline_byte]) [[123, 125, 13], [195, 169]])"
    by (simp add: newline_byte_def)
  ultimately have "connection demo_splitter [[123, 125], [13], [10, 195], [169, 10]] = map line_of [[123, 125, 13], [195, 169]]"
    by (rule lines_roundtrip)
  also have "\<dots> = [Line [123, 125], Line [233]]" by (simp add: line_texts)
  finally show ?thesis .
qed

end
