(* ===== verification/Spec2Isabelle.thy ===== *)
theory Spec2Isabelle
  imports Turn_System Poison_Policy Stream_Key Policy_Validator Circuit_Session Canonical_Json Control_System Tool_Visibility Ndjson_Lines
begin

text \<open>
  \<^bold>\<open>Maia: the durable core of an agent platform.\<close>

  Maia answers messages with agents. Every inbound message becomes a durable \<^emph>\<open>turn\<close> in PostgreSQL, and
  the turns of one conversation form a \<^emph>\<open>stream\<close> that must be served one at a time and in order by a fleet
  of workers that crash, pause and race. Around the turn stand what an agent may do and what it may spend:
  the human who takes a conversation over, the tools it was granted, the policies that gate an action, the
  breaker and the ledger in front of a model, and the delivery of what it says. This development models the parts that promise
  something about state, one group of theories each, and proves those promises.

  \<^bold>\<open>Theories.\<close> In the order they build on each other:
  \<^item> \<open>Prelude\<close>: identifiers, instants, comparison with NULL, UPDATE .. WHERE, ORDER BY .. LIMIT 1.
  \<^item> \<^bold>\<open>Turns\<close> (src/runtime/turns/contract.ts, claim.ts, src/db/repositories/turn-repos.ts and its SQL fragments).
    \<open>Turn_Contract\<close>: states, outcomes, transition tables, the check. \<open>Turn_Store\<close>: tables, predicates,
    constraints of migrations 097, 115, 124. \<open>Turn_Evolution\<close>: the contract of an operation (locales
    \<open>turn_operation\<close>, \<open>automatic_operation\<close>). \<open>Turn_Transition\<close>, \<open>Turn_Methods\<close>: the compare-and-swap, promotion,
    block, and the methods on it. \<open>Turn_Claim\<close>: claim, recovery, renewal, sweep. \<open>Turn_Ingress\<close>: sequence, ingress,
    debounce. \<open>Turn_System\<close>: reachable states and runs. \<open>Turn_Samples\<close>: rows of the witnesses.
    \<open>Poison_Policy\<close>, \<open>Stream_Key\<close>: poison-policy.ts and stream-key.ts.
  \<^item> \<^bold>\<open>Governance policies\<close> (src/governance/policy-dsl). \<open>JS_Value\<close>: values of the language. \<open>Regex_Cache\<close>,
    \<open>Policy_Evaluator\<close>, \<open>Policy_Validator\<close>: cache, evaluator, enforcement, validator. \<open>Policy_Laws\<close>, \<open>Policy_Rules\<close>: their laws.
  \<^item> \<^bold>\<open>Circuit breaker\<close> (src/lib/llm/circuit-mode.ts, circuit-breaker.ts). \<open>Circuit_Mode\<close>: posture and overrides.
    \<open>Circuit_Breaker\<close>: entries, permits, acquisition, release. \<open>Circuit_Session\<close>: sessions and their invariants.
  \<^item> \<^bold>\<open>Wire\<close> (src/integrations/hermes). \<open>Json_Text\<close>: numbers and strings of JSON and a reader.
    \<open>Canonical_Json\<close>: canonical-json.ts over a heap of objects. \<open>Ndjson_Lines\<close>: ndjson-lines.ts with UTF-8.
    \<open>Usage_Accounting\<close>: cost-accounting.ts.
  \<^item> \<^bold>\<open>Inference ledger\<close> (cost-reservation.ts, inference-gateway.ts, src/db/repositories/inference-repos.ts).
    \<open>Inference_Grant\<close>: decision and validation. \<open>Inference_Ledger\<close>: tables and transactions. \<open>Inference_Session\<close>:
    the locale \<open>ledger_operation\<close> and its interpretations. \<open>Inference_System\<close>: reachable ledgers.
  \<^item> \<^bold>\<open>Conversation control\<close> (src/db/repositories/conversation-control-repo.ts). \<open>Conversation_Control\<close>: pause,
    reconciliation, resume. \<open>Control_Backlog\<close>: the discard through the turn store. \<open>Control_Session\<close>: the locale
    \<open>control_operation\<close>. \<open>Control_System\<close>: reachable states, with the ledger it fences. \<open>Control_Samples\<close>.
  \<^item> \<^bold>\<open>Tools\<close> (src/tools/grant-math.ts, packs.ts, runtime-filter.ts, src/skills/usage-policy.ts). \<open>Tool_Packs\<close>: the packs
    and the checks at load. \<open>Usage_Policy\<close>: who may use a skill. \<open>Tool_Grants\<close>: grants, the filter, the gates of the
    dispatcher. \<open>Tool_Visibility\<close>: their laws.

  \<^bold>\<open>Correspondence.\<close> A table is a list of records in no particular order; a row has every column an
  operation reads or writes. A statement is \<open>update_where\<close> with the WHERE as a predicate; a
  comparison with NULL selects nothing. A transaction is one function from database to result and
  database; an exception carries no database, so it undoes everything. The clock of the
  database, generated ids and tokens, and the row lock of SKIP LOCKED are arguments. Every public
  operation is one atomic step of a step relation (\<open>turn_step\<close>, \<open>ledger_step\<close>, \<open>control_step\<close>), in any order, for any
  scope, clock and configuration: the row locks and the unique indexes of the code are what makes its
  transactions behave so. Where a transaction reads before it holds its lock, the operation takes both states.
  \<open>gen_random_uuid()\<close> is only assumed not to repeat a claim token. Values of JavaScript are the datatypes of
  \<open>JS_Value\<close>, or addresses of a heap where sharing and cycles matter; an exception is the left value of a sum.

  \<^bold>\<open>What the lemmas show.\<close> Each operation of a store is interpreted as an instance of its contract: it keeps
  identity, scope and the constraints of the tables, moves versions and epochs only forward, changes no other
  tenant and no ended row. From these laws the properties of reachable states and runs follow by induction
  on the steps. The pure modules are proved equal to a specification: three-valued logic for policies, deep
  equality for digests, sums for the ledger, set algebra for grants, the lines of the whole stream for chunks.

  \<^bold>\<open>Parameters.\<close> Code outside the repository is an argument: SHA-256, the regular expression engine and
  safe-regex2, the schema library, the power function of the engine, the reads of tables that other modules own. What is assumed
  of them is a hypothesis of the property (for SHA-256, that it does not collide on the two texts at hand).

  \<^bold>\<open>Bounds.\<close> No fuel is used in a model: every loop is a recursion on a list, a number, the depth of a
  predicate, or the objects not yet on the path. The reader of JSON, a specification only, has the length of its
  text as fuel, which is enough for every text the encoder writes. Text is modelled on code units below 256.

  \<^bold>\<open>Not modelled.\<close> Metrics, logs and wording of errors; the redaction of error summaries; the backfill
  of old rows and the snapshot queries; foreign keys, whose targets are never deleted; the lifecycle and heartbeat of a
  worker, which are timers and promises around the operations modelled here; HTTP, console, gateway, and the clients of
  model providers, which carry no algorithm that could be stated without the services behind them.
\<close>

section \<open>Properties of the turn store as a system\<close>

text \<open>
  C1. Exclusion by stream: in every reachable state, whatever workers, tenants, clocks and
  crashes did, two turns of the same stream are never claimed or running at the same time.
\<close>

theorem stream_exclusion:
  assumes "reachable (d, ks)" and "q \<in> set (turns d)" and "r \<in> set (turns d)"
    and "t_status q \<in> {Claimed, Running}" and "t_status r \<in> {Claimed, Running}"
    and "t_stream q = Some s" and "t_stream r = Some s"
    and "t_tenant q = t_tenant r" and "t_agent q = t_agent r"
  shows "q = r"
proof -
  from reachable_store_ok [OF assms(1)] have ok: "store_ok d" by simp
  with assms(2-) show ?thesis
    using store_ok_uq [OF ok, unfolded uq_iff [OF store_ok_ids [OF ok]]]
    by (auto simp: occupies_def stream_slot_def status_simps)
qed

text \<open>A reachable state with a claimed turn, for the witnesses.\<close>

definition demo_ingress :: "uuid \<Rightarrow> db \<Rightarrow> db" where
  "demo_ingress n d =
     committed (createReceivedTurnTx demo_config 5 demo_scope
       ((demo_message n)\<lparr>m_whatsapp := None\<rparr>) None None (Some (''s'', 1)) (n + 1) (n + 2) d) d"

definition demo_claim :: "uuid \<Rightarrow> uuid \<Rightarrow> instant \<Rightarrow> db \<Rightarrow> db" where
  "demo_claim tid k now d = snd (claimNextEligibleTurn demo_config now demo_scope tid ''w'' 30 k d)"

definition demo_state :: db where
  "demo_state = demo_claim 11 7 9 (demo_ingress 20 (demo_ingress 10 empty_db))"

lemma demo_ingress_step: "turn_step False demo_scope (d, ks) (demo_ingress n d, ks)"
  unfolding demo_ingress_def by (rule step_ingress)

lemma demo_claim_step:
  "k \<notin> ks \<Longrightarrow> turn_step False demo_scope (d, ks) (demo_claim tid k now d, insert k ks)"
  unfolding demo_claim_def by (rule step_claim)

lemma demo_reachable: "reachable (demo_state, {7})"
  unfolding demo_state_def
  by (rule reachable_step [OF reachable_step [OF reachable_step [OF reachable_init
        demo_ingress_step] demo_ingress_step] demo_claim_step]) simp

theorem stream_exclusion_witness:
  "\<exists>q \<in> set (turns demo_state). t_status q = Claimed
     \<and> (\<forall>r \<in> set (turns demo_state). t_status r \<in> {Claimed, Running} \<and> t_stream r = Some ''s''
           \<and> t_tenant r = ''t'' \<and> t_agent r = ''a'' \<longrightarrow> r = q)"
proof -
  have "list_ex (\<lambda>q. t_status q = Claimed \<and> t_stream q = Some ''s'' \<and> t_tenant q = ''t''
      \<and> t_agent q = ''a'') (turns demo_state)" by code_simp
  then obtain q where q: "q \<in> set (turns demo_state)" "t_status q = Claimed"
    "t_stream q = Some ''s''" "t_tenant q = ''t''" "t_agent q = ''a''" by (auto simp: list_ex_iff)
  have "r = q" if "r \<in> set (turns demo_state)" "t_status r \<in> {Claimed, Running}" "t_stream r = Some ''s''"
    "t_tenant r = ''t''" "t_agent r = ''a''" for r
    using stream_exclusion [OF demo_reachable that(1) q(1) that(2) _ that(3) q(3)] q that by simp
  with q(1,2) show ?thesis by blast
qed

text \<open>
  Every row of a reachable store has an outcome exactly when it has ended, the outcome is
  one its state admits, and only a superseded turn names an absorber, never itself.
\<close>

lemma outcome_partition:
  assumes "reachable (d, ks)" and "r \<in> set (turns d)"
  shows "(isTerminalTurnStatus (t_status r) = (t_outcome r \<noteq> None))
    \<and> t_outcome r \<in> insert None (Some ` set (TERMINAL_OUTCOMES (t_status r)))
    \<and> (t_superseded_by r = None \<or> t_status r = Superseded \<and> t_superseded_by r \<noteq> Some (t_id r))"
proof -
  have "store_ok d" using reachable_store_ok [OF assms(1)] by simp
  then have "row_checks r" using assms(2) by (rule store_ok_checks)
  then show ?thesis
    by (cases "t_status r") (auto simp: row_checks_def agent_turns_superseded_by_chk_def)
qed

lemma outcome_partition_witness:
  "list_all (\<lambda>r. isTerminalTurnStatus (t_status r) = (t_outcome r \<noteq> None)) (turns demo_state)"
  using outcome_partition [OF demo_reachable] by (simp add: list_all_iff)

text \<open>
  C2. A worker that lost its claim never writes again: once a turn no longer carries an issued
  token, no run of the system brings the token back to this turn, and in every later state a
  transition, a renewal or a release with that token is refused and changes nothing.
\<close>

theorem stale_token_never_writes:
  assumes "reachable s" and "turn_run b s s'" and "k \<in> snd s"
    and "r \<in> set (turns (fst s))" and "in_scope sc r" and "t_token r \<noteq> Some k"
    and "ti_token i = Some k" and "ti_turn i = t_id r"
  shows "\<not> commits (transitionTurn cfg now bid sc i (fst s'))
    \<and> committed (transitionTurn cfg now bid sc i (fst s')) (fst s') = fst s'
    \<and> renewTurnLease now sc (t_id r) k ms (fst s') = (None, fst s')
    \<and> releaseTurnClaim now sc (t_id r) k (fst s') = (False, fst s')"
proof -
  let ?d = "fst s'"
  have ok: "store_ok (fst s)" "store_ok ?d"
    using reachable_store_ok [OF assms(1)] reachable_store_ok [OF run_reachable [OF assms(2,1)]] .
  have lost: "t_token q \<noteq> Some k" if "q \<in> set (turns ?d)" "t_id q = t_id r" for q
    using run_row_of(2) [OF assms(2) ok(1) assms(4) that assms(3,6)] .
  have no: "\<not> commits (transitionTurn cfg now bid sc i ?d)"
    using fenced_transition_row [OF _ assms(7), of cfg now bid sc ?d] lost assms(8)
    unfolding commits_iff by metis
  moreover have "committed (transitionTurn cfg now bid sc i ?d) ?d = ?d"
  proof (cases "transitionTurn cfg now bid sc i ?d")
    case (Inr x)
    then obtain c d' where "transitionTurn cfg now bid sc i ?d = Inr (Inl c, d')"
      using no by (cases x; cases "fst x") (auto simp: commits_def)
    with transition_conflict_unchanged show ?thesis by fastforce
  qed simp
  moreover have "renewTurnLease now sc (t_id r) k ms ?d = (None, ?d)"
    using lost by (auto simp: renewTurnLease_def list_ex_iff renew_cond_def is_turn_def)
  moreover have "releaseTurnClaim now sc (t_id r) k ?d = (False, ?d)"
  proof -
    have "\<forall>q \<in> set (turns ?d). \<not> release_cond sc (t_id r) k q"
      using lost by (auto simp: release_cond_def is_turn_def)
    then show ?thesis by (simp add: releaseTurnClaim_def update_where_none filter_False)
  qed
  ultimately show ?thesis by blast
qed

text \<open>The claim of the sample state is taken over after its lease, by another token.\<close>

definition demo_taken :: db where
  "demo_taken = demo_claim 11 8 100 demo_state"

lemma demo_taken_reachable: "reachable (demo_taken, {8, 7})"
  unfolding demo_taken_def
  by (rule reachable_step [OF demo_reachable demo_claim_step]) simp

theorem stale_token_never_writes_witness:
  "\<not> commits (transitionTurn demo_config 101 0 demo_scope (markRunning 11 None None None (Some 7) None)
       demo_taken)"
proof -
  have "list_ex (\<lambda>r. t_id r = 11 \<and> in_scope demo_scope r \<and> t_token r = Some 8) (turns demo_taken)"
    by code_simp
  then obtain r where r: "r \<in> set (turns demo_taken)" "t_id r = 11" "in_scope demo_scope r"
    "t_token r = Some 8" by (auto simp: list_ex_iff)
  show ?thesis
    using stale_token_never_writes [OF demo_taken_reachable run_refl, of 7 r demo_scope
        "markRunning 11 None None None (Some 7) None"] r
    by (simp add: markRunning_def transition_input_to_def)
qed

text \<open>
  C10. What ended stays ended: in any run of automatic steps, a turn that reached a terminal state keeps
  its state, its outcome and its version for good; in a run with manual steps too, only a dead
  letter can leave.
\<close>

theorem terminal_for_good:
  assumes "reachable s" and "turn_run by_hand s s'" and "r \<in> set (turns (fst s))"
    and "isTerminalTurnStatus (t_status r)" and "by_hand \<longrightarrow> t_status r \<noteq> Dead_Letter"
  shows "list_ex (\<lambda>q. t_id q = t_id r \<and> t_status q = t_status r \<and> t_outcome q = t_outcome r
      \<and> t_version q = t_version r) (turns (fst s'))"
proof -
  from run_row [OF assms(2) reachable_store_ok [OF assms(1)] assms(3)] obtain q
    where "q \<in> set (turns (fst s'))" "row_history by_hand r q" by blast
  with assms(4,5) show ?thesis by (auto simp: list_ex_iff row_history_def)
qed

text \<open>A reachable state with a turn that ended, and a step from it.\<close>

definition demo_ended :: db where
  "demo_ended = committed (transitionTurn demo_config 10 0 demo_scope
     (markIgnored 21 Identity_Unknown None None) demo_state) demo_state"

lemma demo_ended_reachable: "reachable (demo_ended, {7})"
proof (rule reachable_step [OF demo_reachable])
  show "turn_step (ti_manual (markIgnored 21 Identity_Unknown None None)) demo_scope
      (demo_state, {7}) (demo_ended, {7})"
    unfolding demo_ended_def by (rule step_transition)
qed

lemma demo_ended_run: "turn_run b (demo_ended, {7}) (demo_claim 11 8 100 demo_ended, {8, 7})"
  by (rule run_step [OF run_refl demo_claim_step]) simp_all

lemma demo_ended_turn:
  obtains r where "r \<in> set (turns demo_ended)" and "t_id r = 21" and "t_status r = Ignored"
proof -
  have "list_ex (\<lambda>r. t_id r = 21 \<and> t_status r = Ignored) (turns demo_ended)" by code_simp
  with that show ?thesis by (auto simp: list_ex_iff)
qed

theorem terminal_for_good_witness:
  "list_ex (\<lambda>q. t_id q = 21 \<and> t_status q = Ignored) (turns (demo_claim 11 8 100 demo_ended))"
proof (rule demo_ended_turn)
  fix r assume r: "r \<in> set (turns demo_ended)" "t_id r = 21" "t_status r = Ignored"
  show ?thesis
    using terminal_for_good [OF demo_ended_reachable demo_ended_run [of True], of r] r
    by (auto simp: list_ex_iff)
qed

text \<open>
  The version of a turn is a faithful clock of its state: along any run it never decreases,
  and if it is the same at two moments then the state, the outcome and the claim token are the same, so a
  compare-and-swap on the version can miss no change in between.
\<close>

lemma version_detects_change:
  assumes "reachable s" and "turn_run b s s'" and "r \<in> set (turns (fst s))"
    and "q \<in> set (turns (fst s'))" and "t_id q = t_id r"
  shows "t_version r \<le> t_version q
    \<and> (t_version q = t_version r \<longrightarrow>
         t_status q = t_status r \<and> t_outcome q = t_outcome r \<and> t_token q = t_token r)"
  using run_row_of(1) [OF assms(2) reachable_store_ok [OF assms(1)] assms(3-5)]
  by (simp add: row_history_def)

lemma version_detects_change_witness:
  "\<exists>q \<in> set (turns (demo_claim 11 8 100 demo_ended)). t_id q = 21 \<and> t_status q = Ignored"
proof (rule demo_ended_turn)
  fix r assume r: "r \<in> set (turns demo_ended)" "t_id r = 21" "t_status r = Ignored"
  have "list_ex (\<lambda>q. t_id q = 21 \<and> t_version q = 1) (turns (demo_claim 11 8 100 demo_ended))"
    "list_all (\<lambda>r. t_id r = 21 \<longrightarrow> t_version r = 1) (turns demo_ended)" by code_simp+
  then obtain q where q: "q \<in> set (turns (demo_claim 11 8 100 demo_ended))" "t_id q = 21"
    "t_version q = t_version r" using r by (auto simp: list_ex_iff list_all_iff)
  with version_detects_change [OF demo_ended_reachable demo_ended_run [of True], of r q] r
  show ?thesis by auto
qed

text \<open>
  C11. Tenants and agents are isolated: no step of one (tenant, agent) adds, changes or removes a turn, a
  message, an input, a block, a sequence or a control of another one.
\<close>

theorem tenant_isolation:
  assumes "reachable (d, ks)" and "turn_step m sc (d, ks) (d', ks')" and "other \<noteq> sc"
  shows "filter (in_scope other) (turns d') = filter (in_scope other) (turns d)
    \<and> foreign_tables sc d' = foreign_tables sc d"
proof -
  have ids: "distinct (map t_id (turns d))"
    using reachable_store_ok [OF assms(1)] by (simp add: store_ok_ids)
  from assms(2) ids obtain fresh where "db_evolves m sc fresh d d'" by (rule step_evolves)
  then have "filter (\<lambda>r. \<not> in_scope sc r) (turns d') = filter (\<lambda>r. \<not> in_scope sc r) (turns d)"
    by (rule db_evolves_isolated)
  then have "filter (in_scope other) (filter (\<lambda>r. \<not> in_scope sc r) (turns d')) =
      filter (in_scope other) (filter (\<lambda>r. \<not> in_scope sc r) (turns d))" by simp
  moreover have "in_scope other r \<and> \<not> in_scope sc r \<longleftrightarrow> in_scope other r" for r
    using assms(3) by (auto simp: in_scope_def prod_eq_iff)
  ultimately show ?thesis using step_confined [OF assms(2)] by (simp add: conj_commute)
qed

theorem tenant_isolation_witness:
  "filter (in_scope (''u'', ''a'')) (turns (demo_claim 11 8 100 demo_ended)) =
     filter (in_scope (''u'', ''a'')) (turns demo_ended)"
proof -
  have "turn_step False demo_scope (demo_ended, {7}) (demo_claim 11 8 100 demo_ended, {8, 7})"
    by (rule demo_claim_step) simp
  moreover have "(''u'', ''a'') \<noteq> demo_scope" by (simp add: demo_scope_def)
  ultimately show ?thesis using tenant_isolation [OF demo_ended_reachable] by blast
qed

end
